(* ===== verification/Prelude.thy ===== *)
theory Prelude
  imports Complex_Main "HOL-Library.List_Lexorder" "HOL-Library.Char_ord"
begin

text \<open>
  What every theory of the development shares: the collections of facts the proofs
  use, the result type of code that may throw, and generic lemmas on lists that stand
  for tables (lists of rows, each with a key) and for objects (association lists).
\<close>

named_theorems js_eval \<open>equations that evaluate JavaScript values\<close>
named_theorems sql_eval \<open>equations that evaluate the SQL statements on tables\<close>
named_theorems sanitized_intro \<open>introduction rules for values free of sensitive keys\<close>

section \<open>Code that may throw\<close>

text \<open>
  A thrown JavaScript value: a \<open>TypeError\<close> the engine raises, an \<open>Error\<close> the code
  raises with its message, or an error a service (the database) answers with.
\<close>

datatype js_error = TypeError | Error string | DbError string

type_synonym 'a result = "js_error + 'a"

fun and_then :: "'a result \<Rightarrow> ('a \<Rightarrow> 'b result) \<Rightarrow> 'b result" where
  "and_then (Inl e) f = Inl e"
| "and_then (Inr a) f = f a"

lemma and_then_Inr_iff:
  "and_then r f = Inr b \<longleftrightarrow> (\<exists>a. r = Inr a \<and> f a = Inr b)"
  by (cases r) auto

lemma and_then_Inl_iff:
  "and_then r f = Inl e \<longleftrightarrow> r = Inl e \<or> (\<exists>a. r = Inr a \<and> f a = Inl e)"
  by (cases r) auto

text \<open>\<open>map\<close> over a list with a callback that may throw: the first throw wins.\<close>

fun traverse :: "('a \<Rightarrow> 'b result) \<Rightarrow> 'a list \<Rightarrow> 'b list result" where
  "traverse f [] = Inr []"
| "traverse f (x # xs) =
     and_then (f x) (\<lambda>y. and_then (traverse f xs) (\<lambda>ys. Inr (y # ys)))"

lemma traverse_cong [fundef_cong]:
  "xs = ys \<Longrightarrow> (\<And>x. x \<in> set ys \<Longrightarrow> f x = g x) \<Longrightarrow> traverse f xs = traverse g ys"
  by (induction xs arbitrary: ys) auto

lemma traverse_Inr [simp]: "traverse (\<lambda>x. Inr (f x)) xs = Inr (map f xs)"
  by (induction xs) auto

lemma traverse_length: "traverse f xs = Inr ys \<Longrightarrow> length ys = length xs"
  by (induction xs arbitrary: ys) (auto simp: and_then_Inr_iff)

section \<open>Association lists\<close>

lemma map_of_filter_key [simp]:
  "map_of (filter (\<lambda>(k, v). P k) ps) k = (if P k then map_of ps k else None)"
  by (induction ps) auto

lemma distinct_fst_filter: "distinct (map fst ps) \<Longrightarrow> distinct (map fst (filter P ps))"
  by (induction ps) auto

lemma map_of_map_value: "map_of (map (\<lambda>(k, v). (k, f v)) ps) k = map_option f (map_of ps k)"
  by (induction ps) auto

lemma fst_map_value [simp]: "map fst (map (\<lambda>(k, v). (k, f v)) ps) = map fst ps"
  by (induction ps) auto

lemma map_of_snoc:
  "map_of (ps @ [(k, v)]) j = (case map_of ps j of None \<Rightarrow> (if j = k then Some v else None) | Some w \<Rightarrow> Some w)"
  by (auto simp: map_add_def split: option.splits)

section \<open>Tables: rows selected and updated by a key\<close>

text \<open>
  \<open>UPDATE ... WHERE p\<close> rewrites the rows that satisfy the condition and leaves the
  others; \<open>RETURNING\<close> gives the rewritten rows.
\<close>

definition update_where :: "('r \<Rightarrow> bool) \<Rightarrow> ('r \<Rightarrow> 'r) \<Rightarrow> 'r list \<Rightarrow> 'r list" where
  "update_where p f rows = map (\<lambda>r. if p r then f r else r) rows"

definition returning :: "('r \<Rightarrow> bool) \<Rightarrow> ('r \<Rightarrow> 'r) \<Rightarrow> 'r list \<Rightarrow> 'r list" where
  "returning p f rows = map f (filter p rows)"

fun first_row :: "'r list \<Rightarrow> 'r option" where
  "first_row [] = None"
| "first_row (r # rs) = Some r"

lemma first_row_Some [simp]: "first_row rs = Some r \<longleftrightarrow> (\<exists>tl. rs = r # tl)"
  by (cases rs) auto

lemma first_row_None [simp]: "first_row rs = None \<longleftrightarrow> rs = []"
  by (cases rs) auto

lemma update_where_Nil [simp]: "update_where p f [] = []"
  by (simp add: update_where_def)

lemma update_where_Cons [simp]:
  "update_where p f (r # rs) = (if p r then f r else r) # update_where p f rs"
  by (simp add: update_where_def)

lemma update_where_append [simp]:
  "update_where p f (rs @ ss) = update_where p f rs @ update_where p f ss"
  by (simp add: update_where_def)

lemma length_update_where [simp]: "length (update_where p f rows) = length rows"
  by (simp add: update_where_def)

lemma map_update_where:
  "(\<And>r. r \<in> set rows \<Longrightarrow> p r \<Longrightarrow> g (f r) = g r) \<Longrightarrow> map g (update_where p f rows) = map g rows"
  by (auto simp: update_where_def)

lemma set_update_where: "set (update_where p f rows) = f ` {r \<in> set rows. p r} \<union> {r \<in> set rows. \<not> p r}"
  by (auto simp: update_where_def image_iff)

lemma in_update_whereE:
  assumes "r \<in> set (update_where p f rows)"
  obtains (kept) "r \<in> set rows" "\<not> p r" | (updated) s where "s \<in> set rows" "p s" "r = f s"
  using assms by (auto simp: set_update_where)

lemma update_where_none: "(\<And>r. r \<in> set rows \<Longrightarrow> \<not> p r) \<Longrightarrow> update_where p f rows = rows"
  by (induction rows) auto

lemma returning_Nil_iff: "returning p f rows = [] \<longleftrightarrow> (\<forall>r \<in> set rows. \<not> p r)"
  by (auto simp: returning_def filter_empty_conv)

lemma set_returning: "set (returning p f rows) = f ` {r \<in> set rows. p r}"
  by (auto simp: returning_def)

text \<open>The row with a key, in a table whose keys are distinct.\<close>

definition find_row :: "('r \<Rightarrow> 'k) \<Rightarrow> 'k \<Rightarrow> 'r list \<Rightarrow> 'r option" where
  "find_row key k rows = first_row (filter (\<lambda>r. key r = k) rows)"

lemma find_row_Nil [simp]: "find_row key k [] = None"
  by (simp add: find_row_def)

lemma find_row_Cons [simp]:
  "find_row key k (r # rs) = (if key r = k then Some r else find_row key k rs)"
  by (simp add: find_row_def)

lemma find_row_SomeD: "find_row key k rows = Some r \<Longrightarrow> r \<in> set rows \<and> key r = k"
  by (induction rows) (auto split: if_splits)

lemma find_row_None: "find_row key k rows = None \<longleftrightarrow> k \<notin> key ` set rows"
  by (induction rows) auto

lemma find_row_append:
  "find_row key k (rs @ ss) = (case find_row key k rs of None \<Rightarrow> find_row key k ss | Some r \<Rightarrow> Some r)"
  by (induction rs) auto

lemma distinct_key_unique:
  "distinct (map key rows) \<Longrightarrow> r \<in> set rows \<Longrightarrow> s \<in> set rows \<Longrightarrow> key r = key s \<Longrightarrow> r = s"
  by (induction rows) (auto simp: rev_image_eqI)

lemma find_row_in: "distinct (map key rows) \<Longrightarrow> r \<in> set rows \<Longrightarrow> find_row key (key r) rows = Some r"
  by (induction rows) (auto simp: rev_image_eqI)

lemma find_row_iff:
  "distinct (map key rows) \<Longrightarrow> find_row key k rows = Some r \<longleftrightarrow> r \<in> set rows \<and> key r = k"
  by (auto dest: find_row_SomeD intro: find_row_in)

lemma find_row_update:
  assumes "\<And>r. key (f r) = key r"
  shows "find_row key k (update_where p f rows) =
    map_option (\<lambda>r. if p r then f r else r) (find_row key k rows)"
  using assms by (induction rows) auto

lemma returning_one:
  assumes "distinct (map key rows)"
  shows "returning (\<lambda>r. key r = k \<and> q r) f rows =
    (case find_row key k rows of Some r \<Rightarrow> (if q r then [f r] else []) | None \<Rightarrow> [])"
  using assms
proof (induction rows)
  case Nil
  then show ?case by (simp add: returning_def)
next
  case (Cons a rows)
  then have "key a = k \<Longrightarrow> filter (\<lambda>r. key r = k \<and> q r) rows = []"
    by (auto simp: filter_empty_conv rev_image_eqI)
  with Cons show ?case by (auto simp: returning_def)
qed

lemma filter_key:
  "distinct (map key rows) \<Longrightarrow>
    filter (\<lambda>r. key r = k) rows = (case find_row key k rows of Some r \<Rightarrow> [r] | None \<Rightarrow> [])"
  using returning_one [of key rows k "\<lambda>_. True" id]
  by (simp add: returning_def cong: option.case_cong)

lemma filter_update_key:
  assumes "\<And>r. key (f r) = key r"
  shows "filter (\<lambda>r. key r = k) (update_where (\<lambda>r. key r = k) f rows) = map f (filter (\<lambda>r. key r = k) rows)"
    and "filter (\<lambda>r. key r \<noteq> k) (update_where (\<lambda>r. key r = k) f rows) = filter (\<lambda>r. key r \<noteq> k) rows"
  using assms by (induction rows) auto

section \<open>Texts that are read back\<close>

text \<open>A way to write values as text, and a reader that undoes it on the valid ones.\<close>

locale codec =
  fixes encode :: "'a \<Rightarrow> string" and decode :: "string \<Rightarrow> 'a option" and valid :: "'a \<Rightarrow> bool"
  assumes decode_encode: "valid x \<Longrightarrow> decode (encode x) = Some x"
begin

lemma encode_eq_iff: "valid x \<Longrightarrow> valid y \<Longrightarrow> encode x = encode y \<longleftrightarrow> x = y"
  using decode_encode by (metis option.inject)

lemma decode_unique: "valid x \<Longrightarrow> decode (encode x) = Some y \<longleftrightarrow> y = x"
  using decode_encode by auto

end

end
