(* ===== verification/JsNumber.thy ===== *)
theory JsNumber
  imports Prelude
begin

text \<open>
  JavaScript numbers: an IEEE double as the rational it denotes, or one of the three
  values that are not finite. The program only compares, prints and reads numbers, so
  the sign of zero is the one thing this forgets (\<open>-0\<close> compares, prints and serialises
  as \<open>0\<close>). Rounding, printing (\<open>String(n)\<close>) and reading (\<open>Number(s)\<close>) follow
  ECMA-262; strings are lists of Latin-1 code units.
\<close>

datatype jsnum = NaN | PosInf | NegInf | Fin rat

text \<open>The relational operators: every comparison with \<open>NaN\<close> is false.\<close>

instantiation jsnum :: ord
begin

fun less_jsnum :: "jsnum \<Rightarrow> jsnum \<Rightarrow> bool" where
  "less_jsnum (Fin a) (Fin b) = (a < b)"
| "less_jsnum (Fin a) PosInf = True"
| "less_jsnum NegInf (Fin b) = True"
| "less_jsnum NegInf PosInf = True"
| "less_jsnum _ _ = False"

fun less_eq_jsnum :: "jsnum \<Rightarrow> jsnum \<Rightarrow> bool" where
  "less_eq_jsnum NaN b = False"
| "less_eq_jsnum a NaN = False"
| "less_eq_jsnum (Fin a) (Fin b) = (a \<le> b)"
| "less_eq_jsnum NegInf b = True"
| "less_eq_jsnum a PosInf = True"
| "less_eq_jsnum a b = False"

instance ..

end

fun is_finite :: "jsnum \<Rightarrow> bool" where
  "is_finite (Fin _) = True"
| "is_finite _ = False"

lemma is_finite_iff: "is_finite n \<longleftrightarrow> (\<exists>q. n = Fin q)"
  by (cases n) auto

lemma not_le_less_finite: "is_finite a \<Longrightarrow> is_finite b \<Longrightarrow> (\<not> a \<le> b) = (b < (a :: jsnum))"
  by (cases a; cases b) auto

section \<open>Rounding a rational to the nearest double\<close>

fun bit_length :: "int \<Rightarrow> int" where
  "bit_length n = (if n \<le> 0 then 0 else 1 + bit_length (n div 2))"

declare bit_length.simps [simp del]

definition pow2 :: "int \<Rightarrow> rat" where
  "pow2 e = (if 0 \<le> e then 2 ^ nat e else 1 / 2 ^ nat (- e))"

text \<open>The exponent \<open>e\<close> with \<open>2 ^ e \<le> q < 2 ^ (e + 1)\<close>, for a positive \<open>q\<close>.\<close>

definition binary_exponent :: "rat \<Rightarrow> int" where
  "binary_exponent q =
     (let (n, d) = quotient_of q;
          e = bit_length n - bit_length d
      in if pow2 e \<le> q then e else e - 1)"

definition round_half_even :: "rat \<Rightarrow> int" where
  "round_half_even q =
     (let f = \<lfloor>q\<rfloor>; r = q - of_int f
      in if r < 1 / 2 then f else if 1 / 2 < r then f + 1
         else if even f then f else f + 1)"

text \<open>53 bits of significand, exponents down to \<open>-1022\<close>, overflow at \<open>2 ^ 1024\<close>.\<close>

definition to_double :: "rat \<Rightarrow> jsnum" where
  "to_double q =
     (if q = 0 then Fin 0
      else
        let a = \<bar>q\<bar>;
            ulp = pow2 (max (binary_exponent a) (-1022) - 52);
            v = of_int (round_half_even (a / ulp)) * ulp
        in if 1024 \<le> binary_exponent v then (if 0 < q then PosInf else NegInf)
           else Fin (if 0 < q then v else - v))"

section \<open>Decimal digits\<close>

definition digit_char :: "nat \<Rightarrow> char" where
  "digit_char d = char_of (48 + d)"

definition is_digit :: "char \<Rightarrow> bool" where
  "is_digit c = (48 \<le> (of_char c :: nat) \<and> (of_char c :: nat) \<le> 57)"

definition digit_value :: "char \<Rightarrow> nat" where
  "digit_value c = of_char c - 48"

fun show_int :: "int \<Rightarrow> string" where
  "show_int n = (if n < 10 then [digit_char (nat n)] else show_int (n div 10) @ [digit_char (nat (n mod 10))])"

declare show_int.simps [simp del]

definition read_int :: "string \<Rightarrow> int" where
  "read_int s = foldl (\<lambda>acc c. acc * 10 + int (digit_value c)) 0 s"

lemma digit_value_char [simp]: "d < 10 \<Longrightarrow> digit_value (digit_char d) = d"
  by (simp add: digit_value_def digit_char_def)

lemma is_digit_char [simp]: "d < 10 \<Longrightarrow> is_digit (digit_char d)"
  by (simp add: is_digit_def digit_char_def)

lemma show_int_digits: "list_all is_digit (show_int n)"
proof (induction n rule: show_int.induct)
  case (1 n)
  then show ?case by (cases "n < 10") (auto simp: show_int.simps [of n] nat_less_iff)
qed

lemma show_int_nonempty [simp]: "show_int n \<noteq> []"
  by (subst show_int.simps) simp

lemma read_show_int [simp]: "0 \<le> n \<Longrightarrow> read_int (show_int n) = n"
proof (induction n rule: show_int.induct)
  case (1 n)
  show ?case
  proof (cases "n < 10")
    case True
    with 1 show ?thesis by (simp add: show_int.simps [of n] read_int_def)
  next
    case False
    with 1 have "read_int (show_int (n div 10)) = n div 10" by simp
    with False show ?thesis by (simp add: show_int.simps [of n] read_int_def nat_less_iff)
  qed
qed

lemma show_int_inj: "0 \<le> m \<Longrightarrow> 0 \<le> n \<Longrightarrow> show_int m = show_int n \<longleftrightarrow> m = n"
  using read_show_int by metis

lemma read_int_snoc: "read_int (s @ [c]) = read_int s * 10 + int (digit_value c)"
  by (simp add: read_int_def)

lemma read_int_nonneg: "0 \<le> read_int s"
  by (induction s rule: rev_induct) (simp_all add: read_int_snoc, simp add: read_int_def)

lemma digit_char_value: "is_digit c \<Longrightarrow> digit_char (digit_value c) = c"
  by (simp add: is_digit_def digit_char_def digit_value_def)

lemma digit_value_less: "is_digit c \<Longrightarrow> digit_value c < 10"
  by (auto simp: is_digit_def digit_value_def)

lemma digit_value_zero: "is_digit c \<Longrightarrow> digit_value c = 0 \<longleftrightarrow> c = CHR ''0''"
proof -
  assume c: "is_digit c"
  have zero: "digit_char 0 = CHR ''0''" by code_simp
  show ?thesis
  proof
    assume "digit_value c = 0"
    then show "c = CHR ''0''" using digit_char_value [OF c] zero by simp
  next
    assume "c = CHR ''0''"
    then show "digit_value c = 0" using zero digit_value_char [of 0] by simp
  qed
qed

lemma read_int_pos:
  "list_all is_digit s \<Longrightarrow> s \<noteq> [] \<Longrightarrow> hd s \<noteq> CHR ''0'' \<Longrightarrow> 0 < read_int s"
proof (induction s rule: rev_induct)
  case Nil
  then show ?case by simp
next
  case (snoc c s)
  show ?case
  proof (cases "s = []")
    case True
    with snoc.prems show ?thesis
      using digit_value_zero [of c] by (simp add: read_int_def)
  next
    case False
    with snoc have "0 < read_int s" by simp
    then show ?thesis by (simp add: read_int_snoc)
  qed
qed

text \<open>A decimal without a leading zero is what its value prints as.\<close>

lemma show_read_int:
  assumes "list_all is_digit s" and "s \<noteq> []" and "s = ''0'' \<or> hd s \<noteq> CHR ''0''"
  shows "show_int (read_int s) = s"
  using assms
proof (induction s rule: rev_induct)
  case Nil
  then show ?case by simp
next
  case (snoc c s)
  then have c: "digit_value c < 10" "digit_char (digit_value c) = c"
    by (auto simp: digit_value_less digit_char_value)
  show ?case
  proof (cases "s = []")
    case True
    with c show ?thesis by (simp add: read_int_def show_int.simps)
  next
    case False
    with snoc.prems have pos: "0 < read_int s" by (intro read_int_pos) auto
    have "show_int (read_int s) = s"
      using snoc False by (cases s) auto
    moreover have "\<not> read_int s * 10 + int (digit_value c) < 10" using pos by simp
    moreover have "(read_int s * 10 + int (digit_value c)) div 10 = read_int s"
      "(read_int s * 10 + int (digit_value c)) mod 10 = int (digit_value c)"
      using c(1) by auto
    ultimately show ?thesis
      using c(2) by (subst show_int.simps) (simp add: read_int_snoc)
  qed
qed

section \<open>Printing: the shortest digits that read back as the number\<close>

definition pow10 :: "int \<Rightarrow> rat" where
  "pow10 e = (if 0 \<le> e then 10 ^ nat e else 1 / 10 ^ nat (- e))"

fun leading_zeros :: "nat \<Rightarrow> rat \<Rightarrow> nat" where
  "leading_zeros 0 q = 0"
| "leading_zeros (Suc fuel) q = (if 1 \<le> 10 * q then 0 else Suc (leading_zeros fuel (10 * q)))"

text \<open>
  The \<open>n\<close> with \<open>10 ^ (n - 1) \<le> q < 10 ^ n\<close>. The smallest positive double is above
  \<open>10 ^ (-324)\<close>, so 400 steps are enough.
\<close>

definition decimal_point :: "rat \<Rightarrow> int" where
  "decimal_point q =
     (if 1 \<le> q then int (length (show_int \<lfloor>q\<rfloor>)) else - int (leading_zeros 400 q))"

text \<open>
  The digits of length \<open>k\<close> nearest to \<open>q\<close> that denote a decimal rounding to the
  double \<open>q\<close>, if there are any.
\<close>

definition digits_of_length :: "rat \<Rightarrow> int \<Rightarrow> nat \<Rightarrow> int option" where
  "digits_of_length q n k =
     (let unit = pow10 (n - int k);
          t = q / unit;
          lo = \<lfloor>t\<rfloor>;
          ok = (\<lambda>s. to_double (of_int s * unit) = Fin q);
          near = (if t - of_int lo \<le> 1 / 2 then [lo, lo + 1] else [lo + 1, lo])
      in find ok near)"

fun shortest_digits :: "nat \<Rightarrow> nat \<Rightarrow> rat \<Rightarrow> int \<Rightarrow> nat \<times> int" where
  "shortest_digits 0 k q n = (k, \<lfloor>q / pow10 (n - int k)\<rfloor>)"
| "shortest_digits (Suc fuel) k q n =
     (case digits_of_length q n k of
        Some s \<Rightarrow> (k, s)
      | None \<Rightarrow> shortest_digits fuel (Suc k) q n)"

text \<open>The layout of \<open>Number::toString\<close>, for digits \<open>ds\<close> with the point after the \<open>n\<close>th.\<close>

definition layout_digits :: "string \<Rightarrow> int \<Rightarrow> string" where
  "layout_digits ds n =
     (let k = int (length ds) in
      if k \<le> n \<and> n \<le> 21 then ds @ replicate (nat (n - k)) CHR ''0''
      else if 0 < n \<and> n \<le> 21 then take (nat n) ds @ ''.'' @ drop (nat n) ds
      else if - 6 < n \<and> n \<le> 0 then ''0.'' @ replicate (nat (- n)) CHR ''0'' @ ds
      else
        let e = n - 1;
            expo = ''e'' @ (if 0 \<le> e then ''+'' else ''-'') @ show_int \<bar>e\<bar>
        in if k = 1 then ds @ expo else take 1 ds @ ''.'' @ drop 1 ds @ expo)"

definition show_positive :: "rat \<Rightarrow> string" where
  "show_positive q =
     (let n = decimal_point q;
          (k, s) = shortest_digits (nat (n + 1075)) 1 q n;
          ds = show_int s
      in layout_digits (take k ds) (n + int (length ds) - int k))"

fun num_to_string :: "jsnum \<Rightarrow> string" where
  "num_to_string NaN = ''NaN''"
| "num_to_string PosInf = ''Infinity''"
| "num_to_string NegInf = ''-Infinity''"
| "num_to_string (Fin q) =
     (if q = 0 then ''0'' else if q < 0 then ''-'' @ show_positive (- q) else show_positive q)"

section \<open>Reading: \<open>Number(s)\<close> on a string\<close>

definition is_space :: "char \<Rightarrow> bool" where
  "is_space c = ((of_char c :: nat) \<in> {9, 10, 11, 12, 13, 32, 160})"

text \<open>\<open>String.prototype.trim\<close>.\<close>

definition trim :: "string \<Rightarrow> string" where
  "trim s = rev (dropWhile is_space (rev (dropWhile is_space s)))"

definition radix_value :: "char \<Rightarrow> nat" where
  "radix_value c =
     (let n = of_char c in
      if 48 \<le> n \<and> n \<le> 57 then n - 48
      else if 97 \<le> n \<and> n \<le> 102 then n - 87
      else if 65 \<le> n \<and> n \<le> 70 then n - 55
      else 99)"

definition read_radix :: "nat \<Rightarrow> string \<Rightarrow> jsnum" where
  "read_radix b s =
     (if s \<noteq> [] \<and> list_all (\<lambda>c. radix_value c < b) s
      then to_double (of_int (foldl (\<lambda>acc c. acc * int b + int (radix_value c)) 0 s)) else NaN)"

text \<open>An optional exponent part: \<open>None\<close> where the rest of the string is not one.\<close>

definition read_exponent :: "string \<Rightarrow> int option" where
  "read_exponent s =
     (case s of
        [] \<Rightarrow> Some 0
      | c # r \<Rightarrow>
          if c \<in> {CHR ''e'', CHR ''E''} then
            (let (neg, ds) =
               (case r of
                  d # r' \<Rightarrow> if d = CHR ''-'' then (True, r') else if d = CHR ''+'' then (False, r') else (False, r)
                | [] \<Rightarrow> (False, r))
             in if ds \<noteq> [] \<and> list_all is_digit ds
                then Some (if neg then - read_int ds else read_int ds) else None)
          else None)"

definition read_unsigned :: "string \<Rightarrow> rat option" where
  "read_unsigned s =
     (let whole = takeWhile is_digit s;
          rest = dropWhile is_digit s;
          (frac, tail) =
            (case rest of
               c # r \<Rightarrow> if c = CHR ''.'' then (takeWhile is_digit r, dropWhile is_digit r) else ([], rest)
             | [] \<Rightarrow> ([], rest))
      in if whole @ frac = [] then None
         else map_option
           (\<lambda>e. of_int (read_int (whole @ frac)) * pow10 (e - int (length frac)))
           (read_exponent tail))"

definition string_to_num :: "string \<Rightarrow> jsnum" where
  "string_to_num s =
     (let t = trim s in
      if t = [] then Fin 0
      else if take 2 t \<in> {''0x'', ''0X''} then read_radix 16 (drop 2 t)
      else if take 2 t \<in> {''0o'', ''0O''} then read_radix 8 (drop 2 t)
      else if take 2 t \<in> {''0b'', ''0B''} then read_radix 2 (drop 2 t)
      else
        let (neg, u) =
          (case t of
             c # r \<Rightarrow> if c = CHR ''-'' then (True, r) else if c = CHR ''+'' then (False, r) else (False, t)
           | [] \<Rightarrow> (False, t))
        in if u = ''Infinity'' then (if neg then NegInf else PosInf)
           else case read_unsigned u of
                  None \<Rightarrow> NaN
                | Some q \<Rightarrow> to_double (if neg then - q else q))"

end
