(* ===== verification/JsValue.thy ===== *)
theory JsValue
  imports JsNumber
begin

text \<open>
  JavaScript values as the program sees them: JSON data, \<open>undefined\<close>, and the \<open>Date\<close>
  objects the database client returns. An object is the list of its own enumerable string
  properties in enumeration order (\<open>Object.entries\<close>): array-index keys ascending, then
  the others in order of creation. A \<open>Date\<close> has no own properties; it carries what
  \<open>toJSON\<close>, \<open>toString\<close> and \<open>valueOf\<close> answer. Prototype chains are not represented:
  assigning to \<open>__proto__\<close> creates no own property, and reads see own properties only.
\<close>

datatype jsval =
    JUndef
  | JNull
  | JBool bool
  | JNum jsnum
  | JStr string
  | JArr "jsval list"
  | JObj "(string \<times> jsval) list"
  | JDate (date_json: string) (date_text: string) (date_value: rat)

type_synonym props = "(string \<times> jsval) list"

abbreviation JInt :: "int \<Rightarrow> jsval" where
  "JInt n \<equiv> JNum (Fin (of_int n))"

section \<open>Truth, \<open>||\<close> and \<open>??\<close>\<close>

fun truthy :: "jsval \<Rightarrow> bool" where
  "truthy JUndef = False"
| "truthy JNull = False"
| "truthy (JBool b) = b"
| "truthy (JNum n) = (n \<noteq> NaN \<and> n \<noteq> Fin 0)"
| "truthy (JStr s) = (s \<noteq> [])"
| "truthy (JArr _) = True"
| "truthy (JObj _) = True"
| "truthy (JDate _ _ _) = True"

definition js_or :: "jsval \<Rightarrow> jsval \<Rightarrow> jsval" where
  "js_or a b = (if truthy a then a else b)"

fun nullish :: "jsval \<Rightarrow> bool" where
  "nullish JUndef = True"
| "nullish JNull = True"
| "nullish _ = False"

lemma nullish_iff: "nullish v \<longleftrightarrow> v = JUndef \<or> v = JNull"
  by (cases v) auto

lemma truthy_not_nullish: "truthy v \<Longrightarrow> \<not> nullish v"
  by (cases v) auto

lemma js_or_JNull [simp]: "js_or JUndef b = b" "js_or JNull b = b"
  by (simp_all add: js_or_def)

text \<open>\<open>typeof v === "object"\<close> for a value that is not null.\<close>

fun is_object :: "jsval \<Rightarrow> bool" where
  "is_object (JArr _) = True"
| "is_object (JObj _) = True"
| "is_object (JDate _ _ _) = True"
| "is_object _ = False"

section \<open>Properties\<close>

definition keys :: "props \<Rightarrow> string set" where
  "keys ps = fst ` set ps"

definition prop_of :: "props \<Rightarrow> string \<Rightarrow> jsval" where
  "prop_of ps k = (case map_of ps k of Some v \<Rightarrow> v | None \<Rightarrow> JUndef)"

text \<open>\<open>v.k\<close>: a \<open>TypeError\<close> on \<open>undefined\<close> and \<open>null\<close>.\<close>

fun js_get :: "jsval \<Rightarrow> string \<Rightarrow> jsval result" where
  "js_get JUndef k = Inl TypeError"
| "js_get JNull k = Inl TypeError"
| "js_get (JObj ps) k = Inr (prop_of ps k)"
| "js_get (JArr xs) k = Inr (if k = ''length'' then JInt (int (length xs)) else JUndef)"
| "js_get (JStr s) k = Inr (if k = ''length'' then JInt (int (length s)) else JUndef)"
| "js_get _ k = Inr JUndef"

text \<open>Array-index keys: canonical decimals below \<open>2 ^ 32 - 1\<close>.\<close>

definition is_index :: "string \<Rightarrow> bool" where
  "is_index k =
     (k \<noteq> [] \<and> list_all is_digit k \<and> (k = ''0'' \<or> hd k \<noteq> CHR ''0'') \<and> read_int k < 4294967295)"

text \<open>\<open>CreateDataProperty\<close>: what an object literal and a spread do with each property.\<close>

definition define_prop :: "string \<Rightarrow> jsval \<Rightarrow> props \<Rightarrow> props" where
  "define_prop k v ps =
     (if k \<in> keys ps then map (\<lambda>(j, w). (j, if j = k then v else w)) ps
      else if is_index k then
        takeWhile (\<lambda>(j, _). is_index j \<and> read_int j < read_int k) ps @ (k, v) #
        dropWhile (\<lambda>(j, _). is_index j \<and> read_int j < read_int k) ps
      else ps @ [(k, v)])"

text \<open>Assignment \<open>o.k = v\<close>: \<open>__proto__\<close> is the accessor of \<open>Object.prototype\<close>.\<close>

definition assign_prop :: "string \<Rightarrow> jsval \<Rightarrow> props \<Rightarrow> props" where
  "assign_prop k v ps = (if k = ''__proto__'' then ps else define_prop k v ps)"

definition delete_prop :: "string \<Rightarrow> props \<Rightarrow> props" where
  "delete_prop k ps = filter (\<lambda>(j, _). j \<noteq> k) ps"

text \<open>\<open>{...o}\<close> onto the properties collected so far.\<close>

definition spread :: "props \<Rightarrow> props \<Rightarrow> props" where
  "spread ps src = fold (\<lambda>(k, v). define_prop k v) src ps"

definition object_literal :: "props \<Rightarrow> props" where
  "object_literal = spread []"

lemma upd_value:
  "map_of (map (\<lambda>(j, w). (j, if j = k then v else w)) ps) i =
    (case map_of ps i of None \<Rightarrow> None | Some w \<Rightarrow> Some (if i = k then v else w))"
  by (induction ps) auto

lemma map_of_insert_at: "k \<notin> keys xs \<Longrightarrow> map_of (xs @ (k, v) # ys) = (map_of (xs @ ys))(k \<mapsto> v)"
  by (induction xs) (auto simp: keys_def fun_eq_iff)

lemma keys_part: "k \<notin> keys ps \<Longrightarrow> k \<notin> keys (takeWhile P ps) \<and> k \<notin> keys (dropWhile P ps)"
  by (force simp: keys_def dest: set_takeWhileD set_dropWhileD)

lemma map_of_define_prop [simp]: "map_of (define_prop k v ps) = (map_of ps)(k \<mapsto> v)"
proof (cases "k \<in> keys ps")
  case True
  then obtain w where "map_of ps k = Some w" by (auto simp: keys_def dest: weak_map_of_SomeI)
  with True show ?thesis by (auto simp: define_prop_def upd_value fun_eq_iff split: option.splits)
next
  case False
  then show ?thesis
    using keys_part [OF False]
    by (simp add: define_prop_def map_of_insert_at [of k ps v "[]", simplified] map_of_insert_at
        del: map_of_append)
qed

lemma keys_dom: "keys ps = dom (map_of ps)"
  by (simp add: keys_def dom_map_of_conv_image_fst)

lemma keys_Nil [simp]: "keys [] = {}"
  by (simp add: keys_def)

lemma keys_Cons [simp]: "keys ((k, v) # ps) = insert k (keys ps)"
  by (simp add: keys_def)

lemma keys_append [simp]: "keys (ps @ qs) = keys ps \<union> keys qs"
  by (auto simp: keys_def)

lemma map_of_assign_prop [simp]:
  "map_of (assign_prop k v ps) = (if k = ''__proto__'' then map_of ps else (map_of ps)(k \<mapsto> v))"
  by (simp add: assign_prop_def)

lemma map_of_delete_prop [simp]: "map_of (delete_prop k ps) = (map_of ps)(k := None)"
  by (induction ps) (auto simp: delete_prop_def fun_eq_iff)

lemma keys_define_prop [simp]: "keys (define_prop k v ps) = insert k (keys ps)"
  by (simp add: keys_dom)

lemma keys_assign_prop [simp]:
  "keys (assign_prop k v ps) = (if k = ''__proto__'' then keys ps else insert k (keys ps))"
  by (simp add: assign_prop_def)

lemma keys_delete_prop [simp]: "keys (delete_prop k ps) = keys ps - {k}"
  by (auto simp: keys_dom)

lemma set_define_prop: "set (define_prop k v ps) \<subseteq> insert (k, v) (set ps)"
  by (auto simp: define_prop_def split: if_splits dest: set_takeWhileD set_dropWhileD)

lemma set_assign_prop: "set (assign_prop k v ps) \<subseteq> insert (k, v) (set ps)"
  using set_define_prop by (auto simp: assign_prop_def)

lemma fst_upd_value [simp]: "map fst (map (\<lambda>(j, w). (j, if j = k then v else w)) ps) = map fst ps"
  by (induction ps) auto

lemma distinct_define_prop:
  assumes "distinct (map fst ps)"
  shows "distinct (map fst (define_prop k v ps))"
proof (cases "k \<in> keys ps")
  case True
  with assms show ?thesis by (simp add: define_prop_def del: map_map)
next
  case False
  let ?P = "\<lambda>(j, _). is_index j \<and> read_int j < read_int k"
  have "map fst ps = map fst (takeWhile ?P ps) @ map fst (dropWhile ?P ps)"
    by (simp flip: map_append)
  with assms have "distinct (map fst (takeWhile ?P ps) @ map fst (dropWhile ?P ps))" by simp
  with False assms keys_part [OF False, of ?P] show ?thesis
    by (auto simp: define_prop_def keys_def)
qed

lemma distinct_assign_prop: "distinct (map fst ps) \<Longrightarrow> distinct (map fst (assign_prop k v ps))"
  by (simp add: assign_prop_def distinct_define_prop)

lemma spread_Nil [simp]: "spread ps [] = ps"
  by (simp add: spread_def)

lemma spread_Cons [simp]: "spread ps ((k, v) # src) = spread (define_prop k v ps) src"
  by (simp add: spread_def)

lemma spread_append: "spread ps (src @ src') = spread (spread ps src) src'"
  by (simp add: spread_def)

lemma map_of_spread:
  "distinct (map fst src) \<Longrightarrow>
   map_of (spread ps src) k = (case map_of src k of Some v \<Rightarrow> Some v | None \<Rightarrow> map_of ps k)"
proof (induction src arbitrary: ps)
  case Nil
  then show ?case by simp
next
  case (Cons x src)
  obtain j w where x: "x = (j, w)" by (cases x)
  with Cons.prems have "map_of src j = None" by (simp add: map_of_eq_None_iff)
  with Cons x show ?case by (auto split: option.splits)
qed

lemma keys_spread [simp]: "keys (spread ps src) = keys ps \<union> keys src"
  by (induction src arbitrary: ps) auto

lemma set_spread: "set (spread ps src) \<subseteq> set ps \<union> set src"
proof (induction src arbitrary: ps)
  case Nil
  then show ?case by simp
next
  case (Cons x src)
  obtain k v where "x = (k, v)" by (cases x)
  with Cons [of "define_prop k v ps"] set_define_prop [of k v ps] show ?case by auto
qed

lemma distinct_spread: "distinct (map fst ps) \<Longrightarrow> distinct (map fst (spread ps src))"
  by (induction src arbitrary: ps) (auto simp: distinct_define_prop)

text \<open>
  Building an object by assigning its properties one after the other onto \<open>{}\<close>.
\<close>

definition assign_all :: "props \<Rightarrow> props" where
  "assign_all ps = fold (\<lambda>(k, v). assign_prop k v) ps []"

text \<open>
  The order every object of the engine is in: its keys are distinct, array-index keys
  come first, ascending. Assigning properties that are in this order appends them.
\<close>

definition key_before :: "string \<Rightarrow> string \<Rightarrow> bool" where
  "key_before a b \<longleftrightarrow> a \<noteq> b \<and> (if is_index b then is_index a \<and> read_int a < read_int b else True)"

definition ordered_props :: "props \<Rightarrow> bool" where
  "ordered_props ps = sorted_wrt key_before (map fst ps)"

lemma ordered_props_Nil [simp]: "ordered_props []"
  by (simp add: ordered_props_def)

lemma ordered_props_Cons:
  "ordered_props ((k, v) # ps) \<longleftrightarrow> (\<forall>j \<in> keys ps. key_before k j) \<and> ordered_props ps"
  by (simp add: ordered_props_def keys_def)

lemma ordered_props_append:
  "ordered_props (ps @ qs) \<longleftrightarrow>
    ordered_props ps \<and> ordered_props qs \<and> (\<forall>i \<in> keys ps. \<forall>j \<in> keys qs. key_before i j)"
  by (simp add: ordered_props_def keys_def sorted_wrt_append)

lemma ordered_distinct: "ordered_props ps \<Longrightarrow> distinct (map fst ps)"
  unfolding ordered_props_def by (induction ps) (auto simp: key_before_def)

lemma ordered_filter: "ordered_props ps \<Longrightarrow> ordered_props (filter P ps)"
  by (induction ps) (auto simp: ordered_props_Cons keys_def)

lemma ordered_map_value [simp]: "ordered_props (map (\<lambda>(k, v). (k, f v)) ps) = ordered_props ps"
  unfolding ordered_props_def by (simp only: fst_map_value)

lemma is_index_inj: "is_index a \<Longrightarrow> is_index b \<Longrightarrow> read_int a = read_int b \<Longrightarrow> a = b"
  unfolding is_index_def by (metis show_read_int)

lemma keys_map_value [simp]: "keys (map (\<lambda>(k, v). (k, f v)) ps) = keys ps"
  by (force simp: keys_def)

lemma define_prop_last:
  assumes "\<forall>j \<in> keys ps. key_before j k"
  shows "define_prop k v ps = ps @ [(k, v)]"
proof -
  have k: "k \<notin> keys ps" using assms by (auto simp: key_before_def)
  have "takeWhile (\<lambda>(j, _). is_index j \<and> read_int j < read_int k) ps = ps" if "is_index k"
    using assms that by (auto simp: takeWhile_eq_all_conv key_before_def keys_def)
  moreover from this have "dropWhile (\<lambda>(j, _). is_index j \<and> read_int j < read_int k) ps = []" if "is_index k"
    using that by (metis append_self_conv takeWhile_dropWhile_id)
  ultimately show ?thesis
    using k by (simp add: define_prop_def)
qed

lemma assign_all_ordered:
  assumes "ordered_props ps" and "''__proto__'' \<notin> keys ps"
  shows "assign_all ps = ps"
proof -
  have "fold (\<lambda>(k, v). assign_prop k v) qs rs = rs @ qs"
    if "ordered_props (rs @ qs)" "''__proto__'' \<notin> keys qs" for qs rs
    using that
  proof (induction qs arbitrary: rs)
    case Nil
    then show ?case by simp
  next
    case (Cons x qs)
    obtain k v where x: "x = (k, v)" by (cases x)
    have "assign_prop k v rs = rs @ [(k, v)]"
      using Cons.prems x by (auto simp: assign_prop_def define_prop_last ordered_props_append)
    with Cons x show ?case by simp
  qed
  from this [of "[]" ps] assms show ?thesis by (simp add: assign_all_def)
qed

definition index_below :: "string \<Rightarrow> string \<times> jsval \<Rightarrow> bool" where
  "index_below k = (\<lambda>(j, _). is_index j \<and> read_int j < read_int k)"

lemma key_before_index_below:
  assumes "is_index k" and "k \<noteq> i" and "\<not> index_below k (i, w)"
  shows "key_before k i"
  using assms is_index_inj [of k i] by (fastforce simp: key_before_def index_below_def)

lemma key_before_trans: "key_before a b \<Longrightarrow> key_before b c \<Longrightarrow> a \<noteq> c \<Longrightarrow> key_before a c"
  by (auto simp: key_before_def split: if_splits)

lemma dropWhile_index_below:
  assumes "ordered_props ps" and "k \<notin> keys ps" and "is_index k"
  shows "\<forall>j \<in> keys (dropWhile (index_below k) ps). key_before k j"
  using assms(1,2)
proof (induction ps)
  case Nil
  then show ?case by simp
next
  case (Cons x ps)
  obtain i w where x: "x = (i, w)" by (cases x)
  show ?case
  proof (cases "index_below k x")
    case True
    with Cons x show ?thesis by (simp add: ordered_props_Cons)
  next
    case False
    with x Cons.prems assms(3) have i: "key_before k i" by (intro key_before_index_below) auto
    then have "key_before k j" if "j \<in> keys ps" for j
      using Cons.prems x that key_before_trans [OF i, of j] by (auto simp: ordered_props_Cons)
    with i x False show ?thesis by simp
  qed
qed

lemma ordered_define_prop:
  assumes ps: "ordered_props ps"
  shows "ordered_props (define_prop k v ps)"
proof (cases "k \<in> keys ps")
  case True
  with ps show ?thesis by (simp add: define_prop_def ordered_props_def del: map_map)
next
  case False
  show ?thesis
  proof (cases "is_index k")
    case True
    let ?ts = "takeWhile (index_below k) ps" and ?ds = "dropWhile (index_below k) ps"
    have "ordered_props (?ts @ ?ds)" using ps by simp
    then have "ordered_props ?ts" "ordered_props ?ds" "\<forall>i \<in> keys ?ts. \<forall>j \<in> keys ?ds. key_before i j"
      by (auto simp only: ordered_props_append)
    moreover have "key_before j k" if "j \<in> keys ?ts" for j
    proof -
      from that obtain w where "(j, w) \<in> set ?ts" by (auto simp: keys_def)
      then have "index_below k (j, w)" by (rule set_takeWhileD [THEN conjunct2])
      with True show ?thesis by (auto simp: index_below_def key_before_def)
    qed
    moreover have "\<forall>j \<in> keys ?ds. key_before k j"
      using ps False True by (rule dropWhile_index_below)
    moreover have "define_prop k v ps = ?ts @ (k, v) # ?ds"
      using False True by (simp add: define_prop_def index_below_def)
    ultimately show ?thesis
      by (simp add: ordered_props_append ordered_props_Cons)
  next
    case no_index: False
    have "\<forall>j \<in> keys ps. key_before j k" using False no_index by (auto simp: key_before_def)
    with ps show ?thesis by (simp add: define_prop_last ordered_props_append ordered_props_Cons)
  qed
qed

lemma ordered_assign_all: "ordered_props (assign_all ps)"
proof -
  have "ordered_props qs \<Longrightarrow> ordered_props (fold (\<lambda>(k, v). assign_prop k v) ps qs)" for qs
    by (induction ps arbitrary: qs) (auto simp: assign_prop_def ordered_define_prop split: if_splits)
  then show ?thesis by (simp add: assign_all_def)
qed

lemma map_of_assign_all:
  assumes "distinct (map fst ps)"
  shows "map_of (assign_all ps) k = (if k = ''__proto__'' then None else map_of ps k)"
proof -
  have "map_of (fold (\<lambda>(k, v). assign_prop k v) ps qs) k =
      (if k = ''__proto__'' then map_of qs k
       else case map_of ps k of Some v \<Rightarrow> Some v | None \<Rightarrow> map_of qs k)" for qs
    using assms
  proof (induction ps arbitrary: qs)
    case Nil
    then show ?case by simp
  next
    case (Cons x ps)
    obtain j w where x: "x = (j, w)" by (cases x)
    with Cons.prems have "map_of ps j = None" by (simp add: map_of_eq_None_iff)
    with Cons x show ?case by (auto split: option.splits)
  qed
  from this [of "[]"] show ?thesis by (auto simp: assign_all_def split: option.splits)
qed

lemma keys_assign_all: "keys (assign_all ps) = keys ps - {''__proto__''}"
proof -
  have "keys (fold (\<lambda>(k, v). assign_prop k v) ps qs) = keys qs \<union> (keys ps - {''__proto__''})" for qs
    by (induction ps arbitrary: qs) (auto split: if_splits)
  then show ?thesis by (simp add: assign_all_def)
qed

lemma set_assign_all: "set (assign_all ps) \<subseteq> set ps"
proof -
  have "set (fold (\<lambda>(k, v). assign_prop k v) ps qs) \<subseteq> set qs \<union> set ps" for qs
  proof (induction ps arbitrary: qs)
    case (Cons x ps)
    obtain k v where "x = (k, v)" by (cases x)
    with Cons [of "assign_prop k v qs"] set_assign_prop [of k v qs] show ?case by auto
  qed simp
  from this [of "[]"] show ?thesis by (simp add: assign_all_def)
qed

section \<open>Conversion to string and number\<close>

text \<open>
  \<open>String(v)\<close>. An object's \<open>toString\<close> is the inherited one unless JSON data brought an
  own property of that name, which is not callable: then no primitive is found and the
  conversion throws.
\<close>

function to_str :: "jsval \<Rightarrow> string result" where
  "to_str JUndef = Inr ''undefined''"
| "to_str JNull = Inr ''null''"
| "to_str (JBool b) = Inr (if b then ''true'' else ''false'')"
| "to_str (JNum n) = Inr (num_to_string n)"
| "to_str (JStr s) = Inr s"
| "to_str (JArr xs) =
     and_then (traverse (\<lambda>x. if nullish x then Inr [] else to_str x) xs)
       (\<lambda>ss. Inr (concat (case ss of [] \<Rightarrow> [] | s # r \<Rightarrow> s # map (\<lambda>t. '','' @ t) r)))"
| "to_str (JObj ps) = (if ''toString'' \<in> keys ps then Inl TypeError else Inr ''[object Object]'')"
| "to_str (JDate j t n) = Inr t"
  by pat_completeness auto
termination
proof (relation "measure size")
  show "wf (measure (size :: jsval \<Rightarrow> nat))" by simp
next
  fix xs :: "jsval list" and x
  assume "x \<in> set xs"
  then have "size x \<le> size_list size xs" by (rule size_list_estimation') simp
  then show "(x, JArr xs) \<in> measure size" by simp
qed

text \<open>\<open>Number(v)\<close>.\<close>

fun to_num :: "jsval \<Rightarrow> jsnum result" where
  "to_num JUndef = Inr NaN"
| "to_num JNull = Inr (Fin 0)"
| "to_num (JBool b) = Inr (Fin (if b then 1 else 0))"
| "to_num (JNum n) = Inr n"
| "to_num (JStr s) = Inr (string_to_num s)"
| "to_num (JArr xs) = and_then (to_str (JArr xs)) (\<lambda>s. Inr (string_to_num s))"
| "to_num (JObj ps) = and_then (to_str (JObj ps)) (\<lambda>s. Inr (string_to_num s))"
| "to_num (JDate j t n) = Inr (Fin n)"

text \<open>\<open>v > n\<close> and \<open>v <= n\<close> against a number of the code.\<close>

definition js_gt :: "jsval \<Rightarrow> jsnum \<Rightarrow> bool result" where
  "js_gt v n = and_then (to_num v) (\<lambda>a. Inr (n < a))"

definition js_le :: "jsval \<Rightarrow> jsnum \<Rightarrow> bool result" where
  "js_le v n = and_then (to_num v) (\<lambda>a. Inr (a \<le> n))"

lemma js_cmp_num [simp]: "js_gt (JNum a) n = Inr (n < a)" "js_le (JNum a) n = Inr (a \<le> n)"
  by (simp_all add: js_gt_def js_le_def)

section \<open>Splitting and joining strings\<close>

text \<open>\<open>s.split(c)\<close> for a separator of one character.\<close>

fun split_on :: "char \<Rightarrow> string \<Rightarrow> string list" where
  "split_on c [] = [[]]"
| "split_on c (x # xs) =
     (if x = c then [] # split_on c xs
      else (case split_on c xs of [] \<Rightarrow> [[x]] | p # ps \<Rightarrow> (x # p) # ps))"

fun join :: "string \<Rightarrow> string list \<Rightarrow> string" where
  "join sep [] = []"
| "join sep [s] = s"
| "join sep (s # t # r) = s @ sep @ join sep (t # r)"

lemma split_on_nonempty [simp]: "split_on c s \<noteq> []"
  by (induction s) (auto split: list.splits)

lemma join_split: "join [c] (split_on c s) = s"
proof (induction s)
  case Nil
  then show ?case by simp
next
  case (Cons x s)
  obtain p ps where "split_on c s = p # ps" by (cases "split_on c s") auto
  with Cons show ?case by (cases ps) auto
qed

lemma split_on_no_sep: "p \<in> set (split_on c s) \<Longrightarrow> c \<notin> set p"
  by (induction s arbitrary: p) (auto split: list.splits if_splits)

lemma trim_no_new: "set (trim s) \<subseteq> set s"
  by (force simp: trim_def dest: set_dropWhileD)

lemma trim_idem [simp]: "trim (trim s) = trim s"
proof -
  define t where "t = dropWhile is_space s"
  define u where "u = rev (dropWhile is_space (rev t))"
  have stable: "dropWhile is_space (dropWhile is_space w) = dropWhile is_space w" for w
    by (induction w) auto
  have "dropWhile is_space u = u"
  proof (cases u)
    case (Cons a r)
    have "t = u @ rev (takeWhile is_space (rev t))"
      by (metis u_def rev_append rev_rev_ident takeWhile_dropWhile_id)
    with Cons have "t = a # r @ rev (takeWhile is_space (rev t))" by simp
    then have "hd t = a" "t \<noteq> []" by (metis list.sel(1), metis list.distinct(1))
    then have "\<not> is_space a" by (metis t_def hd_dropWhile)
    with Cons show ?thesis by simp
  qed simp
  moreover have "rev (dropWhile is_space (rev u)) = u" by (simp add: u_def stable)
  ultimately show ?thesis by (simp add: trim_def flip: t_def u_def)
qed

end
