(* ===== verification/SensitiveData.thy ===== *)
theory SensitiveData
  imports JsValue
begin

text \<open>
  \<open>utils/sensitiveData.js\<close> without \<open>sanitizeText\<close> (theory \<open>Redaction\<close>): what the
  program removes from a payment before it is stored, queued, logged or returned. The
  environment is a map from variable names to strings; \<open>hmac\<close> stands for
  \<open>crypto.createHmac("sha256", secret).update(data).digest("hex")\<close>.
\<close>

type_synonym env = "string \<Rightarrow> string option"

text \<open>\<open>env.NAME\<close> in a condition: set, and not the empty string.\<close>

definition env_set :: "env \<Rightarrow> string \<Rightarrow> bool" where
  "env_set env k = (case env k of Some s \<Rightarrow> s \<noteq> [] | None \<Rightarrow> False)"

definition is_production :: "env \<Rightarrow> bool" where
  "is_production env = (env ''NODE_ENV'' = Some ''production'')"

section \<open>Card numbers\<close>

definition DEV_CARD_FINGERPRINT_SECRET :: string where
  "DEV_CARD_FINGERPRINT_SECRET = ''dev-card-fingerprint-secret''"

definition getCardFingerprintSecret :: "env \<Rightarrow> string result" where
  "getCardFingerprintSecret env =
     (if env_set env ''CARD_FINGERPRINT_SECRET'' then Inr (the (env ''CARD_FINGERPRINT_SECRET''))
      else if is_production env
      then Inl (Error ''CARD_FINGERPRINT_SECRET must be set when NODE_ENV=production'')
      else Inr DEV_CARD_FINGERPRINT_SECRET)"

definition onlyDigits :: "jsval \<Rightarrow> string result" where
  "onlyDigits v = and_then (to_str (js_or v (JStr []))) (\<lambda>s. Inr (filter is_digit s))"

definition last_chars :: "nat \<Rightarrow> string \<Rightarrow> string" where
  "last_chars n s = drop (length s - n) s"

definition cardLast4 :: "jsval \<Rightarrow> string option result" where
  "cardLast4 cardNumber =
     and_then (onlyDigits cardNumber)
       (\<lambda>digits. Inr (if digits \<noteq> [] then Some (last_chars 4 digits) else None))"

definition cardFingerprint ::
  "(string \<Rightarrow> string \<Rightarrow> string) \<Rightarrow> env \<Rightarrow> jsval \<Rightarrow> string option result" where
  "cardFingerprint hmac env cardNumber =
     and_then (onlyDigits cardNumber)
       (\<lambda>digits. if digits = [] then Inr None
          else and_then (getCardFingerprintSecret env) (\<lambda>secret. Inr (Some (hmac secret digits))))"

section \<open>Removing the sensitive members\<close>

definition sensitive_key :: "string \<Rightarrow> bool" where
  "sensitive_key k = (k \<in> {''pin'', ''cardNumber'', ''card_number''})"

fun removeSensitiveFields :: "jsval \<Rightarrow> jsval" where
  "removeSensitiveFields (JArr xs) = JArr (map removeSensitiveFields xs)"
| "removeSensitiveFields (JObj ps) =
     JObj (assign_all
       (map (\<lambda>(k, v). (k, removeSensitiveFields v)) (filter (\<lambda>(k, v). \<not> sensitive_key k) ps)))"
| "removeSensitiveFields (JDate j t n) = JObj []"
| "removeSensitiveFields v = v"

fun set_field :: "string \<Rightarrow> jsval \<Rightarrow> jsval \<Rightarrow> jsval" where
  "set_field k v (JObj ps) = JObj (assign_prop k v ps)"
| "set_field k v w = w"

fun delete_field :: "string \<Rightarrow> jsval \<Rightarrow> jsval result" where
  "delete_field k JUndef = Inl TypeError"
| "delete_field k JNull = Inl TypeError"
| "delete_field k (JObj ps) = Inr (JObj (delete_prop k ps))"
| "delete_field k v = Inr v"

text \<open>\<open>txn.cardNumber || txn.card_number\<close>\<close>

definition card_number_of :: "jsval \<Rightarrow> jsval result" where
  "card_number_of txn =
     and_then (js_get txn ''cardNumber'') (\<lambda>a.
       if truthy a then Inr a else js_get txn ''card_number'')"

definition set_optional :: "string \<Rightarrow> string \<Rightarrow> string option \<Rightarrow> jsval \<Rightarrow> jsval" where
  "set_optional k1 k2 s v =
     (case s of
        Some t \<Rightarrow> if t \<noteq> [] then set_field k2 (JStr t) (set_field k1 (JStr t) v) else v
      | None \<Rightarrow> v)"

definition sanitizeTransactionForPersistence ::
  "(string \<Rightarrow> string \<Rightarrow> string) \<Rightarrow> env \<Rightarrow> jsval \<Rightarrow> jsval result" where
  "sanitizeTransactionForPersistence hmac env txn =
     (let sanitized = removeSensitiveFields txn in
      and_then (card_number_of txn) (\<lambda>cardNumber.
      and_then (cardLast4 cardNumber) (\<lambda>last4.
      and_then (cardFingerprint hmac env cardNumber) (\<lambda>fingerprint.
      Inr (set_optional ''cardFingerprint'' ''card_fingerprint'' fingerprint
            (set_optional ''cardLast4'' ''card_last4'' last4 sanitized))))))"

definition sanitizePayload ::
  "(string \<Rightarrow> string \<Rightarrow> string) \<Rightarrow> env \<Rightarrow> jsval \<Rightarrow> jsval result" where
  "sanitizePayload hmac env v =
     (if is_object v then sanitizeTransactionForPersistence hmac env v
      else Inr (removeSensitiveFields v))"

definition serializeTransactionResponse :: "jsval \<Rightarrow> jsval result" where
  "serializeTransactionResponse txn =
     and_then (delete_field ''cardFingerprint'' (removeSensitiveFields txn))
       (delete_field ''card_fingerprint'')"

definition maskSensitiveData :: "jsval \<Rightarrow> jsval result" where
  "maskSensitiveData v =
     (let sanitized = removeSensitiveFields v in
      and_then (if truthy v then card_number_of v else Inr v) (\<lambda>cardNumber.
      and_then (cardLast4 cardNumber) (\<lambda>last4.
      and_then (delete_field ''cardFingerprint'' sanitized) (\<lambda>s1.
      and_then (delete_field ''card_fingerprint'' s1) (\<lambda>s2.
      Inr (case last4 of
             Some t \<Rightarrow> if t \<noteq> []
               then set_field ''cardNumber'' (JStr (''****'' @ t)) (set_field ''cardLast4'' (JStr t) s2)
               else s2
           | None \<Rightarrow> s2))))))"

section \<open>Values free of sensitive members\<close>

fun clean :: "jsval \<Rightarrow> bool" where
  "clean (JArr xs) = list_all clean xs"
| "clean (JObj ps) = list_all (\<lambda>(k, v). \<not> sensitive_key k \<and> clean v) ps"
| "clean _ = True"

text \<open>The order of properties every object has in the engine, at every depth.\<close>

fun well_ordered :: "jsval \<Rightarrow> bool" where
  "well_ordered (JArr xs) = list_all well_ordered xs"
| "well_ordered (JObj ps) =
     (ordered_props ps \<and> ''__proto__'' \<notin> keys ps \<and> list_all (\<lambda>(k, v). well_ordered v) ps)"
| "well_ordered (JDate _ _ _) = False"
| "well_ordered _ = True"

lemma clean_JObj [sanitized_intro]:
  "(\<And>k v. (k, v) \<in> set ps \<Longrightarrow> \<not> sensitive_key k \<and> clean v) \<Longrightarrow> clean (JObj ps)"
  by (auto simp: list_all_iff)

lemma clean_set_field [sanitized_intro]:
  assumes "clean w" and "clean v" and "\<not> sensitive_key k"
  shows "clean (set_field k v w)"
proof (cases w)
  case (JObj ps)
  then show ?thesis
    using assms set_assign_prop [of k v ps] by (auto simp: list_all_iff)
qed (use assms in auto)

lemma clean_delete_field: "delete_field k v = Inr w \<Longrightarrow> clean v \<Longrightarrow> clean w"
  by (cases v) (auto simp: delete_prop_def list_all_iff)

lemma clean_set_optional [sanitized_intro]:
  "clean v \<Longrightarrow> \<not> sensitive_key k1 \<Longrightarrow> \<not> sensitive_key k2 \<Longrightarrow> clean (set_optional k1 k2 s v)"
  by (auto simp: set_optional_def intro!: sanitized_intro split: option.splits)

lemma kept_prop:
  assumes "(k, w) \<in> set (assign_all (map (\<lambda>(k, v). (k, f v)) (filter (\<lambda>(k, v). P k) ps)))"
  obtains v where "(k, v) \<in> set ps" and "P k" and "w = f v"
proof -
  from assms have "(k, w) \<in> set (map (\<lambda>(k, v). (k, f v)) (filter (\<lambda>(k, v). P k) ps))"
    using set_assign_all by blast
  then show thesis by (auto intro: that)
qed

text \<open>Structural induction in the shape the traversals recurse.\<close>

lemma jsval_induct [case_names Arr Obj Other]:
  assumes "\<And>xs. (\<And>x. x \<in> set xs \<Longrightarrow> P x) \<Longrightarrow> P (JArr xs)"
    and "\<And>ps. (\<And>k v. (k, v) \<in> set ps \<Longrightarrow> P v) \<Longrightarrow> P (JObj ps)"
    and "\<And>v. (\<And>xs. v \<noteq> JArr xs) \<Longrightarrow> (\<And>ps. v \<noteq> JObj ps) \<Longrightarrow> P v"
  shows "P v"
proof (induction v)
  case (JArr xs)
  then show ?case by (rule assms(1))
next
  case (JObj ps)
  have "P v" if "(k, v) \<in> set ps" for k v
    using that by (intro JObj) (auto intro: snds.intros)
  then show ?case by (rule assms(2))
qed (rule assms(3); simp)+

lemma clean_removeSensitiveFields: "clean (removeSensitiveFields v)"
proof (induction v rule: jsval_induct)
  case (Obj ps)
  then show ?case by (auto intro!: clean_JObj simp del: clean.simps elim!: kept_prop)
next
  case (Other v)
  then show ?case by (cases v) auto
qed (simp add: list_all_iff)

lemma well_ordered_removeSensitiveFields: "well_ordered (removeSensitiveFields v)"
proof (induction v rule: jsval_induct)
  case (Obj ps)
  then show ?case by (auto simp: list_all_iff ordered_assign_all keys_assign_all elim!: kept_prop)
next
  case (Other v)
  then show ?case by (cases v) auto
qed (simp add: list_all_iff)

text \<open>A clean value is left as it is.\<close>

lemma removeSensitiveFields_clean:
  "clean v \<Longrightarrow> well_ordered v \<Longrightarrow> removeSensitiveFields v = v"
proof (induction v rule: jsval_induct)
  case (Arr xs)
  then show ?case by (simp add: list_all_iff map_idI)
next
  case (Obj ps)
  then have "filter (\<lambda>(k, v). \<not> sensitive_key k) ps = ps"
    by (auto simp: list_all_iff filter_id_conv)
  moreover have "map (\<lambda>(k, v). (k, removeSensitiveFields v)) ps = ps"
    using Obj by (intro map_idI) (fastforce simp: list_all_iff)
  ultimately show ?case using Obj.prems by (simp add: assign_all_ordered)
next
  case (Other v)
  then show ?case by (cases v) auto
qed

lemma removeSensitiveFields_idem:
  "removeSensitiveFields (removeSensitiveFields v) = removeSensitiveFields v"
  by (simp add: removeSensitiveFields_clean clean_removeSensitiveFields well_ordered_removeSensitiveFields)

section \<open>What sanitizing does\<close>

lemma well_ordered_set_field:
  "well_ordered w \<Longrightarrow> well_ordered v \<Longrightarrow> well_ordered (set_field k v w)"
proof (cases w)
  case (JObj ps)
  moreover assume "well_ordered w" "well_ordered v"
  ultimately show ?thesis
    using set_assign_prop [of k v ps]
    by (auto simp: list_all_iff assign_prop_def ordered_define_prop)
qed auto

lemma well_ordered_set_optional:
  "well_ordered v \<Longrightarrow> well_ordered (set_optional k1 k2 s v)"
  by (auto simp: set_optional_def intro!: well_ordered_set_field split: option.splits)

lemma sanitized_clean:
  assumes "sanitizeTransactionForPersistence hmac env txn = Inr safe"
  shows "clean safe" and "well_ordered safe"
  using assms
  by (auto simp: sanitizeTransactionForPersistence_def and_then_Inr_iff sensitive_key_def
      clean_removeSensitiveFields well_ordered_removeSensitiveFields
      intro!: clean_set_optional well_ordered_set_optional)

lemma clean_no_card: "clean v \<Longrightarrow> card_number_of v = Inr w \<Longrightarrow> w = JUndef"
proof -
  assume v: "clean v" and w: "card_number_of v = Inr w"
  have "js_get v k = Inr u \<Longrightarrow> sensitive_key k \<Longrightarrow> u = JUndef" for k u
    using v
    by (cases v) (auto simp: prop_of_def list_all_iff sensitive_key_def
        split: option.splits dest!: map_of_SomeD)
  then show ?thesis
    using w by (auto simp: card_number_of_def and_then_Inr_iff sensitive_key_def split: if_splits)
qed

lemma card_number_of_object: "is_object v \<Longrightarrow> \<exists>w. card_number_of v = Inr w"
  by (cases v) (auto simp: card_number_of_def)

lemma no_card_undefined [simp]:
  "cardLast4 JUndef = Inr None" "cardFingerprint hmac env JUndef = Inr None"
  by (simp_all add: cardLast4_def cardFingerprint_def onlyDigits_def js_or_def)

text \<open>Sanitizing a clean object changes nothing; in particular it cannot fail.\<close>

lemma sanitize_clean:
  assumes "is_object v" and "clean v" and "well_ordered v"
  shows "sanitizeTransactionForPersistence hmac env v = Inr v"
proof -
  obtain w where "card_number_of v = Inr w" using assms(1) card_number_of_object by blast
  with assms(2) have "card_number_of v = Inr JUndef" using clean_no_card by blast
  with assms show ?thesis
    by (simp add: sanitizeTransactionForPersistence_def set_optional_def removeSensitiveFields_clean)
qed

lemma sanitizePayload_clean:
  "clean v \<Longrightarrow> well_ordered v \<Longrightarrow> sanitizePayload hmac env v = Inr v"
  by (simp add: sanitizePayload_def sanitize_clean removeSensitiveFields_clean)

text \<open>On an object: which members the sanitized object has.\<close>

definition derived_key :: "string \<Rightarrow> bool" where
  "derived_key k = (k \<in> {''cardLast4'', ''card_last4'', ''cardFingerprint'', ''card_fingerprint''})"

lemma set_optional_JObj:
  "\<exists>qs. set_optional k1 k2 s (JObj ps) = JObj qs \<and>
     (\<forall>k. k \<noteq> k1 \<and> k \<noteq> k2 \<longrightarrow> map_of qs k = map_of ps k)"
  by (auto simp: set_optional_def split: option.splits)

lemma map_of_removed:
  assumes "distinct (map fst ps)"
  shows "map_of (assign_all (map (\<lambda>(k, v). (k, f v)) (filter (\<lambda>(k, v). P k) ps))) k =
    (if k = ''__proto__'' \<or> \<not> P k then None else map_option f (map_of ps k))"
proof -
  have "distinct (map fst (map (\<lambda>(k, v). (k, f v)) (filter (\<lambda>(k, v). P k) ps)))"
    using assms by (simp only: fst_map_value distinct_fst_filter)
  then show ?thesis by (auto simp only: map_of_assign_all map_of_map_value map_of_filter_key split: if_splits)
qed

lemma sanitize_JObj:
  assumes "sanitizeTransactionForPersistence hmac env (JObj ps) = Inr safe"
    and "distinct (map fst ps)"
  obtains qs where "safe = JObj qs"
    and "\<And>k. \<not> derived_key k \<Longrightarrow> map_of qs k =
      (if k = ''__proto__'' \<or> sensitive_key k then None
       else map_option removeSensitiveFields (map_of ps k))"
proof -
  let ?rs = "assign_all (map (\<lambda>(k, v). (k, removeSensitiveFields v)) (filter (\<lambda>(k, v). \<not> sensitive_key k) ps))"
  from assms(1) obtain l f where safe: "safe = set_optional ''cardFingerprint'' ''card_fingerprint'' f
      (set_optional ''cardLast4'' ''card_last4'' l (JObj ?rs))"
    by (auto simp: sanitizeTransactionForPersistence_def and_then_Inr_iff)
  obtain q1 where q1: "set_optional ''cardLast4'' ''card_last4'' l (JObj ?rs) = JObj q1"
    "\<forall>k. k \<noteq> ''cardLast4'' \<and> k \<noteq> ''card_last4'' \<longrightarrow> map_of q1 k = map_of ?rs k"
    using set_optional_JObj by blast
  obtain qs where qs: "set_optional ''cardFingerprint'' ''card_fingerprint'' f (JObj q1) = JObj qs"
    "\<forall>k. k \<noteq> ''cardFingerprint'' \<and> k \<noteq> ''card_fingerprint'' \<longrightarrow> map_of qs k = map_of q1 k"
    using set_optional_JObj by blast
  show thesis
  proof (rule that)
    show "safe = JObj qs" using safe q1 qs by simp
    fix k assume "\<not> derived_key k"
    then have "map_of qs k = map_of ?rs k" using q1(2) qs(2) by (simp add: derived_key_def)
    then show "map_of qs k = (if k = ''__proto__'' \<or> sensitive_key k then None
       else map_option removeSensitiveFields (map_of ps k))"
      using assms(2) by (simp add: map_of_removed)
  qed
qed

text \<open>A member that is not a sensitive one is what it was, sensitive members inside it aside.\<close>

lemma sanitize_prop:
  assumes "sanitizeTransactionForPersistence hmac env (JObj ps) = Inr safe"
    and "distinct (map fst ps)" and "\<not> derived_key k" "\<not> sensitive_key k" "k \<noteq> ''__proto__''"
  shows "js_get safe k = Inr (removeSensitiveFields (prop_of ps k))"
proof -
  obtain qs where "safe = JObj qs" "map_of qs k = map_option removeSensitiveFields (map_of ps k)"
    using assms by (elim sanitize_JObj) auto
  then show ?thesis by (auto simp: prop_of_def split: option.splits)
qed

section \<open>Properties\<close>

definition sample_env :: env where
  "sample_env = (\<lambda>_. None)"

text \<open>C24: Whatever value is sanitized before it is stored or queued, the result has no member
  named \<open>pin\<close>, \<open>cardNumber\<close> or \<open>card_number\<close> at any depth, and sanitizing it once more
  changes nothing.\<close>

theorem sanitized_payload:
  assumes "sanitizePayload hmac env v = Inr w"
  shows "clean w \<and> sanitizePayload hmac env w = Inr w"
proof -
  have "clean w \<and> well_ordered w"
  proof (cases "is_object v")
    case True
    with assms have "sanitizeTransactionForPersistence hmac env v = Inr w" by (simp add: sanitizePayload_def)
    then show ?thesis using sanitized_clean by blast
  next
    case False
    with assms have "w = removeSensitiveFields v" by (simp add: sanitizePayload_def)
    then show ?thesis by (simp add: clean_removeSensitiveFields well_ordered_removeSensitiveFields)
  qed
  then show ?thesis by (simp add: sanitizePayload_clean)
qed

definition sample_payment :: jsval where
  "sample_payment = JObj
     [(''cardNumber'', JStr ''4111 1111 1111 1234''), (''pin'', JStr ''9999''), (''note'', JStr ''x''),
      (''nested'', JArr [JObj [(''pin'', JInt 1), (''ok'', JBool True)]])]"

definition sample_sanitized :: jsval where
  "sample_sanitized = JObj
     [(''note'', JStr ''x''), (''nested'', JArr [JObj [(''ok'', JBool True)]]),
      (''cardLast4'', JStr ''1234''), (''card_last4'', JStr ''1234''),
      (''cardFingerprint'', JStr ''f''), (''card_fingerprint'', JStr ''f'')]"

lemma sample_payment_sanitized:
  "sanitizePayload (\<lambda>secret digits. ''f'') sample_env sample_payment = Inr sample_sanitized"
  by code_simp

theorem sanitized_payload_witness:
  "clean sample_sanitized \<and>
    sanitizePayload (\<lambda>secret digits. ''f'') sample_env sample_sanitized = Inr sample_sanitized"
  by (rule sanitized_payload [OF sample_payment_sanitized])

text \<open>
  The digits of the card number a payment names: of \<open>cardNumber\<close> or, if that is absent or empty,
  of \<open>card_number\<close>.
\<close>

definition named_card :: "props \<Rightarrow> jsval" where
  "named_card ps =
     (if truthy (prop_of ps ''cardNumber'') then prop_of ps ''cardNumber'' else prop_of ps ''card_number'')"

definition digits_named :: "props \<Rightarrow> string" where
  "digits_named ps =
     (if truthy (named_card ps)
      then (case to_str (named_card ps) of Inr s \<Rightarrow> filter is_digit s | Inl e \<Rightarrow> [])
      else [])"

lemma onlyDigits_named:
  assumes "card_number_of (JObj ps) = Inr c" and "onlyDigits c = Inr ds"
  shows "ds = digits_named ps"
proof -
  have "c = named_card ps"
    using assms(1) by (auto simp: card_number_of_def named_card_def split: if_splits)
  then show ?thesis
    using assms(2) by (auto simp: onlyDigits_def digits_named_def js_or_def and_then_Inr_iff split: if_splits)
qed

lemma last_chars_empty [simp]: "last_chars 4 s = [] \<longleftrightarrow> s = []"
  by (cases s) (auto simp: last_chars_def)

text \<open>What a successful run has computed of the digits.\<close>

lemma sanitize_digits:
  assumes "sanitizeTransactionForPersistence hmac env (JObj ps) = Inr safe"
  shows "safe = set_optional ''cardFingerprint'' ''card_fingerprint''
        (if digits_named ps = [] then None
         else Some (hmac (case getCardFingerprintSecret env of Inr k \<Rightarrow> k | Inl e \<Rightarrow> []) (digits_named ps)))
      (set_optional ''cardLast4'' ''card_last4''
        (if digits_named ps = [] then None else Some (last_chars 4 (digits_named ps)))
        (removeSensitiveFields (JObj ps)))"
    and "digits_named ps \<noteq> [] \<Longrightarrow> \<exists>secret. getCardFingerprintSecret env = Inr secret"
proof -
  from assms obtain c l f where c: "card_number_of (JObj ps) = Inr c" and l: "cardLast4 c = Inr l"
    and f: "cardFingerprint hmac env c = Inr f"
    and safe: "safe = set_optional ''cardFingerprint'' ''card_fingerprint'' f
      (set_optional ''cardLast4'' ''card_last4'' l (removeSensitiveFields (JObj ps)))"
    unfolding sanitizeTransactionForPersistence_def Let_def and_then_Inr_iff by blast
  from l obtain ds where ds: "onlyDigits c = Inr ds" by (auto simp: cardLast4_def and_then_Inr_iff)
  note d = onlyDigits_named [OF c ds]
  from f ds d show "digits_named ps \<noteq> [] \<Longrightarrow> \<exists>secret. getCardFingerprintSecret env = Inr secret"
    by (auto simp: cardFingerprint_def and_then_Inr_iff split: if_splits)
  show "safe = set_optional ''cardFingerprint'' ''card_fingerprint''
        (if digits_named ps = [] then None
         else Some (hmac (case getCardFingerprintSecret env of Inr k \<Rightarrow> k | Inl e \<Rightarrow> []) (digits_named ps)))
      (set_optional ''cardLast4'' ''card_last4''
        (if digits_named ps = [] then None else Some (last_chars 4 (digits_named ps)))
        (removeSensitiveFields (JObj ps)))"
    using safe l f ds d
    by (auto simp: cardLast4_def cardFingerprint_def and_then_Inr_iff split: if_splits
        simp del: removeSensitiveFields.simps)
qed

lemma sanitized_members:
  assumes "sanitizeTransactionForPersistence hmac env (JObj ps) = Inr safe" and "distinct (map fst ps)"
    and "\<And>secret digits. hmac secret digits \<noteq> []"
  shows "\<exists>qs. safe = JObj qs \<and> (\<forall>k. map_of qs k =
    (if k \<in> {''cardLast4'', ''card_last4''} \<and> digits_named ps \<noteq> []
     then Some (JStr (last_chars 4 (digits_named ps)))
     else if k \<in> {''cardFingerprint'', ''card_fingerprint''} \<and> digits_named ps \<noteq> []
     then (case getCardFingerprintSecret env of
             Inr secret \<Rightarrow> Some (JStr (hmac secret (digits_named ps))) | Inl e \<Rightarrow> None)
     else if k = ''__proto__'' \<or> sensitive_key k then None
     else map_option removeSensitiveFields (map_of ps k)))"
proof -
  let ?rs = "assign_all (map (\<lambda>(k, v). (k, removeSensitiveFields v)) (filter (\<lambda>(k, v). \<not> sensitive_key k) ps))"
  have rest: "map_of ?rs k = (if k = ''__proto__'' \<or> \<not> \<not> sensitive_key k then None
      else map_option removeSensitiveFields (map_of ps k))" for k
    by (rule map_of_removed [OF assms(2)])
  show ?thesis
  proof (cases "digits_named ps = []")
    case True
    then have "safe = JObj ?rs" using sanitize_digits(1) [OF assms(1)] by (simp add: set_optional_def)
    with rest True show ?thesis by auto
  next
    case False
    then obtain secret where secret: "getCardFingerprintSecret env = Inr secret"
      using sanitize_digits(2) [OF assms(1)] by blast
    have "safe = JObj (assign_prop ''card_fingerprint'' (JStr (hmac secret (digits_named ps)))
        (assign_prop ''cardFingerprint'' (JStr (hmac secret (digits_named ps)))
        (assign_prop ''card_last4'' (JStr (last_chars 4 (digits_named ps)))
        (assign_prop ''cardLast4'' (JStr (last_chars 4 (digits_named ps))) ?rs))))"
      using sanitize_digits(1) [OF assms(1)] False secret assms(3) by (simp add: set_optional_def)
    then show ?thesis using False secret rest by (auto simp: sensitive_key_def)
  qed
qed

lemma sanitize_fails:
  assumes "sanitizeTransactionForPersistence hmac env (JObj ps) = Inl e"
  shows "(truthy (named_card ps) \<and> to_str (named_card ps) = Inl e) \<or>
    (digits_named ps \<noteq> [] \<and> getCardFingerprintSecret env = Inl e)"
proof -
  have c: "card_number_of (JObj ps) = Inr (named_card ps)"
    by (simp add: card_number_of_def named_card_def)
  show ?thesis
  proof (cases "onlyDigits (named_card ps)")
    case (Inl e')
    then show ?thesis
      using assms c
      by (auto simp: sanitizeTransactionForPersistence_def Let_def cardLast4_def onlyDigits_def js_or_def
          and_then_Inl_iff split: if_splits simp del: removeSensitiveFields.simps)
  next
    case (Inr ds)
    then show ?thesis
      using assms c onlyDigits_named [OF c Inr]
      by (auto simp: sanitizeTransactionForPersistence_def Let_def cardLast4_def cardFingerprint_def
          and_then_Inl_iff split: if_splits simp del: removeSensitiveFields.simps)
  qed
qed

text \<open>C25: What sanitizing keeps of a card. Of the card number a payment names, in \<open>cardNumber\<close> or
  else in \<open>card_number\<close> and in any form that has digits, exactly the last four digits and the
  keyed hash of all digits are kept: the four members made of them (\<open>cardLast4\<close> and
  \<open>cardFingerprint\<close> in both spellings) hold these and nothing else, whatever the payment had
  there. Every other member is gone if it is sensitive and otherwise what it was, with its own
  sensitive members removed; of a payment that names no card this is so for the four too.
  It fails only if the card number cannot be made a string or its hash has no secret.\<close>

theorem sanitized_card:
  assumes "distinct (map fst ps)" and "\<And>secret digits. hmac secret digits \<noteq> []"
  shows "case sanitizeTransactionForPersistence hmac env (JObj ps) of
      Inr safe \<Rightarrow> \<exists>qs. safe = JObj qs \<and> (\<forall>k. map_of qs k =
        (if k \<in> {''cardLast4'', ''card_last4''} \<and> digits_named ps \<noteq> []
         then Some (JStr (last_chars 4 (digits_named ps)))
         else if k \<in> {''cardFingerprint'', ''card_fingerprint''} \<and> digits_named ps \<noteq> []
         then (case getCardFingerprintSecret env of
                 Inr secret \<Rightarrow> Some (JStr (hmac secret (digits_named ps))) | Inl e \<Rightarrow> None)
         else if k = ''__proto__'' \<or> sensitive_key k then None
         else map_option removeSensitiveFields (map_of ps k)))
    | Inl e \<Rightarrow> (truthy (named_card ps) \<and> to_str (named_card ps) = Inl e) \<or>
        (digits_named ps \<noteq> [] \<and> getCardFingerprintSecret env = Inl e)"
proof (cases "sanitizeTransactionForPersistence hmac env (JObj ps)")
  case (Inr safe)
  then show ?thesis using sanitized_members [OF Inr assms] by simp
next
  case (Inl e)
  then show ?thesis using sanitize_fails by simp
qed

theorem sanitized_card_witness:
  "\<exists>qs. sanitizeTransactionForPersistence (\<lambda>secret digits. CHR ''h'' # digits) sample_env
      (JObj [(''card_number'', JStr ''4111-1234''), (''card_last4'', JStr ''4111-1234''), (''note'', JStr ''x'')]) =
        Inr (JObj qs) \<and>
    map_of qs ''cardLast4'' = Some (JStr ''1234'') \<and> map_of qs ''card_last4'' = Some (JStr ''1234'') \<and>
    map_of qs ''card_number'' = None \<and> map_of qs ''note'' = Some (JStr ''x'')"
proof -
  let ?ps = "[(''card_number'', JStr ''4111-1234''), (''card_last4'', JStr ''4111-1234''), (''note'', JStr ''x'')]"
  let ?hmac = "\<lambda>secret digits. CHR ''h'' # digits :: string"
  have "case sanitizeTransactionForPersistence ?hmac sample_env (JObj ?ps) of Inr _ \<Rightarrow> True | Inl _ \<Rightarrow> False"
    by code_simp
  then obtain safe where run: "sanitizeTransactionForPersistence ?hmac sample_env (JObj ?ps) = Inr safe"
    by (auto split: sum.splits)
  have digits: "digits_named ?ps = ''41111234''" by code_simp
  have last4: "last_chars 4 ''41111234'' = ''1234''" by (simp add: last_chars_def)
  have "distinct (map fst ?ps)" by simp
  from sanitized_card [where hmac = ?hmac and env = sample_env, OF this] run
  obtain qs where qs: "safe = JObj qs"
    "\<And>k. k \<in> {''cardLast4'', ''card_last4''} \<Longrightarrow> map_of qs k = Some (JStr ''1234'')"
    "\<And>k. k \<notin> {''cardLast4'', ''card_last4'', ''cardFingerprint'', ''card_fingerprint''} \<Longrightarrow> map_of qs k =
      (if k = ''__proto__'' \<or> sensitive_key k then None else map_option removeSensitiveFields (map_of ?ps k))"
    by (auto simp: digits last4)
  then show ?thesis using run by (intro exI [of _ qs]) (simp add: sensitive_key_def)
qed

end
