(* ===== verification/Redaction.thy ===== *)
theory Redaction
  imports SensitiveData
begin

text \<open>
  \<open>sanitizeText\<close> of \<open>utils/sensitiveData.js\<close>: the redaction of error messages. Its
  seven regular expressions are sequences of greedily repeated character classes and word
  boundaries, so a matcher for that fragment of the JavaScript dialect is enough: it tries
  the repetitions from the longest to the shortest, as the engine backtracks. The lemmas
  characterise the pattern of card numbers by what it matches (\<open>card_match\<close>) and show what the
  pass that replaces it leaves of a text, and where the seven passes together fall short of it.
\<close>

section \<open>Regular expressions\<close>

datatype rx =
    Rep "char \<Rightarrow> bool" nat "nat option"
  | Boundary

definition is_word :: "char \<Rightarrow> bool" where
  "is_word c =
     (let n = of_char c :: nat in
      48 \<le> n \<and> n \<le> 57 \<or> 65 \<le> n \<and> n \<le> 90 \<or> 97 \<le> n \<and> n \<le> 122 \<or> n = 95)"

definition lower :: "char \<Rightarrow> char" where
  "lower c = (let n = of_char c :: nat in if 65 \<le> n \<and> n \<le> 90 then char_of (n + 32) else c)"

text \<open>\<open>\b\<close> between the character before and the rest of the text.\<close>

definition at_boundary :: "char option \<Rightarrow> string \<Rightarrow> bool" where
  "at_boundary prev s =
     ((case prev of Some c \<Rightarrow> is_word c | None \<Rightarrow> False) \<noteq>
      (case s of c # _ \<Rightarrow> is_word c | [] \<Rightarrow> False))"

text \<open>The character before the text once \<open>n\<close> characters are consumed.\<close>

definition prev_after :: "char option \<Rightarrow> string \<Rightarrow> nat \<Rightarrow> char option" where
  "prev_after prev s n = (if n = 0 then prev else Some (s ! (n - 1)))"

definition most :: "(char \<Rightarrow> bool) \<Rightarrow> nat option \<Rightarrow> string \<Rightarrow> nat" where
  "most P hi s =
     (let k = length (takeWhile P s) in case hi of None \<Rightarrow> k | Some m \<Rightarrow> min m k)"

fun first_some :: "'a option list \<Rightarrow> 'a option" where
  "first_some [] = None"
| "first_some (Some a # r) = Some a"
| "first_some (None # r) = first_some r"

text \<open>The length of the match at the start of the text, if there is one.\<close>

fun rx_match :: "rx list \<Rightarrow> char option \<Rightarrow> string \<Rightarrow> nat option" where
  "rx_match [] prev s = Some 0"
| "rx_match (Boundary # r) prev s = (if at_boundary prev s then rx_match r prev s else None)"
| "rx_match (Rep P lo hi # r) prev s =
     first_some (map (\<lambda>n. map_option ((+) n) (rx_match r (prev_after prev s n) (drop n s)))
       (rev [lo ..< Suc (most P hi s)]))"

text \<open>The attempts of a repetition one by one, which is how it is evaluated.\<close>

definition rx_attempts :: "rx list \<Rightarrow> char option \<Rightarrow> string \<Rightarrow> nat \<Rightarrow> nat \<Rightarrow> nat option" where
  "rx_attempts r prev s lo n =
     first_some (map (\<lambda>n. map_option ((+) n) (rx_match r (prev_after prev s n) (drop n s)))
       (rev [lo ..< n]))"

lemma rx_attempts_code [code]:
  "rx_attempts r prev s lo n =
     (if n \<le> lo then None
      else case rx_match r (prev_after prev s (n - 1)) (drop (n - 1) s) of
        Some m \<Rightarrow> Some (n - 1 + m)
      | None \<Rightarrow> rx_attempts r prev s lo (n - 1))"
  by (cases n) (auto simp: rx_attempts_def split: option.splits)

lemma rx_match_code [code]:
  "rx_match [] prev s = Some 0"
  "rx_match (Boundary # r) prev s = (if at_boundary prev s then rx_match r prev s else None)"
  "rx_match (Rep P lo hi # r) prev s = rx_attempts r prev s lo (Suc (most P hi s))"
  by (simp_all add: rx_attempts_def)

text \<open>\<open>s.replace(/.../g, rep)\<close>\<close>

function rx_replace :: "rx list \<Rightarrow> string \<Rightarrow> char option \<Rightarrow> string \<Rightarrow> string" where
  "rx_replace r rep prev [] = (if rx_match r prev [] = None then [] else rep)"
| "rx_replace r rep prev (c # s) =
     (case rx_match r prev (c # s) of
        None \<Rightarrow> c # rx_replace r rep (Some c) s
      | Some n \<Rightarrow>
          if n = 0 then rep @ c # rx_replace r rep (Some c) s
          else rep @ rx_replace r rep (prev_after prev (c # s) n) (drop n (c # s)))"
  by pat_completeness auto
termination
  by (relation "measure (\<lambda>(r, rep, prev, s). length s)") auto

section \<open>The patterns of the code\<close>

definition one :: "(char \<Rightarrow> bool) \<Rightarrow> rx" where
  "one P = Rep P 1 (Some 1)"

text \<open>A literal under the flag \<open>i\<close>.\<close>

definition word_ci :: "string \<Rightarrow> rx list" where
  "word_ci w = map (\<lambda>c. one (\<lambda>d. lower d = lower c)) w"

definition is_quote :: "char \<Rightarrow> bool" where
  "is_quote c = ((of_char c :: nat) \<in> {34, 39})"

text \<open>\<open>["']?\<close>, \<open>\s*\<close>\<close>

definition opt_quote :: rx where
  "opt_quote = Rep is_quote 0 (Some 1)"

definition spaces :: rx where
  "spaces = Rep is_space 0 None"

text \<open>\<open>[^"',}\s]+\<close>\<close>

definition bare_value :: rx where
  "bare_value =
     Rep (\<lambda>c. \<not> is_quote c \<and> c \<noteq> CHR '','' \<and> c \<noteq> CHR ''}'' \<and> \<not> is_space c) 1 None"

definition card_digits :: "rx list" where
  "card_digits = [Boundary, Rep is_digit 12 (Some 19), Boundary]"

definition json_member :: "string \<Rightarrow> rx list" where
  "json_member w =
     opt_quote # word_ci w @
     [opt_quote, spaces, one (\<lambda>c. c = CHR '':''), spaces, opt_quote, bare_value, opt_quote]"

definition assignment :: "string \<Rightarrow> rx list" where
  "assignment w =
     Boundary # word_ci w @
     [spaces, one (\<lambda>c. c = CHR '':'' \<or> c = CHR ''=''), spaces, Rep (\<lambda>c. \<not> is_space c) 1 None]"

definition replace_all :: "rx list \<Rightarrow> string \<Rightarrow> string \<Rightarrow> string" where
  "replace_all r rep s = rx_replace r rep None s"

definition redact :: "string \<Rightarrow> string" where
  "redact s =
     (let s = replace_all card_digits ''[REDACTED_CARD]'' s;
          s = replace_all (json_member ''pin'') ''[REDACTED_PIN]'' s;
          s = replace_all (json_member ''cardNumber'') ''[REDACTED_CARD]'' s;
          s = replace_all (json_member ''card_number'') ''[REDACTED_CARD]'' s;
          s = replace_all (assignment ''pin'') ''[REDACTED_PIN]'' s;
          s = replace_all (assignment ''cardNumber'') ''[REDACTED_CARD]'' s
      in replace_all (assignment ''card_number'') ''[REDACTED_CARD]'' s)"

definition sanitizeText :: "jsval \<Rightarrow> string result" where
  "sanitizeText v = (if nullish v then Inr [] else and_then (to_str v) (\<lambda>s. Inr (redact s)))"

section \<open>What the pattern of card numbers matches\<close>

definition word_before :: "char option \<Rightarrow> bool" where
  "word_before prev = (case prev of Some c \<Rightarrow> is_word c | None \<Rightarrow> False)"

definition word_next :: "string \<Rightarrow> bool" where
  "word_next s = (case s of c # _ \<Rightarrow> is_word c | [] \<Rightarrow> False)"

text \<open>A run of 12 to 19 digits, as long as it can be, that no word goes on with on either side.\<close>

definition card_at :: "char option \<Rightarrow> string \<Rightarrow> bool" where
  "card_at prev s =
     (let k = length (takeWhile is_digit s) in
      \<not> word_before prev \<and> 12 \<le> k \<and> k \<le> 19 \<and> \<not> word_next (drop k s))"

lemma at_boundary_iff: "at_boundary prev s \<longleftrightarrow> word_before prev \<noteq> word_next s"
  by (simp add: at_boundary_def word_before_def word_next_def)

lemma digit_is_word: "is_digit c \<Longrightarrow> is_word c"
  by (simp add: is_digit_def is_word_def)

lemma first_some_cases:
  "first_some xs = Some a \<Longrightarrow> Some a \<in> set xs"
  "first_some xs = None \<longleftrightarrow> set xs \<subseteq> {None}"
  by (induction xs rule: first_some.induct) auto

lemma word_next_inside:
  assumes "n < length (takeWhile is_digit s)"
  shows "word_next (drop n s)"
proof -
  have "n < length s" using assms length_takeWhile_le order.strict_trans2 by blast
  moreover have "is_digit (s ! n)" using assms nth_mem takeWhile_nth by (metis set_takeWhileD)
  ultimately show ?thesis by (simp add: word_next_def digit_is_word Cons_nth_drop_Suc [symmetric])
qed

lemma word_before_inside:
  assumes "0 < n" and "n \<le> length (takeWhile is_digit s)"
  shows "word_before (prev_after prev s n)"
proof -
  have "n - 1 < length (takeWhile is_digit s)" using assms by simp
  then have "is_digit (s ! (n - 1))" using nth_mem takeWhile_nth by (metis set_takeWhileD)
  then show ?thesis using assms(1) by (simp add: prev_after_def word_before_def digit_is_word)
qed

lemma card_match:
  "rx_match card_digits prev s = (if card_at prev s then Some (length (takeWhile is_digit s)) else None)"
proof -
  define k where "k = length (takeWhile is_digit s)"
  let ?tries = "map (\<lambda>n. map_option ((+) n) (rx_match [Boundary] (prev_after prev s n) (drop n s)))
       (rev [12 ..< Suc (min 19 k)])"
  have attempt: "rx_match [Boundary] (prev_after prev s n) (drop n s) = (if n = k \<and> \<not> word_next (drop k s) then Some 0 else None)"
    if "12 \<le> n" "n \<le> k" for n
  proof -
    have before: "word_before (prev_after prev s n)"
      using that by (intro word_before_inside) (simp_all add: k_def)
    show ?thesis
    proof (cases "n = k")
      case False
      with that have "word_next (drop n s)" by (intro word_next_inside) (simp add: k_def)
      with False before show ?thesis by (simp add: at_boundary_iff)
    qed (use before in \<open>simp add: at_boundary_iff\<close>)
  qed
  have digits: "rx_match [Rep is_digit 12 (Some 19), Boundary] prev s =
      (if 12 \<le> k \<and> k \<le> 19 \<and> \<not> word_next (drop k s) then Some k else None)"
  proof (cases "12 \<le> k \<and> k \<le> 19 \<and> \<not> word_next (drop k s)")
    case True
    then have "min 19 k = k" and "12 \<le> k" by simp_all
    then have "rev [12 ..< Suc (min 19 k)] = k # rev [12 ..< k]" by (simp only: upt_Suc if_True rev.simps rev_append append.simps)
    moreover have "map_option ((+) k) (rx_match [Boundary] (prev_after prev s k) (drop k s)) = Some k"
      using attempt [of k] True by simp
    ultimately have "first_some ?tries = Some k" by (simp del: rx_match.simps)
    then show ?thesis using True by (simp add: most_def k_def)
  next
    case False
    have "map_option ((+) n) (rx_match [Boundary] (prev_after prev s n) (drop n s)) = None"
      if "n \<in> {12 ..< Suc (min 19 k)}" for n
      using attempt [of n] that False by (auto simp: less_Suc_eq_le simp del: rx_match.simps)
    then have "first_some ?tries = None" unfolding first_some_cases(2) by auto
    then show ?thesis using False by (simp add: most_def k_def)
  qed
  have start: "word_next s" if "12 \<le> k"
    using that word_next_inside [of 0 s] unfolding k_def by (simp only: drop_0)
  show ?thesis
    using digits start by (auto simp: card_digits_def at_boundary_iff card_at_def Let_def k_def)
qed

section \<open>What is left after the card numbers are replaced\<close>

fun has_card :: "char option \<Rightarrow> string \<Rightarrow> bool" where
  "has_card prev [] = False"
| "has_card prev (c # s) = (card_at prev (c # s) \<or> has_card (Some c) s)"

declare rx_replace.simps [simp del]

abbreviation hide_cards :: "char option \<Rightarrow> string \<Rightarrow> string" where
  "hide_cards \<equiv> rx_replace card_digits ''[REDACTED_CARD]''"

lemma hide_cards_simps [simp]:
  "hide_cards prev [] = []"
  "\<not> card_at prev (c # s) \<Longrightarrow> hide_cards prev (c # s) = c # hide_cards (Some c) s"
proof -
  have "\<not> card_at prev []" by (simp add: card_at_def)
  then show "hide_cards prev [] = []" using card_match [of prev "[]"] by (simp only: rx_replace.simps if_False if_True simp_thms)
next
  assume "\<not> card_at prev (c # s)"
  then show "hide_cards prev (c # s) = c # hide_cards (Some c) s"
    using card_match [of prev "c # s"] by (simp only: rx_replace.simps if_False option.case)
qed

lemma hide_cards_at:
  assumes "card_at prev s"
  shows "hide_cards prev s = ''[REDACTED_CARD]'' @
    hide_cards (prev_after prev s (length (takeWhile is_digit s))) (drop (length (takeWhile is_digit s)) s)"
proof -
  have "0 < length (takeWhile is_digit s)" using assms by (auto simp: card_at_def Let_def)
  moreover obtain c r where "s = c # r" using assms by (cases s) (auto simp: card_at_def Let_def)
  ultimately show ?thesis using assms card_match [of prev s] by (simp add: rx_replace.simps del: takeWhile.simps)
qed

text \<open>Inside a word nothing is replaced, so what follows a kept character looks as before.\<close>

lemma hide_cards_word:
  assumes "word_before prev"
  shows "takeWhile is_digit (hide_cards prev s) = takeWhile is_digit s"
    and "word_next (drop (length (takeWhile is_digit s)) (hide_cards prev s)) =
      word_next (drop (length (takeWhile is_digit s)) s)"
proof -
  have "takeWhile is_digit (hide_cards prev s) = takeWhile is_digit s \<and>
      word_next (drop (length (takeWhile is_digit s)) (hide_cards prev s)) =
      word_next (drop (length (takeWhile is_digit s)) s)"
    using assms
  proof (induction s arbitrary: prev)
    case (Cons c s)
    then have "\<not> card_at prev (c # s)" by (simp add: card_at_def Let_def)
    then have "hide_cards prev (c # s) = c # hide_cards (Some c) s" by (rule hide_cards_simps)
    moreover have "takeWhile is_digit (hide_cards (Some c) s) = takeWhile is_digit s \<and>
        word_next (drop (length (takeWhile is_digit s)) (hide_cards (Some c) s)) =
        word_next (drop (length (takeWhile is_digit s)) s)" if "is_digit c"
      using digit_is_word [OF that] by (intro Cons.IH) (simp add: word_before_def)
    ultimately show ?case by (auto simp: word_next_def)
  qed simp
  then show "takeWhile is_digit (hide_cards prev s) = takeWhile is_digit s"
    "word_next (drop (length (takeWhile is_digit s)) (hide_cards prev s)) =
      word_next (drop (length (takeWhile is_digit s)) s)" by blast+
qed

lemma card_at_kept:
  assumes "\<not> card_at prev (c # s)"
  shows "\<not> card_at prev (c # hide_cards (Some c) s)"
proof (cases "is_digit c")
  case True
  then have "word_before (Some c)" by (simp add: word_before_def digit_is_word)
  with hide_cards_word [OF this, of s] True assms show ?thesis by (simp add: card_at_def)
next
  case False
  then show ?thesis by (simp add: card_at_def)
qed

lemma has_card_text:
  "list_all (\<lambda>c. \<not> is_digit c) t \<Longrightarrow> t \<noteq> [] \<Longrightarrow>
     has_card prev (t @ s) = has_card (Some (last t)) s"
proof (induction t arbitrary: prev)
  case (Cons c t)
  then show ?case by (cases t) (auto simp: card_at_def Let_def)
qed simp

lemma no_card_left:
  "\<not> has_card prev (hide_cards prev s) \<and> (\<not> word_next s \<longrightarrow> \<not> has_card q (hide_cards prev s))"
proof (induction "length s" arbitrary: s prev q rule: less_induct)
  case less
  show ?case
  proof (cases s)
    case Nil
    then show ?thesis by simp
  next
    case (Cons c r)
    show ?thesis
    proof (cases "card_at prev s")
      case True
      define k where "k = length (takeWhile is_digit s)"
      have k: "0 < k" "\<not> word_next (drop k s)" using True by (auto simp: card_at_def k_def Let_def)
      have split: "hide_cards prev s = ''[REDACTED_CARD]'' @ hide_cards (prev_after prev s k) (drop k s)"
        using hide_cards_at [OF True] by (simp add: k_def)
      have "length (drop k s) < length s" using k(1) Cons by simp
      from less [OF this] k(2) have "\<not> has_card p (hide_cards (prev_after prev s k) (drop k s))" for p by blast
      moreover have "list_all (\<lambda>c. \<not> is_digit c) ''[REDACTED_CARD]''" by (simp add: is_digit_def)
      ultimately show ?thesis
        unfolding split using has_card_text [of "''[REDACTED_CARD]''"] by (metis list.distinct(1))
    next
      case False
      then have kept: "hide_cards prev s = c # hide_cards (Some c) r" unfolding Cons by (rule hide_cards_simps)
      have rest: "\<not> has_card (Some c) (hide_cards (Some c) r)" using less [of r] Cons by simp
      have "\<not> card_at prev (c # hide_cards (Some c) r)" using card_at_kept False Cons by blast
      moreover have "\<not> card_at q (c # hide_cards (Some c) r)" if "\<not> word_next s"
        using that Cons digit_is_word by (auto simp: word_next_def card_at_def)
      ultimately show ?thesis using rest by (simp add: kept)
    qed
  qed
qed

text \<open>
  \<open>has_card\<close> says what it should: some run of 12 to 19 digits stands in the text with no
  character of a word on either side.
\<close>

lemma card_at_iff:
  "card_at prev s \<longleftrightarrow> \<not> word_before prev \<and>
     (\<exists>d b. s = d @ b \<and> list_all is_digit d \<and> 12 \<le> length d \<and> length d \<le> 19 \<and> \<not> word_next b)"
    (is "_ \<longleftrightarrow> _ \<and> ?bounded")
proof
  assume "card_at prev s"
  then have "\<not> word_before prev" and "12 \<le> length (takeWhile is_digit s)"
    and "length (takeWhile is_digit s) \<le> 19" and "\<not> word_next (dropWhile is_digit s)"
    by (simp_all add: card_at_def Let_def dropWhile_eq_drop)
  moreover have "list_all is_digit (takeWhile is_digit s)"
    by (auto simp: list_all_iff dest: set_takeWhileD)
  ultimately show "\<not> word_before prev \<and> ?bounded"
    by (metis takeWhile_dropWhile_id)
next
  assume "\<not> word_before prev \<and> ?bounded"
  then obtain d b where d: "\<not> word_before prev" "s = d @ b" "list_all is_digit d" "12 \<le> length d"
      "length d \<le> 19" "\<not> word_next b" by blast
  have "takeWhile is_digit b = []" using d(6) digit_is_word by (cases b) (auto simp: word_next_def)
  then have "takeWhile is_digit s = d"
    using d(2,3) takeWhile_append2 [of d is_digit b] by (simp add: list_all_iff)
  then show "card_at prev s" using d by (simp add: card_at_def)
qed

lemma has_card_iff:
  "has_card prev s \<longleftrightarrow> (\<exists>a b. s = a @ b \<and> card_at (prev_after prev a (length a)) b)"
proof (induction s arbitrary: prev)
  case Nil
  then show ?case by (simp add: card_at_def)
next
  case (Cons c s)
  have after: "prev_after prev (c # a) (length (c # a)) = prev_after (Some c) a (length a)" for a
    by (cases a rule: rev_cases) (simp_all add: prev_after_def)
  show ?case
  proof
    assume "has_card prev (c # s)"
    then consider "card_at prev (c # s)" | "has_card (Some c) s" by auto
    then show "\<exists>a b. c # s = a @ b \<and> card_at (prev_after prev a (length a)) b"
    proof cases
      case 1
      then show ?thesis by (intro exI [of _ "[]"] exI [of _ "c # s"]) (simp add: prev_after_def)
    next
      case 2
      then obtain a b where "s = a @ b" "card_at (prev_after (Some c) a (length a)) b"
        using Cons.IH by blast
      then show ?thesis using after [of a] by (intro exI [of _ "c # a"] exI [of _ b]) simp
    qed
  next
    assume "\<exists>a b. c # s = a @ b \<and> card_at (prev_after prev a (length a)) b"
    then obtain a b where ab: "c # s = a @ b" "card_at (prev_after prev a (length a)) b" by blast
    show "has_card prev (c # s)"
    proof (cases a)
      case Nil
      with ab show ?thesis by (auto simp: prev_after_def)
    next
      case (Cons d r)
      with ab after [of r] have "s = r @ b" "card_at (prev_after (Some c) r (length r)) b" by simp_all
      then show ?thesis using Cons.IH [of "Some c"] by auto
    qed
  qed
qed

lemma no_card_unchanged: "\<not> has_card prev s \<Longrightarrow> hide_cards prev s = s"
  by (induction s arbitrary: prev) simp_all

lemma redact_pin: "redact ''123456789012pin:5'' = ''123456789012[REDACTED_PIN]''"
  by code_simp

lemma has_card_after: "has_card None ''123456789012[REDACTED_PIN]''"
  by (simp add: card_at_def Let_def is_digit_def word_before_def word_next_def is_word_def)

section \<open>Properties\<close>

text \<open>C34: The first pass of \<open>sanitizeText\<close> leaves no card number in any text: afterwards no run
  of 12 to 19 digits stands between word boundaries, and a text changes exactly when one stood
  there. The seven passes together do not keep this: a later pass that replaces what a digit run
  was glued to leaves the run standing alone, and nothing looks for card numbers again.\<close>

theorem card_redaction:
  "\<not> has_card None (replace_all card_digits ''[REDACTED_CARD]'' s)
   \<and> (replace_all card_digits ''[REDACTED_CARD]'' s \<noteq> s \<longleftrightarrow> has_card None s)
   \<and> redact ''123456789012pin:5'' = ''123456789012[REDACTED_PIN]''
   \<and> has_card None (redact ''123456789012pin:5'')"
proof -
  have "\<not> has_card None (replace_all card_digits ''[REDACTED_CARD]'' s)"
    using no_card_left [of None s] by (simp add: replace_all_def)
  moreover from this have "replace_all card_digits ''[REDACTED_CARD]'' s \<noteq> s \<longleftrightarrow> has_card None s"
    using no_card_unchanged [of None s] by (auto simp: replace_all_def)
  moreover have leak: "redact ''123456789012pin:5'' = ''123456789012[REDACTED_PIN]''" by (simp only: redact_pin)
  moreover have "has_card None ''123456789012[REDACTED_PIN]''" by (rule has_card_after)
  ultimately show ?thesis by (simp only: leak) simp
qed

end
