(* ===== verification/JsonData.thy ===== *)
theory JsonData
  imports SensitiveData
begin

text \<open>
  What survives \<open>JSON.stringify\<close> and reading the text back: members that are \<open>undefined\<close>
  are dropped, in arrays they become \<open>null\<close>, numbers that are not finite become \<open>null\<close>,
  a \<open>Date\<close> its \<open>toJSON\<close> text. \<open>None\<close> is \<open>JSON.stringify(undefined)\<close>, which is no
  text at all.
\<close>

fun to_json :: "jsval \<Rightarrow> jsval option" where
  "to_json JUndef = None"
| "to_json (JNum n) = Some (if is_finite n then JNum n else JNull)"
| "to_json (JArr xs) = Some (JArr (map (\<lambda>x. case to_json x of Some y \<Rightarrow> y | None \<Rightarrow> JNull) xs))"
| "to_json (JObj ps) = Some (JObj (map (\<lambda>(k, v). (k, the v))
     (filter (\<lambda>(k, v). v \<noteq> None) (map (\<lambda>(k, v). (k, to_json v)) ps))))"
| "to_json (JDate j t n) = Some (JStr j)"
| "to_json v = Some v"

text \<open>Data that is JSON already: what a parsed request body is made of.\<close>

fun is_json :: "jsval \<Rightarrow> bool" where
  "is_json JUndef = False"
| "is_json (JNum n) = is_finite n"
| "is_json (JArr xs) = list_all is_json xs"
| "is_json (JObj ps) = list_all (\<lambda>(k, v). is_json v) ps"
| "is_json (JDate _ _ _) = False"
| "is_json _ = True"

definition json_props :: "props \<Rightarrow> props" where
  "json_props ps = map (\<lambda>(k, v). (k, the v))
     (filter (\<lambda>(k, v). v \<noteq> None) (map (\<lambda>(k, v). (k, to_json v)) ps))"

lemma to_json_JObj: "to_json (JObj ps) = Some (JObj (json_props ps))"
  by (simp add: json_props_def)

lemma json_props_Nil [simp]: "json_props [] = []"
  by (simp add: json_props_def)

lemma json_props_Cons [simp]:
  "json_props ((k, v) # ps) =
    (case to_json v of Some w \<Rightarrow> (k, w) # json_props ps | None \<Rightarrow> json_props ps)"
  by (auto simp: json_props_def split: option.splits)

lemma in_json_props: "(k, w) \<in> set (json_props ps) \<longleftrightarrow> (\<exists>v. (k, v) \<in> set ps \<and> to_json v = Some w)"
  by (induction ps) (auto split: option.splits)

declare to_json.simps(4) [simp del]
declare to_json_JObj [simp]

lemma to_json_id: "is_json v \<Longrightarrow> to_json v = Some v"
proof (induction v rule: jsval_induct)
  case (Arr xs)
  then show ?case by (auto simp: list_all_iff intro!: map_idI)
next
  case (Obj ps)
  then have "\<forall>(k, v) \<in> set ps. to_json v = Some v"
    by (fastforce simp: list_all_iff)
  then have "json_props ps = ps" by (induction ps) auto
  then show ?case by simp
next
  case (Other v)
  then show ?case by (cases v) auto
qed

lemma to_json_is_json: "to_json v = Some w \<Longrightarrow> is_json w"
proof (induction v arbitrary: w rule: jsval_induct)
  case (Arr xs)
  then show ?case by (auto simp: list_all_iff split: option.splits)
next
  case (Obj ps)
  then have "is_json u" if "(k, u) \<in> set (json_props ps)" for k u
    using that by (auto simp: in_json_props)
  with Obj.prems show ?case by (auto simp: list_all_iff)
next
  case (Other v)
  then show ?case by (cases v) (auto split: if_splits)
qed

lemma clean_to_json: "to_json v = Some w \<Longrightarrow> clean v \<Longrightarrow> clean w"
proof (induction v arbitrary: w rule: jsval_induct)
  case (Arr xs)
  then show ?case by (auto simp: list_all_iff split: option.splits)
next
  case (Obj ps)
  then have "\<not> sensitive_key k \<and> clean u" if "(k, u) \<in> set (json_props ps)" for k u
    using that by (fastforce simp: in_json_props list_all_iff)
  with Obj.prems show ?case by (auto simp: list_all_iff)
next
  case (Other v)
  then show ?case by (cases v) (auto split: if_splits)
qed

lemma map_of_json_props:
  "distinct (map fst ps) \<Longrightarrow> map_of (json_props ps) k = Option.bind (map_of ps k) to_json"
proof (induction ps)
  case Nil
  then show ?case by simp
next
  case (Cons x ps)
  obtain j v where x: "x = (j, v)" by (cases x)
  have IH: "map_of (json_props ps) k = Option.bind (map_of ps k) to_json"
    using Cons by simp
  have j: "map_of ps j = None" using Cons.prems x by (simp add: map_of_eq_None_iff)
  show ?case
  proof (cases "k = j")
    case True
    with IH j x show ?thesis by (simp split: option.split)
  next
    case False
    with IH x show ?thesis by (simp split: option.split)
  qed
qed

lemma prop_of_json_props:
  "distinct (map fst ps) \<Longrightarrow> prop_of (json_props ps) k =
    (case to_json (prop_of ps k) of Some w \<Rightarrow> w | None \<Rightarrow> JUndef)"
  by (simp add: prop_of_def map_of_json_props split: option.split)

lemma ordered_json_props: "ordered_props ps \<Longrightarrow> ordered_props (json_props ps)"
proof (induction ps)
  case (Cons x ps)
  obtain k v where x: "x = (k, v)" by (cases x)
  have "keys (json_props ps) \<subseteq> keys ps" by (force simp: keys_def in_json_props)
  with Cons x show ?case by (auto simp: ordered_props_Cons split: option.split)
qed simp

lemma well_ordered_to_json: "to_json v = Some w \<Longrightarrow> well_ordered v \<Longrightarrow> well_ordered w"
proof (induction v arbitrary: w rule: jsval_induct)
  case (Arr xs)
  then show ?case by (auto simp: list_all_iff split: option.splits)
next
  case (Obj ps)
  then have "well_ordered u" if "(k, u) \<in> set (json_props ps)" for k u
    using that by (fastforce simp: in_json_props list_all_iff)
  moreover have "keys (json_props ps) \<subseteq> keys ps" by (force simp: keys_def in_json_props)
  ultimately show ?case using Obj.prems by (auto simp: list_all_iff ordered_json_props)
next
  case (Other v)
  then show ?case by (cases v) (auto split: if_splits)
qed

end
