(* ===== verification/Config.thy ===== *)
theory Config
  imports SensitiveData
begin

text \<open>
  \<open>config/config.js\<close>: the numbers read from the environment with their defaults, the
  enumerations a payment is checked against, and the check that a production process is
  configured at all.
\<close>

text \<open>\<open>Number(process.env.NAME) || fallback\<close>\<close>

definition env_number :: "env \<Rightarrow> string \<Rightarrow> rat \<Rightarrow> jsnum" where
  "env_number env name fallback =
     (let n = (case env name of Some s \<Rightarrow> string_to_num s | None \<Rightarrow> NaN)
      in if truthy (JNum n) then n else Fin fallback)"

record config =
  port :: jsnum
  workerCount :: jsnum
  maxRetries :: jsnum
  transactionLimit :: jsnum
  defaultBalance :: jsnum
  inquiryBalance :: jsnum
  supportedIssuerTypes :: "string list"
  supportedNetworks :: "string list"
  supportedTransactionTypes :: "string list"
  supportedChannels :: "string list"
  internationalAtmLimit :: jsnum
  ecommerceReviewLimit :: jsnum
  internationalPosReviewLimit :: jsnum

definition config_of :: "env \<Rightarrow> config" where
  "config_of env =
     \<lparr>port = env_number env ''PORT'' 3000,
      workerCount = env_number env ''WORKER_COUNT'' 3,
      maxRetries = env_number env ''MAX_RETRIES'' 3,
      transactionLimit = env_number env ''TRANSACTION_LIMIT'' 10000,
      defaultBalance = env_number env ''DEFAULT_BALANCE'' 5000,
      inquiryBalance = env_number env ''INQUIRY_BALANCE'' 2500,
      supportedIssuerTypes = [''INTERNAL'', ''EXTERNAL''],
      supportedNetworks = [''EXTERNAL_PROCESSOR'', ''CARD_NETWORK''],
      supportedTransactionTypes = [''PURCHASE'', ''CASH_WITHDRAWAL'', ''BALANCE_INQUIRY'', ''REVERSAL''],
      supportedChannels =
        [''DOMESTIC_ATM'', ''INTERNATIONAL_ATM'', ''DOMESTIC_POS'', ''INTERNATIONAL_POS'', ''ECOM''],
      internationalAtmLimit = Fin 1000,
      ecommerceReviewLimit = Fin 5000,
      internationalPosReviewLimit = Fin 3000\<rparr>"

text \<open>\<open>list.includes(v)\<close> on a list of strings.\<close>

definition js_includes :: "string list \<Rightarrow> jsval \<Rightarrow> bool" where
  "js_includes xs v = (case v of JStr s \<Rightarrow> s \<in> set xs | _ \<Rightarrow> False)"

lemma js_includes_iff: "js_includes xs v \<longleftrightarrow> (\<exists>s \<in> set xs. v = JStr s)"
  by (auto simp: js_includes_def split: jsval.splits)

text \<open>The enumerations do not depend on the environment, and no number is \<open>NaN\<close>.\<close>

lemma config_of_lists [simp]:
  "supportedIssuerTypes (config_of env) = [''INTERNAL'', ''EXTERNAL'']"
  "supportedNetworks (config_of env) = [''EXTERNAL_PROCESSOR'', ''CARD_NETWORK'']"
  "supportedTransactionTypes (config_of env) =
    [''PURCHASE'', ''CASH_WITHDRAWAL'', ''BALANCE_INQUIRY'', ''REVERSAL'']"
  "supportedChannels (config_of env) =
    [''DOMESTIC_ATM'', ''INTERNATIONAL_ATM'', ''DOMESTIC_POS'', ''INTERNATIONAL_POS'', ''ECOM'']"
  "internationalAtmLimit (config_of env) = Fin 1000"
  "ecommerceReviewLimit (config_of env) = Fin 5000"
  "internationalPosReviewLimit (config_of env) = Fin 3000"
  by (simp_all add: config_of_def)

lemma env_number_truthy: "d \<noteq> 0 \<Longrightarrow> truthy (JNum (env_number env name d))"
  by (auto simp: env_number_def Let_def split: option.splits)

definition first_unset :: "env \<Rightarrow> string list \<Rightarrow> string option" where
  "first_unset env names = find (\<lambda>n. \<not> env_set env n) names"

definition validateRuntimeConfiguration :: "env \<Rightarrow> unit result" where
  "validateRuntimeConfiguration env =
     (if \<not> is_production env then Inr ()
      else case first_unset env [''DATABASE_URL'', ''CARD_FINGERPRINT_SECRET''] of
        Some name \<Rightarrow> Inl (Error (name @ '' must be set when NODE_ENV=production''))
      | None \<Rightarrow>
          if \<not> env_set env ''REDIS_URL'' \<and> \<not> env_set env ''REDIS_HOST''
          then Inl (Error ''REDIS_URL or REDIS_HOST must be set when NODE_ENV=production'')
          else Inr ())"

lemma validateRuntimeConfiguration_iff:
  "validateRuntimeConfiguration env = Inr () \<longleftrightarrow>
    \<not> is_production env \<or>
    (env_set env ''DATABASE_URL'' \<and> env_set env ''CARD_FINGERPRINT_SECRET'' \<and>
     (env_set env ''REDIS_URL'' \<or> env_set env ''REDIS_HOST''))"
  by (auto simp: validateRuntimeConfiguration_def first_unset_def split: if_splits)

text \<open>A process that passed the check never fails to find the fingerprint secret.\<close>

lemma validated_secret:
  "validateRuntimeConfiguration env = Inr () \<Longrightarrow> \<exists>s. getCardFingerprintSecret env = Inr s"
  by (auto simp: validateRuntimeConfiguration_iff getCardFingerprintSecret_def)

section \<open>Properties\<close>

text \<open>A process starts in production only if the database URL, the fingerprint secret and one
  address of Redis are set, and then the secret is found whenever a card number is hashed;
  outside production it always starts.\<close>

lemma runtime_configuration:
  "(validateRuntimeConfiguration env = Inr () \<longleftrightarrow>
      \<not> is_production env \<or>
      (env_set env ''DATABASE_URL'' \<and> env_set env ''CARD_FINGERPRINT_SECRET'' \<and>
       (env_set env ''REDIS_URL'' \<or> env_set env ''REDIS_HOST''))) \<and>
   (validateRuntimeConfiguration env = Inr () \<longrightarrow> (\<exists>s. getCardFingerprintSecret env = Inr s))"
  using validateRuntimeConfiguration_iff validated_secret by blast

end
