(* ===== verification/Validation.thy ===== *)
theory Validation
  imports Config
begin

text \<open>
  \<open>validation/validator.js\<close> and \<open>risk/riskEngine.js\<close>: the checks a payment passes before
  it is stored. A field is read off the request body, whatever JSON it is.
\<close>

section \<open>\<open>validateTransaction\<close>\<close>

datatype validation = Invalid string | Valid jsval

definition requiredFields :: "string list" where
  "requiredFields = [''amount'', ''fromAccount'', ''toAccount'', ''type'', ''channel'', ''issuerType'']"

text \<open>A member of a value already known to be neither \<open>undefined\<close> nor \<open>null\<close>.\<close>

definition field :: "jsval \<Rightarrow> string \<Rightarrow> jsval" where
  "field v k = (case js_get v k of Inr w \<Rightarrow> w | Inl _ \<Rightarrow> JUndef)"

lemma field_JObj [simp]: "field (JObj ps) k = prop_of ps k"
  by (simp add: field_def)

definition missing_field :: "jsval \<Rightarrow> string \<Rightarrow> bool" where
  "missing_field txn f = (nullish (field txn f) \<or> field txn f = JStr [])"

fun own_props :: "jsval \<Rightarrow> props" where
  "own_props (JObj ps) = ps"
| "own_props _ = []"

definition validateTransaction :: "config \<Rightarrow> jsval \<Rightarrow> validation result" where
  "validateTransaction cfg txn =
     (if nullish txn then Inl TypeError else
      let missingFields = filter (missing_field txn) requiredFields in
      if missingFields \<noteq> [] then
        Inr (Invalid (''Missing required fields: '' @ join '', '' missingFields))
      else and_then (to_num (field txn ''amount'')) (\<lambda>amount.
        if \<not> is_finite amount then Inr (Invalid ''Amount must be a number'')
        else if field txn ''type'' \<noteq> JStr ''BALANCE_INQUIRY'' \<and> amount \<le> Fin 0 then
          Inr (Invalid ''Amount must be greater than 0'')
        else if transactionLimit cfg < amount then
          Inr (Invalid ''Amount exceeds transaction limit'')
        else if \<not> js_includes (supportedTransactionTypes cfg) (field txn ''type'') then
          Inr (Invalid ''Invalid transaction type'')
        else if \<not> js_includes (supportedIssuerTypes cfg) (field txn ''issuerType'') then
          Inr (Invalid ''Issuer type must be INTERNAL or EXTERNAL'')
        else if \<not> js_includes (supportedChannels cfg) (field txn ''channel'') then
          Inr (Invalid ''Invalid channel'')
        else if field txn ''issuerType'' = JStr ''EXTERNAL'' \<and> \<not> truthy (field txn ''network'') then
          Inr (Invalid ''Network is required for external issuer'')
        else if truthy (field txn ''network'') \<and>
            \<not> js_includes (supportedNetworks cfg) (field txn ''network'') then
          Inr (Invalid ''Network must be EXTERNAL_PROCESSOR or CARD_NETWORK'')
        else and_then
          (if truthy (field txn ''cardNumber'')
           then and_then (to_str (field txn ''cardNumber'')) (\<lambda>s. Inr (length s < 4))
           else Inr False) (\<lambda>short.
          if short then Inr (Invalid ''Card number is too short'')
          else Inr (Valid (JObj (spread []
            (own_props txn @ [(''amount'', JNum amount), (''type'', field txn ''type'')])))))))"

text \<open>The checks of the validator in one conjunction, an intermediate form of what is proved below.\<close>

definition acceptable :: "config \<Rightarrow> jsval \<Rightarrow> jsnum \<Rightarrow> bool" where
  "acceptable cfg txn amount \<longleftrightarrow>
     list_all (\<lambda>f. \<not> missing_field txn f) requiredFields \<and>
     to_num (field txn ''amount'') = Inr amount \<and> is_finite amount \<and>
     (field txn ''type'' = JStr ''BALANCE_INQUIRY'' \<or> \<not> amount \<le> Fin 0) \<and>
     \<not> transactionLimit cfg < amount \<and>
     js_includes (supportedTransactionTypes cfg) (field txn ''type'') \<and>
     js_includes (supportedIssuerTypes cfg) (field txn ''issuerType'') \<and>
     js_includes (supportedChannels cfg) (field txn ''channel'') \<and>
     (if truthy (field txn ''network'') then js_includes (supportedNetworks cfg) (field txn ''network'')
      else field txn ''issuerType'' \<noteq> JStr ''EXTERNAL'') \<and>
     (truthy (field txn ''cardNumber'') \<longrightarrow>
       (\<exists>s. to_str (field txn ''cardNumber'') = Inr s \<and> 4 \<le> length s))"

lemma field_nullish: "nullish txn \<Longrightarrow> field txn k = JUndef"
  by (cases txn) (auto simp: field_def)

lemma validateTransaction_Valid_iff:
  "validateTransaction cfg txn = Inr (Valid t) \<longleftrightarrow>
    (\<exists>amount. acceptable cfg txn amount \<and>
      t = JObj (spread [] (own_props txn @ [(''amount'', JNum amount), (''type'', field txn ''type'')])))"
  (is "?l \<longleftrightarrow> ?r")
proof (cases "nullish txn \<or> filter (missing_field txn) requiredFields \<noteq> []")
  case True
  have "\<not> ?l" using True by (auto simp: validateTransaction_def)
  moreover have "\<not> ?r"
  proof (cases "nullish txn")
    case True
    then have "missing_field txn ''amount''" by (simp add: missing_field_def field_nullish)
    then show ?thesis by (simp add: acceptable_def requiredFields_def)
  next
    case False
    with True show ?thesis by (auto simp: acceptable_def filter_empty_conv list_all_iff)
  qed
  ultimately show ?thesis by simp
next
  case False
  then have "list_all (\<lambda>f. \<not> missing_field txn f) requiredFields"
    by (auto simp: filter_empty_conv list_all_iff)
  with False show ?thesis
    by (cases "to_num (field txn ''amount'')"; cases "to_str (field txn ''cardNumber'')")
       (auto simp: validateTransaction_def acceptable_def not_less)
qed

lemma acceptable_is_object:
  assumes "acceptable cfg txn amount"
  obtains ps where "txn = JObj ps"
proof -
  have *: "missing_field txn f" if "\<And>ps. txn \<noteq> JObj ps" "f = ''fromAccount''" for f
    using that by (cases txn) (auto simp: missing_field_def field_def)
  have "\<not> missing_field txn ''fromAccount''"
    using assms by (auto simp: acceptable_def requiredFields_def)
  then show thesis using that * by blast
qed

text \<open>
  What a payment must be, said without the validator: which members it has and what they may
  hold.
\<close>

definition given :: "props \<Rightarrow> string \<Rightarrow> bool" where
  "given ps k \<longleftrightarrow> map_of ps k \<notin> {None, Some JUndef, Some JNull, Some (JStr [])}"

definition payable :: "env \<Rightarrow> props \<Rightarrow> rat \<Rightarrow> bool" where
  "payable env ps q \<longleftrightarrow>
     given ps ''fromAccount'' \<and> given ps ''toAccount'' \<and>
     given ps ''amount'' \<and> to_num (prop_of ps ''amount'') = Inr (Fin q) \<and>
     Fin q \<le> transactionLimit (config_of env) \<and>
     (map_of ps ''type'' = Some (JStr ''BALANCE_INQUIRY'') \<or>
      0 < q \<and> map_of ps ''type'' \<in> {Some (JStr ''PURCHASE''), Some (JStr ''CASH_WITHDRAWAL''), Some (JStr ''REVERSAL'')}) \<and>
     map_of ps ''channel'' \<in> {Some (JStr ''DOMESTIC_ATM''), Some (JStr ''INTERNATIONAL_ATM''),
       Some (JStr ''DOMESTIC_POS''), Some (JStr ''INTERNATIONAL_POS''), Some (JStr ''ECOM'')} \<and>
     (map_of ps ''issuerType'' = Some (JStr ''INTERNAL'') \<and> \<not> truthy (prop_of ps ''network'') \<or>
      map_of ps ''issuerType'' \<in> {Some (JStr ''INTERNAL''), Some (JStr ''EXTERNAL'')} \<and>
      map_of ps ''network'' \<in> {Some (JStr ''EXTERNAL_PROCESSOR''), Some (JStr ''CARD_NETWORK'')}) \<and>
     (\<not> truthy (prop_of ps ''cardNumber'') \<or>
      (\<exists>s. to_str (prop_of ps ''cardNumber'') = Inr s \<and> 4 \<le> length s))"

lemma missing_iff: "missing_field (JObj ps) k \<longleftrightarrow> \<not> given ps k"
proof (cases "map_of ps k")
  case (Some v)
  then show ?thesis by (cases v) (auto simp: missing_field_def given_def prop_of_def)
qed (simp add: missing_field_def given_def prop_of_def)

lemma prop_of_JStr: "prop_of ps k = JStr s \<longleftrightarrow> map_of ps k = Some (JStr s)"
  by (auto simp: prop_of_def split: option.splits)

lemma env_number_not_NaN: "env_number env name d \<noteq> NaN"
  by (auto simp: env_number_def Let_def)

lemma limit_not_exceeded: "\<not> transactionLimit (config_of env) < Fin q \<longleftrightarrow> Fin q \<le> transactionLimit (config_of env)"
  using env_number_not_NaN [of env "''TRANSACTION_LIMIT''" 10000]
  by (cases "transactionLimit (config_of env)") (auto simp: config_of_def)

lemma includes_member:
  "js_includes ss (prop_of ps k) \<longleftrightarrow> map_of ps k \<in> (\<lambda>s. Some (JStr s)) ` set ss"
  by (auto simp: js_includes_iff prop_of_JStr)

lemma given_member: "map_of ps k \<in> (\<lambda>s. Some (JStr s)) ` set ss \<Longrightarrow> [] \<notin> set ss \<Longrightarrow> given ps k"
  by (auto simp: given_def)

lemma network_rule:
  "(if truthy (prop_of ps ''network'') then js_includes ns (prop_of ps ''network'')
    else prop_of ps ''issuerType'' \<noteq> JStr ''EXTERNAL'') \<and> js_includes [''INTERNAL'', ''EXTERNAL''] (prop_of ps ''issuerType'') \<longleftrightarrow>
   map_of ps ''issuerType'' = Some (JStr ''INTERNAL'') \<and> \<not> truthy (prop_of ps ''network'') \<or>
   map_of ps ''issuerType'' \<in> {Some (JStr ''INTERNAL''), Some (JStr ''EXTERNAL'')} \<and>
   map_of ps ''network'' \<in> (\<lambda>s. Some (JStr s)) ` set ns"
  if "[] \<notin> set ns"
proof -
  have "truthy (prop_of ps ''network'')" if "map_of ps ''network'' \<in> (\<lambda>s. Some (JStr s)) ` set ns"
    using that \<open>[] \<notin> set ns\<close> by (auto simp: prop_of_def)
  then show ?thesis
    unfolding includes_member prop_of_JStr by (cases "truthy (prop_of ps ''network'')") auto
qed

lemma acceptable_payable:
  "acceptable (config_of env) (JObj ps) a \<longleftrightarrow> (\<exists>q. a = Fin q \<and> payable env ps q)"
proof (cases a)
  case (Fin q)
  let ?types = "[''PURCHASE'', ''CASH_WITHDRAWAL'', ''BALANCE_INQUIRY'', ''REVERSAL'']"
  let ?channels = "[''DOMESTIC_ATM'', ''INTERNATIONAL_ATM'', ''DOMESTIC_POS'', ''INTERNATIONAL_POS'', ''ECOM'']"
  let ?networks = "[''EXTERNAL_PROCESSOR'', ''CARD_NETWORK'']"
  let ?some = "\<lambda>s. Some (JStr s)"
  have types: "(prop_of ps ''type'' = JStr ''BALANCE_INQUIRY'' \<or> \<not> Fin q \<le> Fin 0) \<and> js_includes ?types (prop_of ps ''type'') \<longleftrightarrow>
     map_of ps ''type'' = ?some ''BALANCE_INQUIRY'' \<or>
      0 < q \<and> map_of ps ''type'' \<in> {?some ''PURCHASE'', ?some ''CASH_WITHDRAWAL'', ?some ''REVERSAL''}"
    unfolding includes_member prop_of_JStr by (simp add: not_le) blast
  have known: "given ps ''type''" if "js_includes ?types (prop_of ps ''type'')"
    using that unfolding includes_member by (rule given_member) simp
  have channel: "given ps ''channel''" if "js_includes ?channels (prop_of ps ''channel'')"
    using that unfolding includes_member by (rule given_member) simp
  have issuer: "given ps ''issuerType''" if "js_includes [''INTERNAL'', ''EXTERNAL''] (prop_of ps ''issuerType'')"
    using that unfolding includes_member by (rule given_member) simp
  have card: "(truthy v \<longrightarrow> P) \<longleftrightarrow> \<not> truthy v \<or> P" for v P by blast
  have networks: "[] \<notin> set ?networks" by simp
  have "acceptable (config_of env) (JObj ps) (Fin q) \<longleftrightarrow>
     given ps ''fromAccount'' \<and> given ps ''toAccount'' \<and> given ps ''amount'' \<and>
     to_num (prop_of ps ''amount'') = Inr (Fin q) \<and> Fin q \<le> transactionLimit (config_of env) \<and>
     ((prop_of ps ''type'' = JStr ''BALANCE_INQUIRY'' \<or> \<not> Fin q \<le> Fin 0) \<and> js_includes ?types (prop_of ps ''type'')) \<and>
     js_includes ?channels (prop_of ps ''channel'') \<and>
     ((if truthy (prop_of ps ''network'') then js_includes ?networks (prop_of ps ''network'')
       else prop_of ps ''issuerType'' \<noteq> JStr ''EXTERNAL'') \<and> js_includes [''INTERNAL'', ''EXTERNAL''] (prop_of ps ''issuerType'')) \<and>
     (\<not> truthy (prop_of ps ''cardNumber'') \<or> (\<exists>s. to_str (prop_of ps ''cardNumber'') = Inr s \<and> 4 \<le> length s))"
    unfolding acceptable_def requiredFields_def config_of_lists field_JObj limit_not_exceeded card
    using known channel issuer by (simp only: list.pred_inject missing_iff is_finite.simps simp_thms) blast
  note this [unfolded types network_rule [OF networks], unfolded includes_member list.set image_insert image_empty]
  then show ?thesis
    unfolding Fin payable_def jsnum.inject by (simp only: simp_thms ex_simps)
qed (simp_all add: acceptable_def)

section \<open>\<open>evaluateRisk\<close>\<close>

datatype risk = REJECT string | REVIEW string | APPROVE

definition evaluateRisk :: "config \<Rightarrow> jsval \<Rightarrow> risk result" where
  "evaluateRisk cfg txn =
     (let channel = field txn ''channel''; amount = field txn ''amount'';
          over = (\<lambda>c limit. if channel = JStr c then js_gt amount limit else Inr False) in
      and_then (over ''INTERNATIONAL_ATM'' (internationalAtmLimit cfg)) (\<lambda>b.
      if b then Inr (REJECT ''High-risk international ATM withdrawal'')
      else and_then (over ''ECOM'' (ecommerceReviewLimit cfg)) (\<lambda>b.
      if b then Inr (REVIEW ''High-value e-commerce transaction'')
      else and_then (over ''INTERNATIONAL_POS'' (internationalPosReviewLimit cfg)) (\<lambda>b.
      if b then Inr (REVIEW ''High-value international POS transaction'')
      else Inr APPROVE))))"

text \<open>On a numeric amount the engine never throws, and approves exactly these payments.\<close>

lemma evaluateRisk_number:
  assumes "field txn ''amount'' = JNum a"
  shows "\<exists>r. evaluateRisk cfg txn = Inr r"
    and "evaluateRisk cfg txn = Inr APPROVE \<longleftrightarrow>
      \<not> (field txn ''channel'' = JStr ''INTERNATIONAL_ATM'' \<and> internationalAtmLimit cfg < a) \<and>
      \<not> (field txn ''channel'' = JStr ''ECOM'' \<and> ecommerceReviewLimit cfg < a) \<and>
      \<not> (field txn ''channel'' = JStr ''INTERNATIONAL_POS'' \<and> internationalPosReviewLimit cfg < a)"
  using assms by (auto simp: evaluateRisk_def Let_def)

section \<open>Properties\<close>

text \<open>C23: The validator accepts exactly the payments that are objects with both accounts, an amount
  that reads as a number, positive unless the payment is a balance inquiry and not above the
  limit, one of the four types, one of the five channels, an issuer that is internal or
  external, a supported network (which an internal issuer may leave out), and a card number,
  if any, of at least four characters; and what it returns is the request with the amount as a
  number.\<close>

theorem validation_accepts:
  "validateTransaction (config_of env) txn = Inr (Valid t) \<longleftrightarrow>
    (\<exists>ps q. txn = JObj ps \<and> payable env ps q \<and>
      t = JObj (object_literal (ps @ [(''amount'', JNum (Fin q)), (''type'', prop_of ps ''type'')])))"
proof -
  have "\<exists>ps. txn = JObj ps" if "acceptable (config_of env) txn a" for a
    using acceptable_is_object [OF that] by blast
  then show ?thesis
    unfolding validateTransaction_Valid_iff object_literal_def by (fastforce simp: acceptable_payable)
qed

text \<open>On a numeric amount the risk engine always answers, and rejects or holds for review
  exactly the payments above the limit of their channel.\<close>

lemma risk_decision:
  assumes "field txn ''amount'' = JNum a" and "field txn ''channel'' = JStr c"
  shows "evaluateRisk (config_of env) txn = Inr
    (if c = ''INTERNATIONAL_ATM'' \<and> Fin 1000 < a then REJECT ''High-risk international ATM withdrawal''
     else if c = ''ECOM'' \<and> Fin 5000 < a then REVIEW ''High-value e-commerce transaction''
     else if c = ''INTERNATIONAL_POS'' \<and> Fin 3000 < a then REVIEW ''High-value international POS transaction''
     else APPROVE)"
  using assms by (auto simp: evaluateRisk_def Let_def)

end
