(* ===== verification/Tables.thy ===== *)
theory Tables
  imports Redaction JsonData Validation
begin

text \<open>
  The tables of \<open>db/init.sql\<close> as records, and the vocabulary of the SQL statements. The
  clock \<open>CURRENT_TIMESTAMP\<close> is always an argument, in microseconds; lease durations and
  timeouts are in milliseconds, as in the code. Nullable columns are options.
\<close>

section \<open>Rows\<close>

record txn_row =
  row_id :: int
  txn_id :: string
  correlation_id :: string
  client_id :: "string option"
  idempotency_key :: "string option"
  request_hash :: "string option"
  txn_amount :: string
  txn_channel :: string
  card_last4 :: "string option"
  card_fingerprint :: "string option"
  txn_status :: string
  received_at :: int
  updated_at :: int
  from_account :: "string option"
  to_account :: "string option"
  txn_type :: "string option"
  retry_count :: int
  worker_id :: "int option"
  processing_started_at :: "int option"
  processor_instance_id :: "string option"
  last_heartbeat_at :: "int option"
  lease_expires_at :: "int option"
  txn_route :: "string option"
  txn_reason :: "string option"
  txn_result :: "jsval option"
  processing_timeline :: "jsval option"

record outbox_row =
  ob_id :: int
  ob_txn_id :: string
  ob_event_type :: string
  ob_payload :: jsval
  ob_status :: string
  ob_attempts :: int
  ob_claim_count :: int
  ob_recovery_count :: int
  ob_claimed_at :: "int option"
  ob_locked_by :: "string option"
  ob_last_error :: "string option"
  ob_created_at :: int
  ob_updated_at :: int

record dead_row =
  dl_id :: int
  dl_job_id :: string
  dl_txn_id :: "string option"
  dl_queue_name :: string
  dl_payload :: jsval
  dl_failed_reason :: string
  dl_attempts_made :: int
  dl_failed_at :: int

text \<open>The sequences behind the \<open>SERIAL\<close> columns advance even when a statement inserts nothing.\<close>

record db =
  transactions :: "txn_row list"
  txn_seq :: int
  outbox_events :: "outbox_row list"
  outbox_seq :: int
  dead_letter_jobs :: "dead_row list"
  dead_seq :: int

definition empty_db :: db where
  "empty_db = \<lparr>transactions = [], txn_seq = 1, outbox_events = [], outbox_seq = 1,
     dead_letter_jobs = [], dead_seq = 1\<rparr>"

text \<open>
  The database client and the column types are not code of the repository: how a
  JavaScript value becomes the text or the integer of a parameter, which rows and which
  JSON the column types (lengths, numeric ranges, characters) accept, and how the client
  reads back a \<open>NUMERIC\<close> and a \<open>TIMESTAMP\<close> column, are arguments.
\<close>

record pg =
  bind_text :: "jsval \<Rightarrow> string option"
  bind_int :: "jsval \<Rightarrow> int option"
  row_fits :: "txn_row \<Rightarrow> bool"
  json_fits :: "jsval \<Rightarrow> bool"
  dead_fits :: "dead_row \<Rightarrow> bool"
  numeric_text :: "string \<Rightarrow> string"
  date_of :: "int \<Rightarrow> jsval"

text \<open>
  What the documentation of \<open>pg\<close> says of parameters: strings are sent as they are,
  \<open>null\<close> and \<open>undefined\<close> as \<open>NULL\<close>, nothing else as \<open>NULL\<close>, integers by their digits.
\<close>

definition pg_laws :: "pg \<Rightarrow> bool" where
  "pg_laws pg \<longleftrightarrow>
     (\<forall>s. bind_text pg (JStr s) = Some s) \<and>
     (\<forall>v. bind_text pg v = None \<longleftrightarrow> nullish v) \<and>
     (\<forall>n. bind_int pg (JInt n) = Some n)"

definition not_null :: "'a option \<Rightarrow> 'a result" where
  "not_null x = (case x of Some a \<Rightarrow> Inr a | None \<Rightarrow> Inl (DbError ''null value violates not-null constraint''))"

definition or_null :: "jsval \<Rightarrow> jsval" where
  "or_null v = js_or v JNull"

text \<open>\<open>COALESCE(a, b)\<close>\<close>

definition coalesce :: "'a option \<Rightarrow> 'a option \<Rightarrow> 'a option" where
  "coalesce a b = (case a of Some x \<Rightarrow> Some x | None \<Rightarrow> b)"

definition coalesce_val :: "'a option \<Rightarrow> 'a \<Rightarrow> 'a" where
  "coalesce_val a b = (case a of Some x \<Rightarrow> x | None \<Rightarrow> b)"

text \<open>\<open>n * INTERVAL '1 millisecond'\<close>, in the clock's microseconds.\<close>

definition millis :: "int \<Rightarrow> int" where
  "millis n = 1000 * n"

text \<open>One database client that obeys these laws, for concrete runs.\<close>

definition sample_pg :: pg where
  "sample_pg =
     \<lparr>bind_text = (\<lambda>v. case v of JUndef \<Rightarrow> None | JNull \<Rightarrow> None | JStr s \<Rightarrow> Some s
        | JNum n \<Rightarrow> Some (num_to_string n) | _ \<Rightarrow> Some ''json''),
      bind_int = (\<lambda>v. case v of JNum (Fin q) \<Rightarrow> Some \<lfloor>q\<rfloor> | _ \<Rightarrow> None),
      row_fits = (\<lambda>_. True), json_fits = (\<lambda>_. True), dead_fits = (\<lambda>_. True),
      numeric_text = id, date_of = (\<lambda>us. JDate [] [] 0)\<rparr>"

lemma sample_pg_laws: "pg_laws sample_pg"
  by (auto simp: pg_laws_def sample_pg_def split: jsval.splits)

end
