(* ===== verification/Lifecycle.thy ===== *)
theory Lifecycle
  imports Tables
begin

text \<open>
  \<open>store/store.js\<close>, second part: the statements that move a transaction through its
  lifecycle. Each is a single \<open>UPDATE\<close> with its guard, hence atomic.
\<close>

section \<open>The lifecycle of a transaction\<close>

record updates =
  u_status :: "string option"
  u_retryCount :: "int option"
  u_workerId :: "int option"
  u_route :: "string option"
  u_reason :: "string option"
  u_result :: "jsval option"
  u_timeline :: "jsval option"
  u_clearProcessing :: bool
  u_processingStartedAt :: "int option"
  u_processorInstanceId :: "string option"

definition no_updates :: updates where
  "no_updates =
     \<lparr>u_status = None, u_retryCount = None, u_workerId = None, u_route = None, u_reason = None,
      u_result = None, u_timeline = None, u_clearProcessing = False,
      u_processingStartedAt = None, u_processorInstanceId = None\<rparr>"

text \<open>\<open>s || null\<close> on an optional string, and \<open>v ? JSON.stringify(v) : null\<close>.\<close>

definition non_empty :: "string option \<Rightarrow> string option" where
  "non_empty s = (if s = Some [] then None else s)"

definition json_param :: "jsval option \<Rightarrow> jsval option" where
  "json_param v = (case v of Some w \<Rightarrow> if truthy w then to_json w else None | None \<Rightarrow> None)"

definition apply_updates :: "updates \<Rightarrow> int \<Rightarrow> txn_row \<Rightarrow> txn_row" where
  "apply_updates u now r = r\<lparr>
     txn_status := coalesce_val (non_empty (u_status u)) (txn_status r),
     retry_count := coalesce_val (u_retryCount u) (retry_count r),
     worker_id := coalesce (u_workerId u) (worker_id r),
     txn_route := coalesce (non_empty (u_route u)) (txn_route r),
     txn_reason := coalesce (non_empty (u_reason u)) (txn_reason r),
     txn_result := coalesce (json_param (u_result u)) (txn_result r),
     processing_timeline := coalesce (json_param (u_timeline u)) (processing_timeline r),
     updated_at := now\<rparr>"

definition clear_processing :: "txn_row \<Rightarrow> txn_row" where
  "clear_processing r = r\<lparr>processing_started_at := None, processor_instance_id := None,
     last_heartbeat_at := None, lease_expires_at := None\<rparr>"

text \<open>\<open>UPDATE transactions SET ... WHERE ... RETURNING *\<close>\<close>

definition update_transactions ::
  "(txn_row \<Rightarrow> bool) \<Rightarrow> (txn_row \<Rightarrow> txn_row) \<Rightarrow> db \<Rightarrow> txn_row list \<times> db" where
  "update_transactions p f db =
     (returning p f (transactions db), db\<lparr>transactions := update_where p f (transactions db)\<rparr>)"

definition updateTransaction :: "string \<Rightarrow> updates \<Rightarrow> int \<Rightarrow> db \<Rightarrow> txn_row option \<times> db" where
  "updateTransaction tid u now db =
     (let set = (\<lambda>r.
        let r' = apply_updates u now r in
        if u_clearProcessing u then clear_processing r'
        else r'\<lparr>processing_started_at := coalesce (u_processingStartedAt u) (processing_started_at r),
                processor_instance_id := coalesce (u_processorInstanceId u) (processor_instance_id r)\<rparr>);
          (rows, db') = update_transactions (\<lambda>r. txn_id r = tid) set db
      in (first_row rows, db'))"

definition set_processing :: "string \<Rightarrow> jsval option \<Rightarrow> int \<Rightarrow> int \<Rightarrow> txn_row \<Rightarrow> txn_row" where
  "set_processing worker timeline leaseMs now r = r\<lparr>
     txn_status := ''PROCESSING'',
     processor_instance_id := Some worker,
     processing_started_at := Some now,
     processing_timeline := coalesce (json_param timeline) (processing_timeline r),
     last_heartbeat_at := Some now,
     lease_expires_at := Some (now + millis leaseMs),
     updated_at := now\<rparr>"

definition startTransactionProcessing ::
  "string \<Rightarrow> string \<Rightarrow> jsval option \<Rightarrow> int \<Rightarrow> int \<Rightarrow> db \<Rightarrow> txn_row option \<times> db" where
  "startTransactionProcessing tid worker timeline leaseMs now db =
     (let (rows, db') = update_transactions
        (\<lambda>r. txn_id r = tid \<and> txn_status r = ''ACCEPTED'')
        (set_processing worker timeline leaseMs now) db
      in (first_row rows, db'))"

definition owns :: "string \<Rightarrow> txn_row \<Rightarrow> bool" where
  "owns worker r \<longleftrightarrow> txn_status r = ''PROCESSING'' \<and> processor_instance_id r = Some worker"

definition renew :: "int \<Rightarrow> int \<Rightarrow> txn_row \<Rightarrow> txn_row" where
  "renew leaseMs now r = r\<lparr>last_heartbeat_at := Some now,
     lease_expires_at := Some (now + millis leaseMs), updated_at := now\<rparr>"

definition renewTransactionProcessingLease ::
  "string \<Rightarrow> string \<Rightarrow> int \<Rightarrow> int \<Rightarrow> db \<Rightarrow> txn_row option \<times> db" where
  "renewTransactionProcessingLease tid worker leaseMs now db =
     (let (rows, db') = update_transactions (\<lambda>r. txn_id r = tid \<and> owns worker r) (renew leaseMs now) db
      in (first_row rows, db'))"

definition finalizeTransactionProcessing ::
  "string \<Rightarrow> string \<Rightarrow> updates \<Rightarrow> int \<Rightarrow> db \<Rightarrow> txn_row option \<times> db" where
  "finalizeTransactionProcessing tid worker u now db =
     (let (rows, db') = update_transactions (\<lambda>r. txn_id r = tid \<and> owns worker r)
        (\<lambda>r. clear_processing (apply_updates u now r)) db
      in (first_row rows, db'))"

text \<open>A lease (or, for a row without one, the timeout since it started) that has passed.\<close>

definition expired :: "int \<Rightarrow> int \<Rightarrow> txn_row \<Rightarrow> bool" where
  "expired staleTimeoutMs now r \<longleftrightarrow>
     txn_status r = ''PROCESSING'' \<and>
     (case coalesce (lease_expires_at r)
         (map_option (\<lambda>t. t + millis staleTimeoutMs) (processing_started_at r))
      of Some t \<Rightarrow> t < now | None \<Rightarrow> False)"

definition recovered_row :: "int \<Rightarrow> txn_row \<Rightarrow> txn_row" where
  "recovered_row now r = clear_processing (r\<lparr>txn_status := ''ACCEPTED'',
     txn_reason := Some ''Recovered stale PROCESSING transaction'', updated_at := now\<rparr>)"

definition recoverStaleProcessingTransactions ::
  "int \<Rightarrow> int \<Rightarrow> db \<Rightarrow> (string \<times> string option) list \<times> db" where
  "recoverStaleProcessingTransactions staleTimeoutMs now db =
     (map (\<lambda>r. (txn_id r, processor_instance_id r))
        (filter (expired staleTimeoutMs now) (transactions db)),
      snd (update_transactions (expired staleTimeoutMs now) (recovered_row now) db))"

definition getTransaction :: "string \<Rightarrow> db \<Rightarrow> txn_row option" where
  "getTransaction tid db = find_row txn_id tid (transactions db)"

section \<open>Shapes shared by the statements\<close>

text \<open>The columns no statement of the lifecycle writes.\<close>

definition identity_columns where
  "identity_columns r =
     (row_id r, txn_id r, correlation_id r, client_id r, idempotency_key r, request_hash r,
      txn_amount r, txn_channel r, card_last4 r, card_fingerprint r, received_at r,
      from_account r, to_account r, txn_type r)"

lemma identity_kept [simp]:
  "identity_columns (apply_updates u now r) = identity_columns r"
  "identity_columns (clear_processing r) = identity_columns r"
  "identity_columns (set_processing w steps lease now r) = identity_columns r"
  "identity_columns (renew lease now r) = identity_columns r"
  "identity_columns (recovered_row now r) = identity_columns r"
  by (simp_all add: identity_columns_def apply_updates_def clear_processing_def set_processing_def
      renew_def recovered_row_def)

lemma identity_txn_id: "identity_columns r = identity_columns r' \<Longrightarrow> txn_id r = txn_id r'"
  by (simp add: identity_columns_def)

lemma txn_id_kept [simp]:
  "txn_id (apply_updates u now r) = txn_id r"
  "txn_id (clear_processing r) = txn_id r"
  "txn_id (set_processing w steps lease now r) = txn_id r"
  "txn_id (renew lease now r) = txn_id r"
  "txn_id (recovered_row now r) = txn_id r"
  by (simp_all add: apply_updates_def clear_processing_def set_processing_def renew_def recovered_row_def)

text \<open>
  What a lifecycle statement may change: the tables keep their rows, in place, up to the
  mutable columns of transactions.
\<close>

definition lifecycle_frame :: "db \<Rightarrow> db \<Rightarrow> bool" where
  "lifecycle_frame db db' \<longleftrightarrow>
     map identity_columns (transactions db') = map identity_columns (transactions db) \<and>
     db'\<lparr>transactions := transactions db\<rparr> = db"

lemma lifecycle_frame_refl [simp]: "lifecycle_frame db db"
  by (simp add: lifecycle_frame_def)

lemma lifecycle_frame_update:
  assumes "\<And>r. identity_columns (f r) = identity_columns r"
  shows "lifecycle_frame db (snd (update_transactions p f db))"
  using assms by (simp add: lifecycle_frame_def update_transactions_def map_update_where)

lemma frame_updateTransaction: "lifecycle_frame db (snd (updateTransaction tid u now db))"
proof -
  let ?f = "\<lambda>r. let r' = apply_updates u now r in
        if u_clearProcessing u then clear_processing r'
        else r'\<lparr>processing_started_at := coalesce (u_processingStartedAt u) (processing_started_at r),
                processor_instance_id := coalesce (u_processorInstanceId u) (processor_instance_id r)\<rparr>"
  have "identity_columns (?f r) = identity_columns r" for r
  proof -
    have "identity_columns (x\<lparr>processing_started_at := a, processor_instance_id := b\<rparr>) = identity_columns x"
      for x :: txn_row and a b by (simp add: identity_columns_def)
    then show ?thesis by (simp add: Let_def)
  qed
  then have "lifecycle_frame db (snd (update_transactions p ?f db))" for p
    by (rule lifecycle_frame_update)
  then show ?thesis by (simp add: updateTransaction_def case_prod_beta Let_def)
qed

lemma frame_lifecycle:
  "lifecycle_frame db (snd (startTransactionProcessing tid w steps lease now db))"
  "lifecycle_frame db (snd (renewTransactionProcessingLease tid w lease now db))"
  "lifecycle_frame db (snd (finalizeTransactionProcessing tid w u now db))"
  "lifecycle_frame db (snd (recoverStaleProcessingTransactions stale now db))"
  by (simp_all add: startTransactionProcessing_def renewTransactionProcessingLease_def
      finalizeTransactionProcessing_def recoverStaleProcessingTransactions_def case_prod_beta
      lifecycle_frame_update)

definition unique_txn_ids :: "db \<Rightarrow> bool" where
  "unique_txn_ids db \<longleftrightarrow> distinct (map txn_id (transactions db))"

lemma frame_txn_ids:
  assumes "lifecycle_frame db db'"
  shows "map txn_id (transactions db') = map txn_id (transactions db)"
proof -
  have "map txn_id rs = map (\<lambda>t. fst (snd t)) (map identity_columns rs)" for rs :: "txn_row list"
    by (simp add: identity_columns_def comp_def)
  with assms show ?thesis by (metis lifecycle_frame_def)
qed

lemma frame_unique: "lifecycle_frame db db' \<Longrightarrow> unique_txn_ids db' = unique_txn_ids db"
  by (simp add: unique_txn_ids_def frame_txn_ids)

text \<open>A guarded update of the one row with an id: it happens, or nothing does.\<close>

definition update_one :: "string \<Rightarrow> (txn_row \<Rightarrow> bool) \<Rightarrow> (txn_row \<Rightarrow> txn_row) \<Rightarrow> db \<Rightarrow> txn_row option \<times> db" where
  "update_one tid g f db =
     (let (rows, db') = update_transactions (\<lambda>r. txn_id r = tid \<and> g r) f db in (first_row rows, db'))"

lemma as_update_one:
  "startTransactionProcessing tid w steps lease now db =
    update_one tid (\<lambda>r. txn_status r = ''ACCEPTED'') (set_processing w steps lease now) db"
  "renewTransactionProcessingLease tid w lease now db = update_one tid (owns w) (renew lease now) db"
  "finalizeTransactionProcessing tid w u now db =
    update_one tid (owns w) (\<lambda>r. clear_processing (apply_updates u now r)) db"
  by (simp_all add: update_one_def startTransactionProcessing_def renewTransactionProcessingLease_def
      finalizeTransactionProcessing_def)

lemma update_one_result:
  assumes "unique_txn_ids db"
  shows "fst (update_one tid g f db) =
    (case getTransaction tid db of Some r \<Rightarrow> if g r then Some (f r) else None | None \<Rightarrow> None)"
proof -
  have "fst (update_one tid g f db) = first_row (returning (\<lambda>r. txn_id r = tid \<and> g r) f (transactions db))"
    by (simp add: update_one_def update_transactions_def)
  also have "\<dots> = first_row (case find_row txn_id tid (transactions db) of
      Some r \<Rightarrow> (if g r then [f r] else []) | None \<Rightarrow> [])"
    using assms by (simp add: returning_one unique_txn_ids_def)
  finally show ?thesis by (simp add: getTransaction_def split: option.split)
qed

lemma update_one_none:
  assumes "unique_txn_ids db" and "fst (update_one tid g f db) = None"
  shows "snd (update_one tid g f db) = db"
proof -
  have "returning (\<lambda>r. txn_id r = tid \<and> g r) f (transactions db) = []"
    using assms(2) by (simp add: update_one_def update_transactions_def)
  then have "update_where (\<lambda>r. txn_id r = tid \<and> g r) f (transactions db) = transactions db"
    by (intro update_where_none) (auto simp: returning_Nil_iff)
  then show ?thesis by (simp add: update_one_def update_transactions_def)
qed

lemma update_one_get:
  assumes "\<And>r. txn_id (f r) = txn_id r"
  shows "getTransaction i (snd (update_one tid g f db)) =
    (if i = tid then map_option (\<lambda>r. if g r then f r else r) (getTransaction i db) else getTransaction i db)"
proof -
  have "getTransaction i (snd (update_one tid g f db)) =
      map_option (\<lambda>r. if txn_id r = tid \<and> g r then f r else r) (getTransaction i db)"
    using assms by (simp add: getTransaction_def update_one_def update_transactions_def find_row_update)
  moreover have "getTransaction i db = Some r \<Longrightarrow> txn_id r = i" for r
    by (auto simp: getTransaction_def dest: find_row_SomeD)
  ultimately show ?thesis by (cases "getTransaction i db") auto
qed

lemma update_one_frame:
  "(\<And>r. identity_columns (f r) = identity_columns r) \<Longrightarrow> lifecycle_frame db (snd (update_one tid g f db))"
  by (simp add: update_one_def case_prod_beta lifecycle_frame_update)

lemma frame_others:
  assumes "lifecycle_frame db db'"
  shows "outbox_events db' = outbox_events db" "outbox_seq db' = outbox_seq db"
    "dead_letter_jobs db' = dead_letter_jobs db" "txn_seq db' = txn_seq db" "dead_seq db' = dead_seq db"
  using assms unfolding lifecycle_frame_def by (metis db.select_convs db.update_convs(1) db.surjective)+

section \<open>Leases\<close>

text \<open>Who is processing a transaction, and whether it may be claimed.\<close>

definition holder :: "db \<Rightarrow> string \<Rightarrow> string option" where
  "holder db tid =
     (case getTransaction tid db of
        Some r \<Rightarrow> if txn_status r = ''PROCESSING'' then processor_instance_id r else None
      | None \<Rightarrow> None)"

definition claimable :: "db \<Rightarrow> string \<Rightarrow> bool" where
  "claimable db tid =
     (case getTransaction tid db of Some r \<Rightarrow> txn_status r = ''ACCEPTED'' | None \<Rightarrow> False)"

lemma owns_holder: "getTransaction tid db = Some r \<Longrightarrow> owns w r \<longleftrightarrow> holder db tid = Some w"
  by (auto simp: owns_def holder_def)

text \<open>
  The contract a worker relies on: claims and releases of named items, where at most one
  owner holds an item, only the holder can release it, and a released item is done.
\<close>

locale lease_store =
  fixes ok :: "'s \<Rightarrow> bool"
    and free :: "'s \<Rightarrow> 'i \<Rightarrow> bool"
    and held_by :: "'s \<Rightarrow> 'i \<Rightarrow> 'w option"
    and claim :: "'i \<Rightarrow> 'w \<Rightarrow> 's \<Rightarrow> bool \<times> 's"
    and release :: "'u \<Rightarrow> 'i \<Rightarrow> 'w \<Rightarrow> 's \<Rightarrow> bool \<times> 's"
    and finishes :: "'u \<Rightarrow> bool"
  assumes claim_wins: "ok s \<Longrightarrow> fst (claim i w s) \<longleftrightarrow> free s i"
    and claim_ok: "ok s \<Longrightarrow> ok (snd (claim i w s))"
    and claim_holds: "ok s \<Longrightarrow> free s i \<Longrightarrow> held_by (snd (claim i w s)) i = Some w"
    and claim_lost: "ok s \<Longrightarrow> \<not> free s i \<Longrightarrow> snd (claim i w s) = s"
    and held_not_free: "ok s \<Longrightarrow> held_by s i = Some w \<Longrightarrow> \<not> free s i"
    and release_iff: "ok s \<Longrightarrow> fst (release u i w s) \<longleftrightarrow> held_by s i = Some w"
    and release_ok: "ok s \<Longrightarrow> ok (snd (release u i w s))"
    and released: "ok s \<Longrightarrow> finishes u \<Longrightarrow> held_by s i = Some w \<Longrightarrow>
      held_by (snd (release u i w s)) i = None \<and> \<not> free (snd (release u i w s)) i"
    and release_lost: "ok s \<Longrightarrow> held_by s i \<noteq> Some w \<Longrightarrow> snd (release u i w s) = s"
begin

primrec claim_all :: "'i \<Rightarrow> 'w list \<Rightarrow> 's \<Rightarrow> bool list \<times> 's" where
  "claim_all i [] s = ([], s)"
| "claim_all i (w # ws) s =
     (let (b, s1) = claim i w s; (bs, s2) = claim_all i ws s1 in (b # bs, s2))"

lemma claim_all_lost:
  "ok s \<Longrightarrow> \<not> free s i \<Longrightarrow> claim_all i ws s = (replicate (length ws) False, s)"
proof (induction ws)
  case (Cons w ws)
  then have "claim i w s = (False, s)"
    using claim_wins claim_lost by (metis prod.collapse)
  with Cons show ?case by simp
qed simp

text \<open>Of any number of workers that claim one free item, the first wins and no other does.\<close>

lemma claim_all_one_winner:
  assumes "ok s" and "free s i"
  shows "fst (claim_all i (w # ws) s) = True # replicate (length ws) False"
    and "held_by (snd (claim_all i (w # ws) s)) i = Some w"
proof -
  obtain s1 where s1: "claim i w s = (True, s1)"
    using assms claim_wins by (metis prod.collapse)
  then have "held_by s1 i = Some w" "ok s1"
    using assms claim_holds claim_ok by (metis snd_conv)+
  moreover from this have "\<not> free s1 i" using held_not_free by blast
  ultimately show "fst (claim_all i (w # ws) s) = True # replicate (length ws) False"
    and "held_by (snd (claim_all i (w # ws) s)) i = Some w"
    using s1 by (simp_all add: claim_all_lost)
qed

text \<open>What is released once is never claimed or released again.\<close>

lemma after_release:
  assumes "ok s" and "finishes u" and "held_by s i = Some w"
  shows "fst (claim_all i ws (snd (release u i w s))) = replicate (length ws) False"
    and "\<not> fst (release u' i v (snd (release u i w s)))"
  using assms released release_ok release_iff by (simp_all add: claim_all_lost)

end

definition claim_txn :: "jsval option \<Rightarrow> int \<Rightarrow> int \<Rightarrow> string \<Rightarrow> string \<Rightarrow> db \<Rightarrow> bool \<times> db" where
  "claim_txn timeline leaseMs now tid w db =
     (let (row, db') = startTransactionProcessing tid w timeline leaseMs now db in (row \<noteq> None, db'))"

definition finish_txn :: "updates \<Rightarrow> int \<Rightarrow> string \<Rightarrow> string \<Rightarrow> db \<Rightarrow> bool \<times> db" where
  "finish_txn u now tid w db =
     (let (row, db') = finalizeTransactionProcessing tid w u now db in (row \<noteq> None, db'))"

definition FINAL_STATUSES :: "string list" where
  "FINAL_STATUSES = [''COMPLETED'', ''DECLINED'', ''FAILED'']"

definition finishing :: "updates \<Rightarrow> bool" where
  "finishing u \<longleftrightarrow> (\<exists>s \<in> set FINAL_STATUSES. u_status u = Some s)"

lemma finishing_status:
  "finishing u \<Longrightarrow> txn_status (apply_updates u now r) \<in> set FINAL_STATUSES"
  by (auto simp: finishing_def apply_updates_def FINAL_STATUSES_def non_empty_def coalesce_val_def)

text \<open>The store honours the contract.\<close>

interpretation txn_lease: lease_store
  unique_txn_ids claimable holder "claim_txn timeline leaseMs now" "\<lambda>u. finish_txn u now'" finishing
  for timeline :: "jsval option" and leaseMs now now' :: int
proof unfold_locales
  fix db tid w u
  assume ok: "unique_txn_ids db"
  show "fst (claim_txn timeline leaseMs now tid w db) = claimable db tid"
    using ok by (auto simp: claim_txn_def as_update_one case_prod_beta update_one_result claimable_def
        split: option.splits)
  show "unique_txn_ids (snd (claim_txn timeline leaseMs now tid w db))"
    using ok frame_unique [OF frame_lifecycle(1)] by (simp add: claim_txn_def case_prod_beta)
  show "claimable db tid \<Longrightarrow> holder (snd (claim_txn timeline leaseMs now tid w db)) tid = Some w"
    by (auto simp: claim_txn_def as_update_one case_prod_beta update_one_get holder_def claimable_def
        set_processing_def split: option.splits)
  show "\<not> claimable db tid \<Longrightarrow> snd (claim_txn timeline leaseMs now tid w db) = db"
    using ok by (auto simp: claim_txn_def as_update_one case_prod_beta claimable_def update_one_result
        intro!: update_one_none split: option.splits)
  show "holder db tid = Some w \<Longrightarrow> \<not> claimable db tid"
    by (auto simp: holder_def claimable_def split: option.splits if_splits)
  show "fst (finish_txn u now' tid w db) = (holder db tid = Some w)"
    using ok by (auto simp: finish_txn_def as_update_one case_prod_beta update_one_result holder_def owns_def
        split: option.splits)
  show "unique_txn_ids (snd (finish_txn u now' tid w db))"
    using ok frame_unique [OF frame_lifecycle(3)] by (simp add: finish_txn_def case_prod_beta)
  show "holder (snd (finish_txn u now' tid w db)) tid = None \<and>
      \<not> claimable (snd (finish_txn u now' tid w db)) tid"
    if fin: "finishing u" and held: "holder db tid = Some w"
  proof -
    obtain r where r: "getTransaction tid db = Some r" "owns w r"
      using held by (auto simp: holder_def owns_def split: option.splits if_splits)
    then have "getTransaction tid (snd (finish_txn u now' tid w db)) =
        Some (clear_processing (apply_updates u now' r))"
      by (simp add: finish_txn_def as_update_one case_prod_beta update_one_get)
    moreover have "txn_status (clear_processing (apply_updates u now' r)) \<in> set FINAL_STATUSES"
      using finishing_status [OF fin] by (simp add: clear_processing_def)
    ultimately show ?thesis by (auto simp: holder_def claimable_def FINAL_STATUSES_def)
  qed
  show "holder db tid \<noteq> Some w \<Longrightarrow> snd (finish_txn u now' tid w db) = db"
    using ok by (auto simp: finish_txn_def as_update_one case_prod_beta holder_def owns_def update_one_result
        intro!: update_one_none split: option.splits if_splits)
qed

section \<open>Recovery\<close>

lemma recover_get:
  "getTransaction tid (snd (recoverStaleProcessingTransactions stale now db)) =
    map_option (\<lambda>r. if expired stale now r then recovered_row now r else r) (getTransaction tid db)"
  by (simp add: recoverStaleProcessingTransactions_def update_transactions_def getTransaction_def
      find_row_update)

lemma live_lease_not_expired:
  "lease_expires_at r = Some t \<Longrightarrow> now \<le> t \<Longrightarrow> \<not> expired stale now r"
  by (simp add: expired_def coalesce_def)

lemma recovered_not_expired: "\<not> expired stale now (recovered_row now' r)"
  by (simp add: expired_def recovered_row_def clear_processing_def)

text \<open>The columns of a lease are set together and cleared together.\<close>

definition lease_columns :: "txn_row \<Rightarrow> bool" where
  "lease_columns r \<longleftrightarrow>
     (if txn_status r = ''PROCESSING''
      then processor_instance_id r \<noteq> None \<and> processing_started_at r \<noteq> None \<and>
           last_heartbeat_at r \<noteq> None \<and> lease_expires_at r \<noteq> None
      else processor_instance_id r = None \<and> processing_started_at r = None \<and>
           last_heartbeat_at r = None \<and> lease_expires_at r = None)"

definition lease_inv :: "db \<Rightarrow> bool" where
  "lease_inv db \<longleftrightarrow> (\<forall>r \<in> set (transactions db). lease_columns r)"

lemma lease_inv_update:
  assumes "lease_inv db" and "\<And>r. p r \<Longrightarrow> lease_columns r \<Longrightarrow> lease_columns (f r)"
  shows "lease_inv (snd (update_transactions p f db))"
  using assms by (auto simp: lease_inv_def update_transactions_def elim!: in_update_whereE)

text \<open>What an update that clears the lease must set: a status other than \<open>PROCESSING\<close>.\<close>

definition settles :: "updates \<Rightarrow> bool" where
  "settles u \<longleftrightarrow> (\<exists>s. u_status u = Some s \<and> s \<noteq> [] \<and> s \<noteq> ''PROCESSING'')"

lemma finishing_settles: "finishing u \<Longrightarrow> settles u"
  by (auto simp: finishing_def settles_def FINAL_STATUSES_def)

lemma lease_columns_cleared:
  "settles u \<Longrightarrow> lease_columns (clear_processing (apply_updates u now r))"
  by (auto simp: lease_columns_def clear_processing_def apply_updates_def settles_def non_empty_def coalesce_val_def)

lemma lease_inv_lifecycle:
  assumes "lease_inv db"
  shows "lease_inv (snd (startTransactionProcessing tid w steps lease now db))"
    and "lease_inv (snd (renewTransactionProcessingLease tid w lease now db))"
    and "settles u \<Longrightarrow> lease_inv (snd (finalizeTransactionProcessing tid w u now db))"
    and "lease_inv (snd (recoverStaleProcessingTransactions stale now db))"
    and "settles u \<Longrightarrow> u_clearProcessing u \<Longrightarrow> lease_inv (snd (updateTransaction tid u now db))"
  using assms
  by (simp_all add: startTransactionProcessing_def renewTransactionProcessingLease_def
      finalizeTransactionProcessing_def recoverStaleProcessingTransactions_def updateTransaction_def
      case_prod_beta Let_def lease_inv_update lease_columns_cleared)
    (auto intro!: lease_inv_update simp: lease_columns_def set_processing_def renew_def owns_def
      recovered_row_def clear_processing_def)

section \<open>Properties\<close>

definition sample_row :: "string \<Rightarrow> string \<Rightarrow> txn_row" where
  "sample_row tid status =
     \<lparr>row_id = 1, txn_id = tid, correlation_id = ''N/A'', client_id = Some ''client'',
      idempotency_key = Some ''k'', request_hash = Some ''h'', txn_amount = ''5'', txn_channel = ''ECOM'',
      card_last4 = None, card_fingerprint = None, txn_status = status, received_at = 0, updated_at = 0,
      from_account = None, to_account = None, txn_type = None, retry_count = 0, worker_id = None,
      processing_started_at = None, processor_instance_id = None, last_heartbeat_at = None,
      lease_expires_at = None, txn_route = None, txn_reason = None, txn_result = None,
      processing_timeline = Some (JArr [])\<rparr>"

definition sample_db :: "txn_row list \<Rightarrow> db" where
  "sample_db rows = empty_db\<lparr>transactions := rows\<rparr>"

text \<open>A transaction that \<open>w\<close> holds until \<open>t\<close>.\<close>

definition held_row :: "string \<Rightarrow> string \<Rightarrow> int \<Rightarrow> txn_row" where
  "held_row tid w t = (sample_row tid ''PROCESSING'')\<lparr>processing_started_at := Some 0,
     processor_instance_id := Some w, last_heartbeat_at := Some 0, lease_expires_at := Some t\<rparr>"

primrec claims_of ::
  "jsval option \<Rightarrow> int \<Rightarrow> string \<Rightarrow> (string \<times> int) list \<Rightarrow> db \<Rightarrow> txn_row option list \<times> db" where
  "claims_of timeline leaseMs tid [] db = ([], db)"
| "claims_of timeline leaseMs tid (c # cs) db =
     (let (row, db1) = startTransactionProcessing tid (fst c) timeline leaseMs (snd c) db;
          (rows, db2) = claims_of timeline leaseMs tid cs db1
      in (row # rows, db2))"

lemma start_taken:
  assumes "unique_txn_ids db" and "\<not> claimable db tid"
  shows "startTransactionProcessing tid w timeline leaseMs now db = (None, db)"
proof -
  have "\<not> fst (claim_txn timeline leaseMs now tid w db)" "snd (claim_txn timeline leaseMs now tid w db) = db"
    using txn_lease.claim_wins [OF assms(1)] txn_lease.claim_lost [OF assms] assms(2) by auto
  then show ?thesis by (auto simp: claim_txn_def prod_eq_iff case_prod_beta)
qed

lemma claims_taken:
  "unique_txn_ids db \<Longrightarrow> \<not> claimable db tid \<Longrightarrow>
    claims_of timeline leaseMs tid cs db = (replicate (length cs) None, db)"
  by (induction cs) (simp_all add: start_taken)

text \<open>Of any number of workers that claim one accepted transaction, each at its own time, the
  first wins and every other gets nothing, and the winner then holds the lease.\<close>

lemma one_claim_wins:
  assumes "unique_txn_ids db" and "claimable db tid"
  shows "\<exists>row. fst (claims_of timeline leaseMs tid ((w, now) # cs) db) = Some row # replicate (length cs) None \<and>
    txn_status row = ''PROCESSING'' \<and> processor_instance_id row = Some w \<and>
    lease_expires_at row = Some (now + millis leaseMs) \<and>
    holder (snd (claims_of timeline leaseMs tid ((w, now) # cs) db)) tid = Some w"
proof -
  obtain r where r: "getTransaction tid db = Some r" "txn_status r = ''ACCEPTED''"
    using assms(2) by (auto simp: claimable_def split: option.splits)
  let ?row = "set_processing w timeline leaseMs now r"
  let ?db1 = "snd (startTransactionProcessing tid w timeline leaseMs now db)"
  have won: "fst (startTransactionProcessing tid w timeline leaseMs now db) = Some ?row"
    using r assms(1) by (simp add: as_update_one update_one_result)
  have ok: "unique_txn_ids ?db1" using assms(1) frame_unique [OF frame_lifecycle(1)] by simp
  have held: "holder ?db1 tid = Some w"
    using txn_lease.claim_holds [OF assms] by (simp add: claim_txn_def case_prod_beta)
  then have "\<not> claimable ?db1 tid" using txn_lease.held_not_free [OF ok] by blast
  with won ok held show ?thesis
    by (intro exI [of _ ?row]) (simp add: case_prod_beta Let_def claims_taken, simp add: set_processing_def)
qed

text \<open>C10: Fencing. A worker that does not hold the lease of a transaction cannot store an outcome
  for it or extend the lease: both statements return nothing and write nothing. The holder's
  outcome is stored, and afterwards nobody can claim or finalize the transaction again.\<close>

theorem lease_fencing:
  assumes "unique_txn_ids db"
  shows "(holder db tid \<noteq> Some w \<longrightarrow>
      finalizeTransactionProcessing tid w u now db = (None, db) \<and>
      renewTransactionProcessingLease tid w leaseMs now db = (None, db)) \<and>
    (holder db tid = Some w \<and> finishing u \<longrightarrow>
      (\<exists>row. fst (finalizeTransactionProcessing tid w u now db) = Some row \<and>
        Some (txn_status row) = u_status u \<and> lease_columns row) \<and>
      (\<forall>v u' t leaseMs timeline.
        fst (finalizeTransactionProcessing tid v u' t (snd (finalizeTransactionProcessing tid w u now db))) = None \<and>
        fst (startTransactionProcessing tid v timeline leaseMs t
          (snd (finalizeTransactionProcessing tid w u now db))) = None))"
proof (intro conjI impI)
  assume lost: "holder db tid \<noteq> Some w"
  have none: "fst (update_one tid (owns w) f db) = None" for f
    using assms lost by (auto simp: update_one_result holder_def owns_def split: option.splits if_splits)
  show "finalizeTransactionProcessing tid w u now db = (None, db)"
    using none update_one_none [OF assms none] by (simp add: as_update_one prod_eq_iff)
  show "renewTransactionProcessingLease tid w leaseMs now db = (None, db)"
    using none update_one_none [OF assms none] by (simp add: as_update_one prod_eq_iff)
next
  assume held: "holder db tid = Some w \<and> finishing u"
  then obtain r where r: "getTransaction tid db = Some r" "owns w r"
    by (auto simp: holder_def owns_def split: option.splits if_splits)
  obtain st where st: "u_status u = Some st" "st \<in> set FINAL_STATUSES" using held by (auto simp: finishing_def)
  have "fst (finalizeTransactionProcessing tid w u now db) = Some (clear_processing (apply_updates u now r))"
    using r assms by (simp add: as_update_one update_one_result)
  moreover have "txn_status (clear_processing (apply_updates u now r)) = st"
    using st by (auto simp: clear_processing_def apply_updates_def FINAL_STATUSES_def non_empty_def coalesce_val_def)
  moreover have "lease_columns (clear_processing (apply_updates u now r))"
    using held lease_columns_cleared finishing_settles by blast
  ultimately show "\<exists>row. fst (finalizeTransactionProcessing tid w u now db) = Some row \<and>
      Some (txn_status row) = u_status u \<and> lease_columns row" using st by simp
  let ?db = "snd (finalizeTransactionProcessing tid w u now db)"
  have ok: "unique_txn_ids ?db" using assms frame_unique [OF frame_lifecycle(3)] by simp
  have gone: "holder ?db tid = None" "\<not> claimable ?db tid"
    using txn_lease.released [OF assms] held by (simp_all add: finish_txn_def case_prod_beta)
  show "\<forall>v u' t leaseMs timeline.
      fst (finalizeTransactionProcessing tid v u' t ?db) = None \<and>
      fst (startTransactionProcessing tid v timeline leaseMs t ?db) = None"
  proof (intro allI conjI)
    fix v u' t leaseMs timeline
    show "fst (finalizeTransactionProcessing tid v u' t ?db) = None"
      using txn_lease.release_iff [OF ok, where now' = t and u = u' and i = tid and w = v] gone(1)
      by (simp add: finish_txn_def case_prod_beta)
    show "fst (startTransactionProcessing tid v timeline leaseMs t ?db) = None"
      using start_taken [OF ok gone(2)] by simp
  qed
qed

theorem lease_fencing_witness:
  "finalizeTransactionProcessing ''t'' ''w2'' (no_updates\<lparr>u_status := Some ''COMPLETED''\<rparr>) 5
      (sample_db [held_row ''t'' ''w1'' 100]) = (None, sample_db [held_row ''t'' ''w1'' 100])"
proof -
  have "unique_txn_ids (sample_db [held_row ''t'' ''w1'' 100])"
    "holder (sample_db [held_row ''t'' ''w1'' 100]) ''t'' \<noteq> Some ''w2''"
    by (simp_all add: unique_txn_ids_def sample_db_def holder_def getTransaction_def held_row_def sample_row_def)
  with lease_fencing [OF this(1), of "''t''" "''w2''"] show ?thesis by blast
qed

text \<open>C16: Recovery takes back exactly the transactions whose lease has passed: a transaction with a
  live lease, or in another state, is left as it is; an expired one becomes \<open>ACCEPTED\<close>
  with all lease columns cleared, and is then claimable again; what is returned names exactly
  the transactions taken back with their last holder.\<close>

theorem recovery_exact:
  "getTransaction tid (snd (recoverStaleProcessingTransactions stale now db)) =
      map_option (\<lambda>r. if expired stale now r then recovered_row now r else r) (getTransaction tid db) \<and>
   (\<forall>r t. lease_expires_at r = Some t \<longrightarrow>
      (expired stale now r \<longleftrightarrow> txn_status r = ''PROCESSING'' \<and> t < now)) \<and>
   (\<forall>r. txn_status (recovered_row now r) = ''ACCEPTED'' \<and> lease_columns (recovered_row now r) \<and>
      identity_columns (recovered_row now r) = identity_columns r) \<and>
   set (fst (recoverStaleProcessingTransactions stale now db)) =
      {(txn_id r, processor_instance_id r) | r. r \<in> set (transactions db) \<and> expired stale now r}"
proof (intro conjI allI impI)
  show "getTransaction tid (snd (recoverStaleProcessingTransactions stale now db)) =
      map_option (\<lambda>r. if expired stale now r then recovered_row now r else r) (getTransaction tid db)"
    by (rule recover_get)
  show "set (fst (recoverStaleProcessingTransactions stale now db)) =
      {(txn_id r, processor_instance_id r) | r. r \<in> set (transactions db) \<and> expired stale now r}"
    by (auto simp: recoverStaleProcessingTransactions_def)
qed (simp_all add: expired_def coalesce_def lease_columns_def, simp_all add: recovered_row_def clear_processing_def)

theorem recovery_exact_witness:
  "\<not> expired 0 100 (held_row ''t'' ''w1'' 100) \<and> expired 0 101 (held_row ''t'' ''w1'' 100)"
proof -
  have "lease_expires_at (held_row ''t'' ''w1'' 100) = Some 100" "txn_status (held_row ''t'' ''w1'' 100) = ''PROCESSING''"
    by (simp_all add: held_row_def sample_row_def)
  then show ?thesis
    using recovery_exact [of "''t''" 0 100 empty_db] recovery_exact [of "''t''" 0 101 empty_db] by simp
qed

text \<open>The lease columns of every transaction stay consistent (all set while it is
  \<open>PROCESSING\<close>, all clear otherwise) under every statement of the lifecycle, where an update
  that clears the lease sets a status other than \<open>PROCESSING\<close>.\<close>

lemma lease_columns_consistent:
  assumes "lease_inv db"
  shows "lease_inv (snd (startTransactionProcessing tid w timeline leaseMs now db)) \<and>
    lease_inv (snd (renewTransactionProcessingLease tid w leaseMs now db)) \<and>
    (settles u \<longrightarrow> lease_inv (snd (finalizeTransactionProcessing tid w u now db))) \<and>
    lease_inv (snd (recoverStaleProcessingTransactions stale now db)) \<and>
    (settles u \<and> u_clearProcessing u \<longrightarrow> lease_inv (snd (updateTransaction tid u now db)))"
  using lease_inv_lifecycle [OF assms] by blast

end
