(* ===== verification/Store.thy ===== *)
theory Store
  imports Tables
begin

text \<open>
  \<open>store/store.js\<close>, first part: accepting a transaction together with its outbox event, and
  the dead letters. One call is one atomic step of the database: a single statement, or a
  block from \<open>BEGIN\<close> to \<open>COMMIT\<close> whose contended insert is guarded by a unique index.
\<close>

section \<open>Accepting a transaction\<close>

definition outbox_insert :: "int \<Rightarrow> string \<Rightarrow> jsval \<Rightarrow> db \<Rightarrow> outbox_row option \<times> db" where
  "outbox_insert now tid payload db =
     (let event =
       \<lparr>ob_id = outbox_seq db, ob_txn_id = tid, ob_event_type = ''TRANSACTION_ACCEPTED'',
        ob_payload = payload, ob_status = ''PENDING'', ob_attempts = 0, ob_claim_count = 0,
        ob_recovery_count = 0, ob_claimed_at = None, ob_locked_by = None, ob_last_error = None,
        ob_created_at = now, ob_updated_at = now\<rparr>;
          db = db\<lparr>outbox_seq := outbox_seq db + 1\<rparr>
      in if tid \<in> ob_txn_id ` set (outbox_events db) then (None, db)
         else (Some event, db\<lparr>outbox_events := outbox_events db @ [event]\<rparr>))"

definition insertOutboxEvent ::
  "(string \<Rightarrow> string \<Rightarrow> string) \<Rightarrow> env \<Rightarrow> pg \<Rightarrow> int \<Rightarrow> jsval \<Rightarrow> db \<Rightarrow> (outbox_row option \<times> db) result" where
  "insertOutboxEvent hmac env pg now txn db =
     and_then (sanitizePayload hmac env txn) (\<lambda>safePayload.
     and_then (not_null (bind_text pg (field txn ''id''))) (\<lambda>tid.
     and_then (not_null (to_json safePayload)) (\<lambda>payload.
     if \<not> json_fits pg payload then Inl (DbError ''unsupported Unicode escape sequence'')
     else Inr (outbox_insert now tid payload db))))"

definition transaction_values :: "pg \<Rightarrow> int \<Rightarrow> int \<Rightarrow> jsval \<Rightarrow> txn_row result" where
  "transaction_values pg now seq safeTxn =
     (let text = (\<lambda>k. bind_text pg (or_null (field safeTxn k))) in
      and_then (not_null (bind_text pg (field safeTxn ''id''))) (\<lambda>tid.
      and_then (not_null (bind_text pg (js_or (field safeTxn ''correlationId'') (JStr ''N/A'')))) (\<lambda>corr.
      and_then (not_null (bind_text pg (field safeTxn ''amount''))) (\<lambda>amt.
      and_then (not_null (bind_text pg (field safeTxn ''channel''))) (\<lambda>chan.
      and_then (not_null (bind_text pg (js_or (field safeTxn ''status'') (JStr ''ACCEPTED'')))) (\<lambda>st.
      and_then (not_null (bind_int pg (js_or (field safeTxn ''retryCount'') (JInt 0)))) (\<lambda>retries.
      Inr
       \<lparr>row_id = seq, txn_id = tid, correlation_id = corr, client_id = text ''clientId'',
        idempotency_key = text ''idempotencyKey'', request_hash = text ''requestHash'',
        txn_amount = amt, txn_channel = chan, card_last4 = text ''cardLast4'',
        card_fingerprint = text ''cardFingerprint'', txn_status = st,
        received_at = now, updated_at = now,
        from_account = text ''fromAccount'', to_account = text ''toAccount'',
        txn_type = text ''type'', retry_count = retries, worker_id = None,
        processing_started_at = None, processor_instance_id = None,
        last_heartbeat_at = None, lease_expires_at = None,
        txn_route = None, txn_reason = None, txn_result = None,
        processing_timeline = to_json (js_or (field safeTxn ''processingTimeline'') (JArr []))\<rparr>)))))))"

text \<open>The row that holds a key under the partial unique index.\<close>

definition find_by_key :: "string option \<Rightarrow> db \<Rightarrow> txn_row option" where
  "find_by_key k db =
     (case k of None \<Rightarrow> None | Some _ \<Rightarrow> find_row idempotency_key k (transactions db))"

datatype insert_outcome = Inserted db | KeyTaken db

definition insert_transaction :: "pg \<Rightarrow> txn_row \<Rightarrow> db \<Rightarrow> insert_outcome result" where
  "insert_transaction pg row db =
     (let db = db\<lparr>txn_seq := txn_seq db + 1\<rparr> in
      if \<not> row_fits pg row then Inl (DbError ''value out of range for its column'')
      else if find_by_key (idempotency_key row) db \<noteq> None then Inr (KeyTaken db)
      else if txn_id row \<in> txn_id ` set (transactions db) then
        Inl (DbError ''duplicate key value violates unique constraint'')
      else Inr (Inserted (db\<lparr>transactions := transactions db @ [row]\<rparr>)))"

record save_result =
  inserted :: bool
  conflict :: bool
  saved_transaction :: "txn_row option"
  saved_event :: "outbox_row option"

fun opt_js :: "string option \<Rightarrow> jsval" where
  "opt_js None = JNull"
| "opt_js (Some s) = JStr s"

text \<open>
  The statements between \<open>BEGIN\<close> and \<open>COMMIT\<close>; a throw leads to \<open>ROLLBACK\<close>, which
  restores the tables (sequences are not transactional and may have advanced).
\<close>

definition save_in_transaction ::
  "(string \<Rightarrow> string \<Rightarrow> string) \<Rightarrow> env \<Rightarrow> pg \<Rightarrow> int \<Rightarrow> jsval \<Rightarrow> jsval \<Rightarrow> db \<Rightarrow> (save_result \<times> db) result" where
  "save_in_transaction hmac env pg now txn safeTxn db =
     and_then (transaction_values pg now (txn_seq db) safeTxn) (\<lambda>row.
     and_then (insert_transaction pg row db) (\<lambda>outcome.
       case outcome of
         KeyTaken db1 \<Rightarrow>
           let existing = find_by_key (bind_text pg (field txn ''idempotencyKey'')) db1 in
           Inr (\<lparr>inserted = False,
                 conflict = (case existing of None \<Rightarrow> True
                   | Some r \<Rightarrow> opt_js (request_hash r) \<noteq> field txn ''requestHash''),
                 saved_transaction = existing, saved_event = None\<rparr>, db1)
       | Inserted db1 \<Rightarrow>
           and_then (insertOutboxEvent hmac env pg now safeTxn db1) (\<lambda>(event, db2).
           Inr (\<lparr>inserted = True, conflict = False, saved_transaction = Some row, saved_event = event\<rparr>, db2))))"

definition rolled_back :: "db \<Rightarrow> db" where
  "rolled_back db = db\<lparr>txn_seq := txn_seq db + 1\<rparr>"

definition saveTransactionWithOutbox ::
  "(string \<Rightarrow> string \<Rightarrow> string) \<Rightarrow> env \<Rightarrow> pg \<Rightarrow> int \<Rightarrow> jsval \<Rightarrow> db \<Rightarrow> save_result result \<times> db" where
  "saveTransactionWithOutbox hmac env pg now txn db =
     (case sanitizeTransactionForPersistence hmac env txn of
        Inl e \<Rightarrow> (Inl e, db)
      | Inr safeTxn \<Rightarrow>
          (case save_in_transaction hmac env pg now txn safeTxn db of
             Inl e \<Rightarrow> (Inl e, rolled_back db)
           | Inr (res, db') \<Rightarrow> (Inr res, db')))"

section \<open>Dead letters\<close>

record job =
  job_id :: string
  job_data :: jsval
  job_queue :: string
  job_attemptsMade :: int
  job_attempts :: int

definition upsert_dead :: "dead_row \<Rightarrow> dead_row list \<Rightarrow> dead_row list" where
  "upsert_dead d rows =
     (if dl_job_id d \<in> dl_job_id ` set rows then
        update_where (\<lambda>r. dl_job_id r = dl_job_id d)
          (\<lambda>r. r\<lparr>dl_failed_reason := dl_failed_reason d, dl_attempts_made := dl_attempts_made d,
             dl_payload := dl_payload d, dl_failed_at := dl_failed_at d\<rparr>) rows
      else rows @ [d])"

text \<open>The row of a failed job, if its data can be sanitized and stored.\<close>

definition dead_letter_row ::
  "(string \<Rightarrow> string \<Rightarrow> string) \<Rightarrow> env \<Rightarrow> pg \<Rightarrow> int \<Rightarrow> job \<Rightarrow> string \<Rightarrow> db \<Rightarrow> dead_row result" where
  "dead_letter_row hmac env pg now job message db =
     and_then (sanitizePayload hmac env (js_or (job_data job) (JObj []))) (\<lambda>txn.
     and_then (not_null (to_json txn)) (\<lambda>payload.
     let d = \<lparr>dl_id = dead_seq db, dl_job_id = job_id job,
              dl_txn_id = bind_text pg (or_null (field txn ''id'')),
              dl_queue_name = job_queue job, dl_payload = payload,
              dl_failed_reason = redact message,
              dl_attempts_made = job_attemptsMade job, dl_failed_at = now\<rparr>
     in if dead_fits pg d then Inr d else Inl (DbError ''value out of range for its column'')))"

definition saveDeadLetterJob ::
  "(string \<Rightarrow> string \<Rightarrow> string) \<Rightarrow> env \<Rightarrow> pg \<Rightarrow> int \<Rightarrow> job \<Rightarrow> string \<Rightarrow> db \<Rightarrow> dead_row option result \<times> db" where
  "saveDeadLetterJob hmac env pg now job message db =
     (case dead_letter_row hmac env pg now job message db of
        Inl e \<Rightarrow> (Inl e, db)
      | Inr d \<Rightarrow>
          let rows = upsert_dead d (dead_letter_jobs db) in
          (Inr (find_row dl_job_id (job_id job) rows),
           db\<lparr>dead_letter_jobs := rows, dead_seq := dead_seq db + 1\<rparr>))"

definition getDeadLetterJobs :: "db \<Rightarrow> dead_row list" where
  "getDeadLetterJobs db = take 100 (sort_key (\<lambda>r. - dl_failed_at r) (dead_letter_jobs db))"

section \<open>The invariant of the tables\<close>

definition txn_ids :: "db \<Rightarrow> string set" where
  "txn_ids db = txn_id ` set (transactions db)"

text \<open>
  What the unique constraints and the transaction around the two inserts give: ids are
  unique, no idempotency key is held twice, every transaction has its one outbox event,
  and the sequence of the outbox is ahead of every event.
\<close>

definition store_inv :: "db \<Rightarrow> bool" where
  "store_inv db \<longleftrightarrow>
     distinct (map txn_id (transactions db)) \<and>
     distinct (filter (\<lambda>k. k \<noteq> None) (map idempotency_key (transactions db))) \<and>
     distinct (map ob_txn_id (outbox_events db)) \<and>
     txn_ids db \<subseteq> ob_txn_id ` set (outbox_events db) \<and>
     sorted_wrt (<) (map ob_id (outbox_events db)) \<and>
     (\<forall>e \<in> set (outbox_events db). ob_id e < outbox_seq db)"

lemma store_inv_empty: "store_inv empty_db"
  by (simp add: store_inv_def empty_db_def txn_ids_def)

lemma store_inv_outbox_insert:
  assumes "store_inv db"
  shows "store_inv (snd (outbox_insert now tid payload db))"
  using assms
  by (force simp: store_inv_def outbox_insert_def Let_def txn_ids_def sorted_wrt_append image_iff)

lemma outbox_insert_covers:
  "tid \<in> ob_txn_id ` set (outbox_events (snd (outbox_insert now tid payload db)))"
  by (auto simp: outbox_insert_def Let_def)

lemma outbox_insert_frame:
  "transactions (snd (outbox_insert now tid payload db)) = transactions db"
  "dead_letter_jobs (snd (outbox_insert now tid payload db)) = dead_letter_jobs db"
  "set (outbox_events db) \<subseteq> set (outbox_events (snd (outbox_insert now tid payload db)))"
  by (auto simp: outbox_insert_def Let_def)

lemma find_by_key_None:
  "find_by_key (Some k) db = None \<longleftrightarrow> Some k \<notin> idempotency_key ` set (transactions db)"
  by (simp add: find_by_key_def find_row_None)

lemma insert_transaction_Inserted:
  assumes "insert_transaction pg row db = Inr (Inserted db')"
  shows "db' = db\<lparr>transactions := transactions db @ [row], txn_seq := txn_seq db + 1\<rparr>"
    and "find_by_key (idempotency_key row) db = None"
    and "txn_id row \<notin> txn_ids db" and "row_fits pg row"
  using assms
  by (auto simp: insert_transaction_def Let_def find_by_key_def txn_ids_def split: if_splits option.splits)

lemma insert_transaction_KeyTaken:
  "insert_transaction pg row db = Inr (KeyTaken db') \<longleftrightarrow>
    db' = db\<lparr>txn_seq := txn_seq db + 1\<rparr> \<and> row_fits pg row \<and> find_by_key (idempotency_key row) db \<noteq> None"
  by (auto simp: insert_transaction_def Let_def find_by_key_def split: if_splits option.splits)

lemma insertOutboxEvent_Inr:
  assumes "insertOutboxEvent hmac env pg now txn db = Inr (e, db')"
  obtains tid safe payload where "bind_text pg (field txn ''id'') = Some tid"
    and "sanitizePayload hmac env txn = Inr safe" and "to_json safe = Some payload"
    and "(e, db') = outbox_insert now tid payload db"
proof -
  from assms obtain safe tid payload where "sanitizePayload hmac env txn = Inr safe"
    "bind_text pg (field txn ''id'') = Some tid" "to_json safe = Some payload"
    "outbox_insert now tid payload db = (e, db')"
    by (auto simp: insertOutboxEvent_def and_then_Inr_iff not_null_def split: option.splits if_splits)
  then show thesis by (intro that [of tid safe payload]) simp_all
qed

text \<open>The save is all or nothing: it adds a transaction with its event, or no row at all.\<close>

lemma transaction_values_id:
  "transaction_values pg now seq safe = Inr row \<Longrightarrow>
    bind_text pg (field safe ''id'') = Some (txn_id row) \<and>
    idempotency_key row = bind_text pg (or_null (field safe ''idempotencyKey'')) \<and>
    request_hash row = bind_text pg (or_null (field safe ''requestHash'')) \<and>
    client_id row = bind_text pg (or_null (field safe ''clientId''))"
  by (auto simp: transaction_values_def and_then_Inr_iff not_null_def Let_def split: option.splits)

lemma save_in_transaction_cases:
  assumes "save_in_transaction hmac env pg now txn safe db = Inr (res, db')"
  obtains (accepted) row sent payload where
      "transaction_values pg now (txn_seq db) safe = Inr row"
      "sanitizePayload hmac env safe = Inr sent" "to_json sent = Some payload"
      "find_by_key (idempotency_key row) db = None" "txn_id row \<notin> txn_ids db" "row_fits pg row"
      "inserted res" "\<not> conflict res" "saved_transaction res = Some row"
      "(saved_event res, db') = outbox_insert now (txn_id row) payload
         (db\<lparr>transactions := transactions db @ [row], txn_seq := txn_seq db + 1\<rparr>)"
  | (duplicate) row where
      "transaction_values pg now (txn_seq db) safe = Inr row"
      "find_by_key (idempotency_key row) db \<noteq> None" "row_fits pg row"
      "\<not> inserted res" "saved_event res = None"
      "saved_transaction res = find_by_key (bind_text pg (field txn ''idempotencyKey'')) db"
      "conflict res = (case saved_transaction res of None \<Rightarrow> True
         | Some r \<Rightarrow> opt_js (request_hash r) \<noteq> field txn ''requestHash'')"
      "db' = db\<lparr>txn_seq := txn_seq db + 1\<rparr>"
proof -
  from assms obtain row outcome where row: "transaction_values pg now (txn_seq db) safe = Inr row"
    and ins: "insert_transaction pg row db = Inr outcome"
    by (auto simp: save_in_transaction_def and_then_Inr_iff)
  show thesis
  proof (cases outcome)
    case (KeyTaken db1)
    have key: "find_by_key k (db\<lparr>txn_seq := n\<rparr>) = find_by_key k db" for k n
      by (simp add: find_by_key_def split: option.split)
    from KeyTaken ins have "db1 = db\<lparr>txn_seq := txn_seq db + 1\<rparr>" "row_fits pg row"
      "find_by_key (idempotency_key row) db \<noteq> None"
      by (simp_all add: insert_transaction_KeyTaken)
    with assms row ins KeyTaken key show thesis
      by (intro duplicate [of row]) (auto simp: save_in_transaction_def Let_def)
  next
    case (Inserted db1)
    from assms row ins Inserted obtain e where
      ev: "insertOutboxEvent hmac env pg now safe db1 = Inr (e, db')" and
      res: "res = \<lparr>inserted = True, conflict = False, saved_transaction = Some row, saved_event = e\<rparr>"
      by (auto simp: save_in_transaction_def and_then_Inr_iff)
    from ev obtain tid sent payload where "bind_text pg (field safe ''id'') = Some tid"
      "sanitizePayload hmac env safe = Inr sent" "to_json sent = Some payload"
      "(e, db') = outbox_insert now tid payload db1" by (rule insertOutboxEvent_Inr)
    with transaction_values_id [OF row] res row ins Inserted show thesis
      by (intro accepted [of row sent payload]) (auto dest: insert_transaction_Inserted)
  qed
qed

lemma store_inv_save_in_transaction:
  assumes "store_inv db" and "save_in_transaction hmac env pg now txn safe db = Inr (res, db')"
  shows "store_inv db'"
  using assms(2)
proof (cases rule: save_in_transaction_cases)
  case (accepted row sent payload)
  let ?db = "db\<lparr>outbox_events := outbox_events db', outbox_seq := outbox_seq db'\<rparr>"
  have snd: "db' = snd (outbox_insert now (txn_id row) payload
      (db\<lparr>transactions := transactions db @ [row], txn_seq := txn_seq db + 1\<rparr>))"
    using accepted(10) by (metis snd_conv)
  have "?db = snd (outbox_insert now (txn_id row) payload db)"
    using snd by (auto simp: outbox_insert_def Let_def)
  then have inv: "store_inv ?db" using assms(1) store_inv_outbox_insert by metis
  have "txn_id row \<in> ob_txn_id ` set (outbox_events db')"
    using snd outbox_insert_covers by metis
  moreover have "transactions db' = transactions db @ [row]"
    using snd by (simp add: outbox_insert_frame)
  moreover have "idempotency_key row \<noteq> None \<Longrightarrow> idempotency_key row \<notin> idempotency_key ` set (transactions db)"
    using accepted(4) by (cases "idempotency_key row") (simp_all add: find_by_key_None)
  ultimately show ?thesis
    using inv accepted(5) by (auto simp: store_inv_def txn_ids_def)
next
  case (duplicate row)
  with assms(1) show ?thesis by (simp add: store_inv_def txn_ids_def)
qed

lemma store_inv_save:
  assumes "store_inv db"
  shows "store_inv (snd (saveTransactionWithOutbox hmac env pg now txn db))"
proof (cases "sanitizeTransactionForPersistence hmac env txn")
  case (Inl e)
  with assms show ?thesis by (simp add: saveTransactionWithOutbox_def)
next
  case (Inr safe)
  show ?thesis
  proof (cases "save_in_transaction hmac env pg now txn safe db")
    case (Inl e)
    have "store_inv (rolled_back db)"
      using assms by (simp add: rolled_back_def store_inv_def txn_ids_def)
    with Inl Inr show ?thesis by (simp add: saveTransactionWithOutbox_def)
  next
    case saved: (Inr x)
    obtain res db' where "x = (res, db')" by (cases x)
    with saved Inr assms show ?thesis
      using store_inv_save_in_transaction by (simp add: saveTransactionWithOutbox_def)
  qed
qed

section \<open>Idempotency\<close>

definition str_field :: "jsval \<Rightarrow> string \<Rightarrow> string" where
  "str_field txn k = (case field txn k of JStr s \<Rightarrow> s | _ \<Rightarrow> [])"

text \<open>
  A transaction as the API builds it, that the database has no reason to refuse: its id,
  its key and its hash are non-empty strings, and the values fit their columns.
\<close>

definition storable :: "(string \<Rightarrow> string \<Rightarrow> string) \<Rightarrow> env \<Rightarrow> pg \<Rightarrow> int \<Rightarrow> jsval \<Rightarrow> bool" where
  "storable hmac env pg now txn \<longleftrightarrow>
     pg_laws pg \<and>
     (\<exists>ps. txn = JObj ps \<and> distinct (map fst ps)) \<and>
     str_field txn ''id'' \<noteq> [] \<and> str_field txn ''idempotencyKey'' \<noteq> [] \<and> str_field txn ''requestHash'' \<noteq> [] \<and>
     (\<exists>safe. sanitizeTransactionForPersistence hmac env txn = Inr safe \<and>
       (\<forall>payload. to_json safe = Some payload \<longrightarrow> json_fits pg payload) \<and>
       (\<forall>seq. \<exists>row. transaction_values pg now seq safe = Inr row \<and> row_fits pg row))"

lemma str_field_JStr: "str_field txn k \<noteq> [] \<Longrightarrow> field txn k = JStr (str_field txn k)"
  by (auto simp: str_field_def split: jsval.splits)

lemma storableE:
  assumes "storable hmac env pg now txn"
  obtains safe row where "sanitizeTransactionForPersistence hmac env txn = Inr safe"
    and "is_object safe" "clean safe" "well_ordered safe"
    and "transaction_values pg now seq safe = Inr row" "row_fits pg row"
    and "txn_id row = str_field txn ''id''"
    and "idempotency_key row = Some (str_field txn ''idempotencyKey'')"
    and "request_hash row = Some (str_field txn ''requestHash'')"
    and "bind_text pg (field txn ''idempotencyKey'') = Some (str_field txn ''idempotencyKey'')"
    and "bind_text pg (field safe ''id'') = Some (str_field txn ''id'')"
    and "\<And>payload. to_json safe = Some payload \<Longrightarrow> json_fits pg payload"
proof -
  from assms obtain ps safe row where txn: "txn = JObj ps" "distinct (map fst ps)"
    and pg: "pg_laws pg"
    and safe: "sanitizeTransactionForPersistence hmac env txn = Inr safe"
    and row: "transaction_values pg now seq safe = Inr row" "row_fits pg row"
    and fits: "\<And>payload. to_json safe = Some payload \<Longrightarrow> json_fits pg payload"
    by (auto simp: storable_def) blast
  have kept: "field safe k = JStr (str_field txn k)"
    if "str_field txn k \<noteq> []" "\<not> derived_key k" "\<not> sensitive_key k" "k \<noteq> ''__proto__''" for k
    using sanitize_prop [OF safe [unfolded txn(1)] txn(2) that(2-4)] str_field_JStr [OF that(1)] txn(1)
    by (simp add: field_def)
  have nonempty: "str_field txn ''id'' \<noteq> []" "str_field txn ''idempotencyKey'' \<noteq> []"
    "str_field txn ''requestHash'' \<noteq> []"
    using assms by (simp_all add: storable_def)
  have fields: "field safe ''id'' = JStr (str_field txn ''id'')"
    "field safe ''idempotencyKey'' = JStr (str_field txn ''idempotencyKey'')"
    "field safe ''requestHash'' = JStr (str_field txn ''requestHash'')"
    using nonempty by (simp_all add: kept derived_key_def sensitive_key_def)
  from txn safe obtain qs where "safe = JObj qs" by (blast elim: sanitize_JObj)
  then have "is_object safe" by simp
  moreover have "bind_text pg (JStr s) = Some s" for s using pg by (simp add: pg_laws_def)
  moreover note fields transaction_values_id [OF row(1)] sanitized_clean [OF safe] safe row
  moreover note nonempty
  moreover note fits
  ultimately show thesis
    using that [of safe row] str_field_JStr [of txn "''idempotencyKey''"]
    by (simp add: or_null_def js_or_def)
qed

lemma save_taken:
  assumes "storable hmac env pg now txn"
    and "find_by_key (Some (str_field txn ''idempotencyKey'')) db = Some r"
  shows "saveTransactionWithOutbox hmac env pg now txn db =
    (Inr \<lparr>inserted = False, conflict = (request_hash r \<noteq> Some (str_field txn ''requestHash'')),
          saved_transaction = Some r, saved_event = None\<rparr>, db\<lparr>txn_seq := txn_seq db + 1\<rparr>)"
proof -
  from assms(1) have "field txn ''requestHash'' = JStr (str_field txn ''requestHash'')"
    by (intro str_field_JStr) (simp add: storable_def)
  moreover have "opt_js h \<noteq> JStr s \<longleftrightarrow> h \<noteq> Some s" for h s by (cases h) auto
  moreover have "find_by_key k (db\<lparr>txn_seq := n\<rparr>) = find_by_key k db" for k n
    by (simp add: find_by_key_def split: option.split)
  ultimately show ?thesis
    using assms
    by (elim storableE [where seq = "txn_seq db"])
      (simp add: saveTransactionWithOutbox_def save_in_transaction_def insert_transaction_def Let_def)
qed

lemma save_fresh:
  assumes "storable hmac env pg now txn"
    and "find_by_key (Some (str_field txn ''idempotencyKey'')) db = None"
    and "str_field txn ''id'' \<notin> txn_ids db"
  obtains row event payload safe where
    "saveTransactionWithOutbox hmac env pg now txn db =
      (Inr \<lparr>inserted = True, conflict = False, saved_transaction = Some row, saved_event = event\<rparr>,
       snd (outbox_insert now (txn_id row) payload
         (db\<lparr>transactions := transactions db @ [row], txn_seq := txn_seq db + 1\<rparr>)))"
    "sanitizeTransactionForPersistence hmac env txn = Inr safe" "to_json safe = Some payload"
    "event = fst (outbox_insert now (txn_id row) payload
         (db\<lparr>transactions := transactions db @ [row], txn_seq := txn_seq db + 1\<rparr>))"
    "transaction_values pg now (txn_seq db) safe = Inr row"
    "txn_id row = str_field txn ''id''" "idempotency_key row = Some (str_field txn ''idempotencyKey'')"
    "request_hash row = Some (str_field txn ''requestHash'')"
proof -
  obtain safe row where safe: "sanitizeTransactionForPersistence hmac env txn = Inr safe"
    "is_object safe" "clean safe" "well_ordered safe"
    and row: "transaction_values pg now (txn_seq db) safe = Inr row" "row_fits pg row"
    "txn_id row = str_field txn ''id''" "idempotency_key row = Some (str_field txn ''idempotencyKey'')"
    "request_hash row = Some (str_field txn ''requestHash'')"
    and id: "bind_text pg (field safe ''id'') = Some (str_field txn ''id'')"
    and fits: "\<And>payload. to_json safe = Some payload \<Longrightarrow> json_fits pg payload"
    using assms(1) by (rule storableE) blast
  obtain payload where payload: "to_json safe = Some payload"
    using safe(2) by (cases safe) auto
  let ?db = "db\<lparr>transactions := transactions db @ [row], txn_seq := txn_seq db + 1\<rparr>"
  have "insert_transaction pg row db = Inr (Inserted ?db)"
    using assms(2,3) row by (auto simp: insert_transaction_def Let_def find_by_key_def txn_ids_def)
  moreover have "insertOutboxEvent hmac env pg now safe ?db = Inr (outbox_insert now (txn_id row) payload ?db)"
    using safe id payload row fits [OF payload]
    by (simp add: insertOutboxEvent_def sanitizePayload_clean not_null_def)
  ultimately show thesis
    using safe row payload
    by (intro that [OF _ safe(1) payload refl row(1) row(3,4,5)])
      (simp add: saveTransactionWithOutbox_def save_in_transaction_def case_prod_beta)
qed

text \<open>
  The contract of a store of requests by key: the first valid request with a key is
  accepted and becomes the entry of the key, any later one is answered with that entry.
\<close>

locale keyed_store =
  fixes ok :: "'s \<Rightarrow> bool"
    and lookup :: "'s \<Rightarrow> 'k \<Rightarrow> 'e option"
    and save :: "'r \<Rightarrow> 's \<Rightarrow> 'o \<times> 's"
    and key :: "'r \<Rightarrow> 'k"
    and valid :: "'r \<Rightarrow> bool"
    and fresh :: "'r \<Rightarrow> 's \<Rightarrow> bool"
    and accepted :: "'o \<Rightarrow> bool"
    and entry :: "'o \<Rightarrow> 'e option"
  assumes save_ok: "ok s \<Longrightarrow> ok (snd (save r s))"
    and accept: "ok s \<Longrightarrow> valid r \<Longrightarrow> fresh r s \<Longrightarrow> lookup s (key r) = None \<Longrightarrow>
      accepted (fst (save r s)) \<and>
      (\<exists>e. entry (fst (save r s)) = Some e \<and> lookup (snd (save r s)) = (lookup s)(key r \<mapsto> e))"
    and duplicate: "ok s \<Longrightarrow> valid r \<Longrightarrow> lookup s (key r) = Some e \<Longrightarrow>
      \<not> accepted (fst (save r s)) \<and> entry (fst (save r s)) = Some e \<and> lookup (snd (save r s)) = lookup s"
begin

primrec save_all :: "'r list \<Rightarrow> 's \<Rightarrow> 'o list \<times> 's" where
  "save_all [] s = ([], s)"
| "save_all (r # rs) s =
     (let (out, s1) = save r s; (outs, s2) = save_all rs s1 in (out # outs, s2))"

lemma save_all_ok: "ok s \<Longrightarrow> ok (snd (save_all rs s))"
  by (induction rs arbitrary: s) (simp_all add: case_prod_beta Let_def save_ok)

lemma save_all_duplicates:
  assumes "ok s" and "\<forall>r \<in> set rs. valid r \<and> key r = k" and "lookup s k = Some e"
  shows "(\<forall>out \<in> set (fst (save_all rs s)). \<not> accepted out \<and> entry out = Some e) \<and>
    lookup (snd (save_all rs s)) = lookup s"
  using assms
proof (induction rs arbitrary: s)
  case Nil
  then show ?case by simp
next
  case (Cons r rs)
  then have one: "\<not> accepted (fst (save r s)) \<and> entry (fst (save r s)) = Some e \<and>
      lookup (snd (save r s)) = lookup s"
    using duplicate by auto
  with Cons.IH [of "snd (save r s)"] Cons.prems save_ok show ?case
    by (simp add: case_prod_beta Let_def)
qed

text \<open>Any number of valid requests with one new key: one is accepted, all see its entry.\<close>

lemma save_all_exactly_once:
  assumes "ok s" and "\<forall>r \<in> set (r0 # rs). valid r \<and> key r = k" and "fresh r0 s" and "lookup s k = None"
  obtains out outs e where "fst (save_all (r0 # rs) s) = out # outs" and "accepted out"
    and "\<forall>out' \<in> set outs. \<not> accepted out'"
    and "\<forall>out' \<in> set (out # outs). entry out' = Some e"
    and "lookup (snd (save_all (r0 # rs) s)) = (lookup s)(k \<mapsto> e)"
proof -
  have r0: "valid r0" "key r0 = k" using assms(2) by auto
  with accept [OF assms(1), of r0] assms(3,4) obtain e where
    e: "accepted (fst (save r0 s))" "entry (fst (save r0 s)) = Some e"
    "lookup (snd (save r0 s)) = (lookup s)(k \<mapsto> e)" by auto
  have "(\<forall>out \<in> set (fst (save_all rs (snd (save r0 s)))). \<not> accepted out \<and> entry out = Some e) \<and>
      lookup (snd (save_all rs (snd (save r0 s)))) = lookup (snd (save r0 s))"
    using save_ok [OF assms(1)] assms(2) e(3) by (intro save_all_duplicates) auto
  with e show thesis
    by (intro that [of "fst (save r0 s)" "fst (save_all rs (snd (save r0 s)))" e])
      (simp_all add: case_prod_beta Let_def)
qed

end

type_synonym request = "int \<times> jsval"

definition save_request ::
  "(string \<Rightarrow> string \<Rightarrow> string) \<Rightarrow> env \<Rightarrow> pg \<Rightarrow> request \<Rightarrow> db \<Rightarrow> save_result result \<times> db" where
  "save_request hmac env pg r db = saveTransactionWithOutbox hmac env pg (fst r) (snd r) db"

definition entry_at :: "db \<Rightarrow> string \<Rightarrow> txn_row option" where
  "entry_at db k = find_by_key (Some k) db"

definition request_key :: "request \<Rightarrow> string" where
  "request_key r = str_field (snd r) ''idempotencyKey''"

definition request_id :: "request \<Rightarrow> string" where
  "request_id r = str_field (snd r) ''id''"

definition was_accepted :: "save_result result \<Rightarrow> bool" where
  "was_accepted out = (case out of Inr res \<Rightarrow> inserted res | Inl _ \<Rightarrow> False)"

definition answered_with :: "save_result result \<Rightarrow> txn_row option" where
  "answered_with out = (case out of Inr res \<Rightarrow> saved_transaction res | Inl _ \<Rightarrow> None)"

lemma entry_at_append:
  assumes "entry_at db (the (idempotency_key row)) = None" and "idempotency_key row = Some k"
    and "transactions db' = transactions db @ [row]"
  shows "entry_at db' = (entry_at db)(k \<mapsto> row)"
  using assms by (auto simp: fun_eq_iff entry_at_def find_by_key_def find_row_append split: option.splits)

interpretation payments: keyed_store
  store_inv entry_at "save_request hmac env pg" request_key
  "\<lambda>r. storable hmac env pg (fst r) (snd r)" "\<lambda>r db. request_id r \<notin> txn_ids db"
  was_accepted answered_with
  for hmac :: "string \<Rightarrow> string \<Rightarrow> string" and env :: env and pg :: pg
proof unfold_locales
  fix db :: db and r :: request and e :: txn_row
  show "store_inv db \<Longrightarrow> store_inv (snd (save_request hmac env pg r db))"
    by (simp add: save_request_def store_inv_save)
  show "was_accepted (fst (save_request hmac env pg r db)) \<and>
      (\<exists>e. answered_with (fst (save_request hmac env pg r db)) = Some e \<and>
        entry_at (snd (save_request hmac env pg r db)) = (entry_at db)(request_key r \<mapsto> e))"
    if st: "storable hmac env pg (fst r) (snd r)" and new: "request_id r \<notin> txn_ids db"
      and none: "entry_at db (request_key r) = None"
  proof -
    have "find_by_key (Some (str_field (snd r) ''idempotencyKey'')) db = None"
      "str_field (snd r) ''id'' \<notin> txn_ids db"
      using none new by (simp_all add: entry_at_def request_key_def request_id_def)
    with st obtain row event payload where
      save: "saveTransactionWithOutbox hmac env pg (fst r) (snd r) db =
        (Inr \<lparr>inserted = True, conflict = False, saved_transaction = Some row, saved_event = event\<rparr>,
         snd (outbox_insert (fst r) (txn_id row) payload
           (db\<lparr>transactions := transactions db @ [row], txn_seq := txn_seq db + 1\<rparr>)))"
      and key: "idempotency_key row = Some (request_key r)"
      unfolding request_key_def by (elim save_fresh) blast
    have "entry_at (snd (save_request hmac env pg r db)) = (entry_at db)(request_key r \<mapsto> row)"
      using none key save by (intro entry_at_append) (simp_all add: save_request_def outbox_insert_frame)
    then show ?thesis using save by (simp add: save_request_def was_accepted_def answered_with_def)
  qed
  show "\<not> was_accepted (fst (save_request hmac env pg r db)) \<and>
      answered_with (fst (save_request hmac env pg r db)) = Some e \<and>
      entry_at (snd (save_request hmac env pg r db)) = entry_at db"
    if "storable hmac env pg (fst r) (snd r)" and "entry_at db (request_key r) = Some e"
    using save_taken [OF that(1)] that(2)
    by (simp add: entry_at_def request_key_def save_request_def was_accepted_def answered_with_def
        fun_eq_iff find_by_key_def)
qed

section \<open>Properties\<close>

text \<open>Saving a transaction, whatever the input and however it ends, keeps the table invariant:
  unique transaction ids, no idempotency key held twice, one outbox event for every
  transaction, event ids ascending and below the sequence.\<close>

lemma save_keeps_invariant:
  assumes "store_inv db"
  shows "store_inv (snd (saveTransactionWithOutbox hmac env pg now txn db))"
  using assms by (rule store_inv_save)

text \<open>Saving is all or nothing. Unless it reports an insert, the tables are as before; if it
  does, exactly the reported transaction was added, and an event for it is in the outbox.\<close>

lemma save_atomic:
  assumes "saveTransactionWithOutbox hmac env pg now txn db = (out, db')"
  shows "(case out of
      Inr res \<Rightarrow> if inserted res
        then (\<exists>row. saved_transaction res = Some row \<and> transactions db' = transactions db @ [row] \<and>
          txn_id row \<notin> txn_ids db \<and> txn_id row \<in> ob_txn_id ` set (outbox_events db') \<and>
          set (outbox_events db) \<subseteq> set (outbox_events db'))
        else transactions db' = transactions db \<and> outbox_events db' = outbox_events db
    | Inl _ \<Rightarrow> transactions db' = transactions db \<and> outbox_events db' = outbox_events db) \<and>
    dead_letter_jobs db' = dead_letter_jobs db"
proof (cases "sanitizeTransactionForPersistence hmac env txn")
  case (Inl e)
  with assms show ?thesis by (auto simp: saveTransactionWithOutbox_def)
next
  case (Inr safe)
  show ?thesis
  proof (cases "save_in_transaction hmac env pg now txn safe db")
    case (Inl e)
    with assms Inr show ?thesis by (auto simp: saveTransactionWithOutbox_def rolled_back_def)
  next
    case saved: (Inr x)
    obtain res db1 where x: "x = (res, db1)" by (cases x)
    with saved Inr assms have out: "out = Inr res" "db' = db1" by (auto simp: saveTransactionWithOutbox_def)
    from saved [unfolded x] show ?thesis
    proof (cases rule: save_in_transaction_cases)
      case (accepted row sent payload)
      then have db1: "db1 = snd (outbox_insert now (txn_id row) payload
          (db\<lparr>transactions := transactions db @ [row], txn_seq := txn_seq db + 1\<rparr>))"
        by (metis snd_conv)
      have "set (outbox_events db) \<subseteq> set (outbox_events db1)"
        using outbox_insert_frame(3) unfolding db1 by fastforce
      moreover have "txn_id row \<in> ob_txn_id ` set (outbox_events db1)"
        unfolding db1 by (rule outbox_insert_covers)
      moreover have "transactions db1 = transactions db @ [row]" "dead_letter_jobs db1 = dead_letter_jobs db"
        unfolding db1 by (simp_all add: outbox_insert_frame)
      ultimately show ?thesis using accepted out by simp
    next
      case (duplicate row)
      with out show ?thesis by simp
    qed
  qed
qed

text \<open>A sequence of requests, served one after the other.\<close>

primrec save_requests ::
  "(string \<Rightarrow> string \<Rightarrow> string) \<Rightarrow> env \<Rightarrow> pg \<Rightarrow> request list \<Rightarrow> db \<Rightarrow> save_result result list \<times> db" where
  "save_requests hmac env pg [] db = ([], db)"
| "save_requests hmac env pg (r # rs) db =
     (let (out, db1) = save_request hmac env pg r db; (outs, db2) = save_requests hmac env pg rs db1
      in (out # outs, db2))"

lemma save_requests_all: "save_requests hmac env pg rs db = payments.save_all hmac env pg rs db"
  by (induction rs arbitrary: db) (simp_all add: case_prod_beta Let_def)

text \<open>C2: Idempotency. Of any number of valid requests that share one new idempotency key, served
  one after the other, the first is accepted and no other is; all are answered with the
  transaction the first one stored, and the key then belongs to it.\<close>

theorem requests_exactly_once:
  assumes "store_inv db"
    and "\<forall>r \<in> set (r0 # rs). storable hmac env pg (fst r) (snd r) \<and> request_key r = k"
    and "request_id r0 \<notin> txn_ids db" and "entry_at db k = None"
  shows "\<exists>out outs row. fst (save_requests hmac env pg (r0 # rs) db) = out # outs \<and>
    was_accepted out \<and> (\<forall>out' \<in> set outs. \<not> was_accepted out') \<and>
    (\<forall>out' \<in> set (out # outs). answered_with out' = Some row) \<and>
    entry_at (snd (save_requests hmac env pg (r0 # rs) db)) = (entry_at db)(k \<mapsto> row)"
  unfolding save_requests_all
  by (rule payments.save_all_exactly_once [where hmac = hmac and env = env and pg = pg, OF assms]) blast

definition sample_request :: "string \<Rightarrow> string \<Rightarrow> string \<Rightarrow> jsval" where
  "sample_request tid key hash = JObj
     [(''id'', JStr tid), (''idempotencyKey'', JStr key), (''requestHash'', JStr hash),
      (''amount'', JInt 5), (''channel'', JStr ''ECOM''), (''status'', JStr ''ACCEPTED'')]"

lemma sample_request_clean:
  "is_object (sample_request tid key hash)" "clean (sample_request tid key hash)"
  "well_ordered (sample_request tid key hash)"
  by (simp_all add: sample_request_def sensitive_key_def ordered_props_def key_before_def is_index_def is_digit_def)

lemma sample_request_fields:
  "str_field (sample_request tid key hash) ''id'' = tid"
  "str_field (sample_request tid key hash) ''idempotencyKey'' = key"
  "str_field (sample_request tid key hash) ''requestHash'' = hash"
  by (simp_all add: sample_request_def str_field_def prop_of_def)

lemma sample_request_storable:
  assumes "tid \<noteq> []" "key \<noteq> []" "hash \<noteq> []"
  shows "storable hmac env sample_pg now (sample_request tid key hash)"
proof -
  have "sanitizeTransactionForPersistence hmac env (sample_request tid key hash) = Inr (sample_request tid key hash)"
    by (rule sanitize_clean [OF sample_request_clean])
  moreover have "\<exists>row. transaction_values sample_pg now seq (sample_request tid key hash) = Inr row \<and>
      row_fits sample_pg row" for seq
    by (simp add: transaction_values_def sample_request_def sample_pg_def prop_of_def js_or_def not_null_def Let_def)
  moreover have "json_fits sample_pg payload" for payload by (simp add: sample_pg_def)
  moreover have "\<exists>ps. sample_request tid key hash = JObj ps \<and> distinct (map fst ps)"
    by (simp add: sample_request_def)
  ultimately show ?thesis
    using assms by (simp add: storable_def sample_request_fields sample_pg_laws)
qed

theorem requests_exactly_once_witness:
  "\<exists>out outs row. fst (save_requests (\<lambda>s d. d) sample_env sample_pg
      [(0, sample_request ''a'' ''k'' ''h''), (1, sample_request ''b'' ''k'' ''other'')] empty_db) = out # outs \<and>
    was_accepted out \<and> (\<forall>out' \<in> set outs. \<not> was_accepted out') \<and>
    (\<forall>out' \<in> set (out # outs). answered_with out' = Some row)"
proof -
  have "\<forall>r \<in> set [(0, sample_request ''a'' ''k'' ''h''), (1, sample_request ''b'' ''k'' ''other'')].
      storable (\<lambda>s d. d) sample_env sample_pg (fst r) (snd r) \<and> request_key r = ''k''"
    by (simp add: sample_request_storable request_key_def sample_request_fields)
  moreover have "request_id (0, sample_request ''a'' ''k'' ''h'') \<notin> txn_ids empty_db" "entry_at empty_db ''k'' = None"
    by (simp_all add: txn_ids_def entry_at_def find_by_key_def empty_db_def)
  ultimately show ?thesis
    using requests_exactly_once [OF store_inv_empty, of "(0, sample_request ''a'' ''k'' ''h'')"
      "[(1, sample_request ''b'' ''k'' ''other'')]"] by blast
qed

text \<open>A request whose key is taken changes no table; it is answered with the stored
  transaction, as a conflict exactly when the hash of its payload is not the stored one.\<close>

lemma request_with_taken_key:
  assumes "storable hmac env pg now txn"
    and "find_by_key (Some (str_field txn ''idempotencyKey'')) db = Some r"
  shows "saveTransactionWithOutbox hmac env pg now txn db =
    (Inr \<lparr>inserted = False, conflict = (request_hash r \<noteq> Some (str_field txn ''requestHash'')),
          saved_transaction = Some r, saved_event = None\<rparr>, db\<lparr>txn_seq := txn_seq db + 1\<rparr>)"
  using assms by (rule save_taken)

section \<open>No sensitive member in the stored payloads\<close>

definition payloads_clean :: "db \<Rightarrow> bool" where
  "payloads_clean db \<longleftrightarrow> (\<forall>e \<in> set (outbox_events db). clean (ob_payload e)) \<and>
     (\<forall>d \<in> set (dead_letter_jobs db). clean (dl_payload d))"

lemma sanitizePayload_to_json_clean:
  "sanitizePayload hmac env v = Inr w \<Longrightarrow> to_json w = Some p \<Longrightarrow> clean p"
  using clean_to_json sanitized_clean(1) clean_removeSensitiveFields
  by (auto simp: sanitizePayload_def split: if_splits)

lemma payloads_clean_save:
  assumes "payloads_clean db"
  shows "payloads_clean (snd (saveTransactionWithOutbox hmac env pg now txn db))"
proof (cases "sanitizeTransactionForPersistence hmac env txn")
  case (Inl e)
  with assms show ?thesis by (simp add: saveTransactionWithOutbox_def)
next
  case (Inr safe)
  show ?thesis
  proof (cases "save_in_transaction hmac env pg now txn safe db")
    case (Inl e)
    with assms Inr show ?thesis by (simp add: saveTransactionWithOutbox_def rolled_back_def payloads_clean_def)
  next
    case saved: (Inr x)
    obtain res db1 where x: "x = (res, db1)" by (cases x)
    with saved Inr have snd: "snd (saveTransactionWithOutbox hmac env pg now txn db) = db1"
      by (simp add: saveTransactionWithOutbox_def)
    from saved [unfolded x] show ?thesis
    proof (cases rule: save_in_transaction_cases)
      case (accepted row sent payload)
      then have db1: "db1 = snd (outbox_insert now (txn_id row) payload
          (db\<lparr>transactions := transactions db @ [row], txn_seq := txn_seq db + 1\<rparr>))"
        by (metis snd_conv)
      have "clean payload" using accepted(2,3) by (rule sanitizePayload_to_json_clean)
      with assms show ?thesis
        unfolding snd db1 by (auto simp: payloads_clean_def outbox_insert_def Let_def)
    next
      case (duplicate row)
      with assms snd show ?thesis by (simp add: payloads_clean_def)
    qed
  qed
qed

lemma dead_letter_row_Inr:
  assumes "dead_letter_row hmac env pg now job message db = Inr d"
  shows "clean (dl_payload d)" "dl_job_id d = job_id job" "dl_failed_reason d = redact message"
    "dl_attempts_made d = job_attemptsMade job" "dl_failed_at d = now"
proof -
  from assms obtain txn payload where "sanitizePayload hmac env (js_or (job_data job) (JObj [])) = Inr txn"
    and "not_null (to_json txn) = Inr payload"
    and d: "d = \<lparr>dl_id = dead_seq db, dl_job_id = job_id job,
              dl_txn_id = bind_text pg (or_null (field txn ''id'')),
              dl_queue_name = job_queue job, dl_payload = payload,
              dl_failed_reason = redact message,
              dl_attempts_made = job_attemptsMade job, dl_failed_at = now\<rparr>"
    unfolding dead_letter_row_def and_then_Inr_iff Let_def by (metis sum.distinct(1) sum.inject(2))
  then have "clean payload"
    using sanitizePayload_to_json_clean by (auto simp: not_null_def split: option.splits)
  with d show "clean (dl_payload d)" "dl_job_id d = job_id job" "dl_failed_reason d = redact message"
    "dl_attempts_made d = job_attemptsMade job" "dl_failed_at d = now" by simp_all
qed

lemma payloads_clean_dead_letter:
  assumes "payloads_clean db"
  shows "payloads_clean (snd (saveDeadLetterJob hmac env pg now job message db))"
proof (cases "dead_letter_row hmac env pg now job message db")
  case (Inl e)
  with assms show ?thesis by (simp add: saveDeadLetterJob_def)
next
  case (Inr d)
  with dead_letter_row_Inr(1) [OF Inr] assms show ?thesis
    by (auto simp: saveDeadLetterJob_def Let_def payloads_clean_def upsert_dead_def elim!: in_update_whereE)
qed

section \<open>Dead letters\<close>

lemma upsert_dead_ids:
  assumes "distinct (map dl_job_id rows)"
  shows "distinct (map dl_job_id (upsert_dead d rows))"
proof (cases "dl_job_id d \<in> dl_job_id ` set rows")
  case True
  then have "map dl_job_id (upsert_dead d rows) = map dl_job_id rows"
    by (simp add: upsert_dead_def map_update_where)
  with assms show ?thesis by simp
next
  case False
  with assms show ?thesis by (simp add: upsert_dead_def)
qed

lemma upsert_dead_rows:
  assumes "distinct (map dl_job_id rows)"
  shows "\<exists>e. find_row dl_job_id (dl_job_id d) (upsert_dead d rows) = Some e \<and>
      dl_failed_reason e = dl_failed_reason d \<and> dl_attempts_made e = dl_attempts_made d \<and>
      dl_failed_at e = dl_failed_at d \<and> dl_payload e = dl_payload d \<and> dl_job_id e = dl_job_id d"
    and "filter (\<lambda>r. dl_job_id r \<noteq> dl_job_id d) (upsert_dead d rows) = filter (\<lambda>r. dl_job_id r \<noteq> dl_job_id d) rows"
proof -
  let ?f = "\<lambda>r. r\<lparr>dl_failed_reason := dl_failed_reason d, dl_attempts_made := dl_attempts_made d,
             dl_payload := dl_payload d, dl_failed_at := dl_failed_at d\<rparr>"
  show "\<exists>e. find_row dl_job_id (dl_job_id d) (upsert_dead d rows) = Some e \<and>
      dl_failed_reason e = dl_failed_reason d \<and> dl_attempts_made e = dl_attempts_made d \<and>
      dl_failed_at e = dl_failed_at d \<and> dl_payload e = dl_payload d \<and> dl_job_id e = dl_job_id d"
  proof (cases "find_row dl_job_id (dl_job_id d) rows")
    case None
    moreover from None have "dl_job_id d \<notin> dl_job_id ` set rows" by (simp add: find_row_None)
    ultimately show ?thesis by (simp add: upsert_dead_def find_row_append)
  next
    case (Some r)
    then have "r \<in> set rows" "dl_job_id r = dl_job_id d" by (auto dest: find_row_SomeD)
    then have "dl_job_id d \<in> dl_job_id ` set rows" by (metis imageI)
    moreover have "find_row dl_job_id (dl_job_id d) (update_where (\<lambda>r. dl_job_id r = dl_job_id d) ?f rows) = Some (?f r)"
      using Some \<open>dl_job_id r = dl_job_id d\<close> by (simp add: find_row_update)
    ultimately show ?thesis using \<open>dl_job_id r = dl_job_id d\<close> by (simp add: upsert_dead_def)
  qed
  show "filter (\<lambda>r. dl_job_id r \<noteq> dl_job_id d) (upsert_dead d rows) = filter (\<lambda>r. dl_job_id r \<noteq> dl_job_id d) rows"
    by (simp add: upsert_dead_def filter_update_key)
qed

text \<open>A dead letter is stored once per job: after storing it there is exactly one row with
  the id of the job, it holds the last reason and attempt count, every other row is
  untouched, and the statement returns it.\<close>

lemma dead_letter_upsert:
  assumes "saveDeadLetterJob hmac env pg now job message db = (Inr out, db')"
    and "distinct (map dl_job_id (dead_letter_jobs db))"
  shows "\<exists>d. out = Some d \<and> dl_job_id d = job_id job \<and> dl_failed_reason d = redact message \<and>
      dl_attempts_made d = job_attemptsMade job \<and> dl_failed_at d = now \<and> clean (dl_payload d) \<and>
      filter (\<lambda>r. dl_job_id r = job_id job) (dead_letter_jobs db') = [d] \<and>
      filter (\<lambda>r. dl_job_id r \<noteq> job_id job) (dead_letter_jobs db') =
        filter (\<lambda>r. dl_job_id r \<noteq> job_id job) (dead_letter_jobs db) \<and>
      distinct (map dl_job_id (dead_letter_jobs db'))"
proof (cases "dead_letter_row hmac env pg now job message db")
  case (Inl e)
  with assms(1) show ?thesis by (simp add: saveDeadLetterJob_def)
next
  case (Inr d)
  note d = dead_letter_row_Inr [OF Inr]
  let ?rows = "upsert_dead d (dead_letter_jobs db)"
  have rows: "dead_letter_jobs db' = ?rows" "out = find_row dl_job_id (job_id job) ?rows"
    using assms(1) Inr by (auto simp: saveDeadLetterJob_def Let_def)
  obtain e where e: "find_row dl_job_id (job_id job) ?rows = Some e"
    "dl_failed_reason e = dl_failed_reason d" "dl_attempts_made e = dl_attempts_made d"
    "dl_failed_at e = dl_failed_at d" "dl_payload e = dl_payload d" "dl_job_id e = dl_job_id d"
    using upsert_dead_rows(1) [OF assms(2), of d] d(2) by auto
  moreover have "filter (\<lambda>r. dl_job_id r = job_id job) ?rows = [e]"
    using filter_key [OF upsert_dead_ids [OF assms(2)], of "job_id job" d] e(1) by simp
  moreover have "filter (\<lambda>r. dl_job_id r \<noteq> job_id job) ?rows =
      filter (\<lambda>r. dl_job_id r \<noteq> job_id job) (dead_letter_jobs db)"
    using upsert_dead_rows(2) [OF assms(2), of d] d(2) by simp
  ultimately show ?thesis using rows d upsert_dead_ids [OF assms(2), of d] by simp
qed

definition sample_job :: job where
  "sample_job = \<lparr>job_id = ''j'', job_data = JObj [(''id'', JStr ''t'')], job_queue = ''q'',
     job_attemptsMade = 3, job_attempts = 3\<rparr>"

end
