(* ===== verification/Processing.thy ===== *)
theory Processing
  imports Validation
begin

text \<open>
  What a worker does with a payment once it owns it: \<open>processor/processor.js\<close>,
  \<open>broker/router.js\<close> and \<open>systems/*.js\<close>. The outcome of a system is a datatype with the
  shapes of object the code returns.
\<close>

datatype outcome =
    Approved
  | Declined string
  | Failed string
  | Success string "(string \<times> jsval)"

text \<open>The object a \<open>SUCCESS\<close> is stored as: \<open>{status, system, details | balance}\<close>.\<close>

fun outcome_json :: "outcome \<Rightarrow> jsval" where
  "outcome_json Approved = JObj [(''status'', JStr ''APPROVED'')]"
| "outcome_json (Declined r) = JObj [(''status'', JStr ''DECLINED''), (''reason'', JStr r)]"
| "outcome_json (Failed r) = JObj [(''status'', JStr ''FAILED''), (''reason'', JStr r)]"
| "outcome_json (Success sys (k, v)) =
     JObj [(''status'', JStr ''SUCCESS''), (''system'', JStr sys), (k, v)]"

section \<open>\<open>processTransaction\<close> and \<open>routeTransaction\<close>\<close>

definition processTransaction :: "jsval \<Rightarrow> outcome result" where
  "processTransaction txn =
     (let amount = field txn ''amount'' in
      and_then
        (if field txn ''type'' \<noteq> JStr ''BALANCE_INQUIRY''
         then (if \<not> truthy amount then Inr True else js_le amount (Fin 0)) else Inr False)
        (\<lambda>invalid.
          if invalid then Inr (Declined ''Invalid amount'')
          else if amount = JNum (Fin 999) then Inr (Failed ''Simulated processor failure'')
          else Inr Approved))"

definition routeTransaction :: "jsval \<Rightarrow> string" where
  "routeTransaction txn =
     (if field txn ''issuerType'' = JStr ''INTERNAL'' then ''INTERNAL''
      else if field txn ''network'' = JStr ''EXTERNAL_PROCESSOR'' then ''EXTERNAL_PROCESSOR''
      else if field txn ''network'' = JStr ''CARD_NETWORK'' then ''CARD_NETWORK''
      else if field txn ''issuerType'' = JStr ''EXTERNAL'' then ''EXTERNAL''
      else ''UNKNOWN'')"

section \<open>The systems\<close>

definition validatePIN :: "jsval \<Rightarrow> outcome" where
  "validatePIN txn =
     (if field txn ''pinVerified'' \<noteq> JBool True then Declined ''Invalid PIN'' else Approved)"

definition validateBalance :: "config \<Rightarrow> jsval \<Rightarrow> outcome result" where
  "validateBalance cfg txn =
     (if field txn ''type'' = JStr ''BALANCE_INQUIRY'' then
        Inr (Success ''BALANCE_SYSTEM'' (''balance'', JNum (inquiryBalance cfg)))
      else if field txn ''type'' = JStr ''REVERSAL'' then
        Inr (Success ''REVERSAL_SYSTEM'' (''details'', JStr ''Previous transaction reversed''))
      else and_then (js_gt (field txn ''amount'') (defaultBalance cfg)) (\<lambda>over.
        Inr (if over then Declined ''Insufficient funds'' else Approved)))"

definition handleInternal :: "config \<Rightarrow> jsval \<Rightarrow> outcome result" where
  "handleInternal cfg txn =
     (if field txn ''type'' = JStr ''BALANCE_INQUIRY'' then validateBalance cfg txn
      else case validatePIN txn of
        Declined r \<Rightarrow> Inr (Declined r)
      | _ \<Rightarrow> and_then (validateBalance cfg txn) (\<lambda>balanceResult.
          case balanceResult of
            Declined r \<Rightarrow> Inr (Declined r)
          | _ \<Rightarrow>
            if field txn ''type'' = JStr ''REVERSAL'' then Inr balanceResult
            else if field txn ''type'' = JStr ''CASH_WITHDRAWAL'' then
              Inr (Success ''ATM_CASH_SYSTEM'' (''details'', JStr ''Cash withdrawal approved''))
            else Inr (Success ''PURCHASE_SYSTEM'' (''details'', JStr ''Purchase approved''))))"

definition handleExternalProcessor :: "jsval \<Rightarrow> outcome" where
  "handleExternalProcessor txn =
     Success ''EXTERNAL_PROCESSOR'' (''details'', JStr ''Processed by external issuer processor'')"

definition handleCardNetwork :: "jsval \<Rightarrow> outcome" where
  "handleCardNetwork txn =
     Success ''CARD_NETWORK'' (''details'', JStr ''Routed through card network to issuer'')"

definition handleExternal :: "jsval \<Rightarrow> outcome" where
  "handleExternal txn =
     (if field txn ''network'' = JStr ''EXTERNAL_PROCESSOR'' then handleExternalProcessor txn
      else if field txn ''network'' = JStr ''CARD_NETWORK'' then handleCardNetwork txn
      else Declined ''Unsupported external network'')"

section \<open>The decision on a claimed payment\<close>

text \<open>
  The decisions of \<open>processClaimedTransaction\<close> (\<open>jobs/transactionJobHandler.js\<close>), apart
  from the statements that store them: throw (the job fails), decline before or after
  routing, or complete.
\<close>

datatype decision =
    Throw js_error
  | DeclineUnrouted string
  | Decline string string
  | Complete string outcome

definition route_system :: "config \<Rightarrow> jsval \<Rightarrow> string \<Rightarrow> outcome result" where
  "route_system cfg txn route =
     (if route = ''INTERNAL'' then handleInternal cfg txn
      else if route = ''EXTERNAL_PROCESSOR'' \<or> route = ''CARD_NETWORK'' then Inr (handleExternal txn)
      else Inr (Declined ''Unsupported route''))"

definition decide :: "config \<Rightarrow> jsval \<Rightarrow> decision" where
  "decide cfg txn =
     (case processTransaction txn of
        Inl e \<Rightarrow> Throw e
      | Inr (Failed r) \<Rightarrow> Throw (Error r)
      | Inr (Declined r) \<Rightarrow> DeclineUnrouted r
      | Inr _ \<Rightarrow>
          let route = routeTransaction txn in
          case route_system cfg txn route of
            Inl e \<Rightarrow> Throw e
          | Inr (Declined r) \<Rightarrow> Decline route r
          | Inr res \<Rightarrow> Complete route res)"

text \<open>
  The table those functions implement, for a payment whose amount is a number \<open>a\<close>, as one
  would state it without routes and systems.
\<close>

definition decision_table :: "config \<Rightarrow> jsnum \<Rightarrow> string \<Rightarrow> bool \<Rightarrow> string option \<Rightarrow> decision" where
  "decision_table cfg a type pinOk network =
     (if type \<noteq> ''BALANCE_INQUIRY'' \<and> (a = NaN \<or> a \<le> Fin 0) then DeclineUnrouted ''Invalid amount''
      else if a = Fin 999 then Throw (Error ''Simulated processor failure'')
      else case network of
        Some n \<Rightarrow> Complete n (if n = ''CARD_NETWORK'' then handleCardNetwork JNull else handleExternalProcessor JNull)
      | None \<Rightarrow>
        if type = ''BALANCE_INQUIRY'' then
          Complete ''INTERNAL'' (Success ''BALANCE_SYSTEM'' (''balance'', JNum (inquiryBalance cfg)))
        else if \<not> pinOk then Decline ''INTERNAL'' ''Invalid PIN''
        else if type = ''REVERSAL'' then
          Complete ''INTERNAL'' (Success ''REVERSAL_SYSTEM'' (''details'', JStr ''Previous transaction reversed''))
        else if defaultBalance cfg < a then Decline ''INTERNAL'' ''Insufficient funds''
        else Complete ''INTERNAL''
          (if type = ''CASH_WITHDRAWAL''
           then Success ''ATM_CASH_SYSTEM'' (''details'', JStr ''Cash withdrawal approved'')
           else Success ''PURCHASE_SYSTEM'' (''details'', JStr ''Purchase approved'')))"

definition issuer_network :: "jsval \<Rightarrow> string option" where
  "issuer_network txn =
     (if field txn ''issuerType'' = JStr ''INTERNAL'' then None
      else case field txn ''network'' of JStr n \<Rightarrow> Some n | _ \<Rightarrow> Some [])"

lemma processTransaction_number:
  assumes "field txn ''amount'' = JNum a"
  shows "processTransaction txn =
    (if field txn ''type'' \<noteq> JStr ''BALANCE_INQUIRY'' \<and> (a = NaN \<or> a \<le> Fin 0) then Inr (Declined ''Invalid amount'')
     else if a = Fin 999 then Inr (Failed ''Simulated processor failure'') else Inr Approved)"
proof -
  have "\<not> truthy (JNum a) \<longleftrightarrow> a = NaN \<or> a = Fin 0" by auto
  then show ?thesis using assms by (auto simp: processTransaction_def Let_def)
qed

lemma decide_internal:
  assumes "field txn ''amount'' = JNum a" and "field txn ''type'' = JStr type"
    and "field txn ''issuerType'' = JStr ''INTERNAL''"
  shows "decide cfg txn = decision_table cfg a type (field txn ''pinVerified'' = JBool True) None"
  using assms
  by (auto simp: decide_def processTransaction_number decision_table_def routeTransaction_def
      route_system_def handleInternal_def validatePIN_def validateBalance_def Let_def)

lemma decide_external:
  assumes "field txn ''amount'' = JNum a" and "field txn ''type'' = JStr type"
    and "field txn ''issuerType'' = JStr ''EXTERNAL''"
    and "field txn ''network'' = JStr n" and "n \<in> {''EXTERNAL_PROCESSOR'', ''CARD_NETWORK''}"
  shows "decide cfg txn = decision_table cfg a type (field txn ''pinVerified'' = JBool True) (Some n)"
  using assms
  by (auto simp: decide_def processTransaction_number decision_table_def routeTransaction_def
      route_system_def handleExternal_def handleCardNetwork_def handleExternalProcessor_def Let_def)

end
