(* ===== verification/JsDate.thy ===== *)
theory JsDate
  imports JsNumber
begin

text \<open>
  \<open>new Date(ms).toISOString()\<close>, the text of every time stamp the program writes into a
  timeline: the proleptic Gregorian calendar on whole milliseconds since 1970.
\<close>

text \<open>The date of a day number, days before 1970 included.\<close>

definition civil_from_days :: "int \<Rightarrow> int \<times> int \<times> int" where
  "civil_from_days days =
     (let z = days + 719468;
          era = z div 146097;
          doe = z mod 146097;
          yoe = (doe - doe div 1460 + doe div 36524 - doe div 146096) div 365;
          doy = doe - (365 * yoe + yoe div 4 - yoe div 100);
          mp = (5 * doy + 2) div 153;
          m = (if mp < 10 then mp + 3 else mp - 9);
          y = yoe + era * 400 + (if m \<le> 2 then 1 else 0)
      in (y, m, doy - (153 * mp + 2) div 5 + 1))"

definition pad :: "nat \<Rightarrow> int \<Rightarrow> string" where
  "pad w n = (let s = show_int n in replicate (w - length s) CHR ''0'' @ s)"

definition iso_year :: "int \<Rightarrow> string" where
  "iso_year y =
     (if 0 \<le> y \<and> y \<le> 9999 then pad 4 y
      else (if y < 0 then CHR ''-'' else CHR ''+'') # pad 6 \<bar>y\<bar>)"

definition toISOString :: "int \<Rightarrow> string" where
  "toISOString ms =
     (let days = ms div 86400000; t = ms mod 86400000; (y, m, d) = civil_from_days days in
      iso_year y @ ''-'' @ pad 2 m @ ''-'' @ pad 2 d @ ''T'' @
      pad 2 (t div 3600000) @ '':'' @ pad 2 (t div 60000 mod 60) @ '':'' @
      pad 2 (t div 1000 mod 60) @ ''.'' @ pad 3 (t mod 1000) @ ''Z'')"

lemma length_pad: "length (show_int n) \<le> w \<Longrightarrow> length (pad w n) = w"
  by (simp add: pad_def Let_def)

end
