(* ===== verification/Worker.thy ===== *)
theory Worker
  imports Lifecycle Store Processing JsDate
begin

text \<open>
  \<open>jobs/transactionJobHandler.js\<close> and \<open>jobs/transactionWorker.js\<close>: what happens to one job
  of the queue. A run of the handler touches the database in up to four places: it reads
  the transaction, claims it, renews its lease from a timer, and stores the outcome. In
  between, other processes work on the same tables; the steps below are the pieces between
  two awaits, and \<open>handleTransactionJob\<close> puts them together with any interference.
\<close>

section \<open>The steps of a run\<close>

datatype run_result = Skipped string | Finished string

text \<open>\<open>...v\<close> in an array literal.\<close>

fun iterate :: "jsval \<Rightarrow> jsval list result" where
  "iterate (JArr xs) = Inr xs"
| "iterate (JStr s) = Inr (map (\<lambda>c. JStr [c]) s)"
| "iterate _ = Inl TypeError"

definition timeline_entry :: "string \<Rightarrow> int \<Rightarrow> string \<Rightarrow> jsval" where
  "timeline_entry status ms message =
     JObj [(''status'', JStr status), (''timestamp'', JStr (toISOString ms)), (''message'', JStr message)]"

definition appendTimeline :: "jsval list \<Rightarrow> string \<Rightarrow> int \<Rightarrow> string \<Rightarrow> jsval list" where
  "appendTimeline processingTimeline status ms message =
     processingTimeline @ [timeline_entry status ms message]"

text \<open>\<open>getTransaction(id)\<close> for an id that is any value of the job's data.\<close>

definition get_by_value :: "pg \<Rightarrow> jsval \<Rightarrow> db \<Rightarrow> txn_row option" where
  "get_by_value pg v db = (case bind_text pg v of Some tid \<Rightarrow> getTransaction tid db | None \<Rightarrow> None)"

text \<open>
  After the read: nothing to do, or a claim to try, with the sanitized job data, the id
  and the timeline to store.
\<close>

datatype plan = Skip string | Claim jsval string "jsval list"

definition read_step ::
  "(string \<Rightarrow> string \<Rightarrow> string) \<Rightarrow> env \<Rightarrow> pg \<Rightarrow> int \<Rightarrow> job \<Rightarrow> db \<Rightarrow> plan result" where
  "read_step hmac env pg ms job db =
     and_then (sanitizePayload hmac env (job_data job)) (\<lambda>txn.
     and_then (js_get txn ''id'') (\<lambda>tid.
       case get_by_value pg tid db of
         None \<Rightarrow> and_then (to_str tid) (\<lambda>s. Inl (Error (''Transaction not found: '' @ s)))
       | Some existing \<Rightarrow>
           if txn_status existing \<in> set FINAL_STATUSES then
             Inr (Skip ''Transaction already finalized'')
           else if txn_status existing \<noteq> ''ACCEPTED'' then
             Inr (Skip (''Transaction is '' @ txn_status existing))
           else
             and_then (iterate (js_or (js_or (case processing_timeline existing of Some v \<Rightarrow> v | None \<Rightarrow> JNull)
                 (field txn ''processingTimeline'')) (JArr []))) (\<lambda>timeline.
             Inr (Claim txn (txn_id existing)
               (appendTimeline timeline ''PROCESSING'' ms ''BullMQ worker started processing'')))))"

definition claim_step ::
  "int \<Rightarrow> string \<Rightarrow> int \<Rightarrow> string \<Rightarrow> jsval list \<Rightarrow> db \<Rightarrow> bool \<times> db" where
  "claim_step leaseMs worker now tid timeline db =
     (let (row, db') = startTransactionProcessing tid worker (Some (JArr timeline)) leaseMs now db
      in (row \<noteq> None, db'))"

text \<open>
  The heartbeat: a timer that renews the lease unless a renewal is still under way, and
  stops when the lease is lost. A renewal that throws is logged; the timer goes on.
\<close>

record heartbeat =
  timer_on :: bool
  heartbeatRunning :: bool

definition beat_start :: "heartbeat \<Rightarrow> heartbeat option" where
  "beat_start h = (if timer_on h \<and> \<not> heartbeatRunning h then Some (h\<lparr>heartbeatRunning := True\<rparr>) else None)"

definition beat_renew ::
  "int \<Rightarrow> string \<Rightarrow> int \<Rightarrow> string \<Rightarrow> string option \<Rightarrow> heartbeat \<times> db \<Rightarrow> heartbeat \<times> db" where
  "beat_renew leaseMs worker now tid fault s =
     (case fault of
        Some _ \<Rightarrow> ((fst s)\<lparr>heartbeatRunning := False\<rparr>, snd s)
      | None \<Rightarrow>
          let (row, db') = renewTransactionProcessingLease tid worker leaseMs now (snd s)
          in ((fst s)\<lparr>timer_on := timer_on (fst s) \<and> row \<noteq> None, heartbeatRunning := False\<rparr>, db'))"

text \<open>
  What \<open>processClaimedTransaction\<close> stores for a decision, and what it returns when its
  row was still there to be updated. \<open>ms\<close> and \<open>ms'\<close> are the process's clock at the one or
  two entries it appends to the timeline.
\<close>

definition settlement :: "jsval list \<Rightarrow> int \<Rightarrow> int \<Rightarrow> decision \<Rightarrow> (updates \<times> string) result" where
  "settlement timeline ms ms' d =
     (case d of
        Throw e \<Rightarrow> Inl e
      | DeclineUnrouted reason \<Rightarrow>
          Inr (no_updates\<lparr>u_status := Some ''DECLINED'', u_reason := Some reason, u_workerId := Some 1,
            u_timeline := Some (JArr (appendTimeline timeline ''DECLINED'' ms
              (''Transaction declined by processor: '' @ reason)))\<rparr>, ''DECLINED'')
      | Decline route reason \<Rightarrow>
          Inr (no_updates\<lparr>u_status := Some ''DECLINED'', u_route := Some route, u_reason := Some reason,
            u_workerId := Some 1,
            u_timeline := Some (JArr (appendTimeline timeline ''DECLINED'' ms
              (''Transaction declined by routed system: '' @ reason)))\<rparr>, ''DECLINED'')
      | Complete route res \<Rightarrow>
          Inr (no_updates\<lparr>u_status := Some ''COMPLETED'', u_route := Some route,
            u_result := Some (outcome_json res), u_workerId := Some 1,
            u_timeline := Some (JArr (appendTimeline
              (appendTimeline timeline ''PROCESSING'' ms ''BullMQ worker processed transaction'')
              ''COMPLETED'' ms' ''Transaction processed successfully''))\<rparr>, ''COMPLETED''))"

definition settle_step ::
  "config \<Rightarrow> string \<Rightarrow> int \<times> int \<Rightarrow> int \<Rightarrow> jsval \<Rightarrow> string \<Rightarrow> jsval list \<Rightarrow> db \<Rightarrow> run_result result \<times> db" where
  "settle_step cfg worker ms now txn tid timeline db =
     (case settlement timeline (fst ms) (snd ms) (decide cfg txn) of
        Inl e \<Rightarrow> (Inl e, db)
      | Inr (u, status) \<Rightarrow>
          let (row, db') = finalizeTransactionProcessing tid worker u now db
          in (Inr (if row = None then Skipped ''Transaction finalization lost'' else Finished status), db'))"

section \<open>A whole run\<close>

text \<open>
  The surroundings of a run: what others do to the database before the claim and before
  the outcome is stored (the heartbeats of the run itself are among it), which of its
  statements the database fails, and the clocks.
\<close>

record surroundings =
  before_claim :: "db \<Rightarrow> db"
  before_settle :: "db \<Rightarrow> db"
  read_fault :: "string option"
  claim_fault :: "string option"
  settle_fault :: "string option"
  claim_ms :: int
  settle_ms :: "int \<times> int"
  claim_now :: int
  settle_now :: int

definition calm :: "int \<Rightarrow> int \<Rightarrow> surroundings" where
  "calm ms now = \<lparr>before_claim = id, before_settle = id, read_fault = None, claim_fault = None,
     settle_fault = None, claim_ms = ms, settle_ms = (ms, ms), claim_now = now, settle_now = now\<rparr>"

definition handleTransactionJob ::
  "(string \<Rightarrow> string \<Rightarrow> string) \<Rightarrow> env \<Rightarrow> pg \<Rightarrow> int \<Rightarrow> string \<Rightarrow> surroundings \<Rightarrow> job \<Rightarrow> db \<Rightarrow>
    run_result result \<times> db" where
  "handleTransactionJob hmac env pg leaseMs worker s job db =
     (case (case read_fault s of Some m \<Rightarrow> Inl (DbError m)
            | None \<Rightarrow> read_step hmac env pg (claim_ms s) job db) of
        Inl e \<Rightarrow> (Inl e, db)
      | Inr (Skip reason) \<Rightarrow> (Inr (Skipped reason), db)
      | Inr (Claim txn tid timeline) \<Rightarrow>
          let db1 = before_claim s db in
          (case claim_fault s of
             Some m \<Rightarrow> (Inl (DbError m), db1)
           | None \<Rightarrow>
               let (won, db2) = claim_step leaseMs worker (claim_now s) tid timeline db1 in
               if \<not> won then (Inr (Skipped ''Transaction claim lost''), db2)
               else
                 let db3 = before_settle s db2 in
                 (case settle_fault s of
                    Some m \<Rightarrow> (Inl (DbError m), db3)
                  | None \<Rightarrow>
                      settle_step (config_of env) worker (settle_ms s) (settle_now s) txn tid timeline db3)))"

section \<open>The listener of failed jobs\<close>

text \<open>
  \<open>worker.on("failed", ...)\<close>. The queue has counted the attempt when it calls the
  listener. The last attempt leaves a dead letter and a \<open>FAILED\<close> transaction, an earlier
  one puts the transaction back to \<open>ACCEPTED\<close> for the retry.
\<close>

definition reset_updates :: "string \<Rightarrow> string \<Rightarrow> int \<Rightarrow> updates" where
  "reset_updates status reason attempts = no_updates\<lparr>u_status := Some status, u_reason := Some reason,
     u_retryCount := Some attempts, u_clearProcessing := True\<rparr>"

definition job_txn_id :: "pg \<Rightarrow> job \<Rightarrow> string option" where
  "job_txn_id pg job =
     (if truthy (job_data job) \<and> truthy (field (job_data job) ''id'')
      then bind_text pg (field (job_data job) ''id'') else None)"

definition reset_transaction :: "pg \<Rightarrow> job \<Rightarrow> string \<Rightarrow> string \<Rightarrow> int \<Rightarrow> db \<Rightarrow> db" where
  "reset_transaction pg job status message now db =
     (case job_txn_id pg job of
        Some tid \<Rightarrow>
          snd (updateTransaction tid (reset_updates status (redact message) (job_attemptsMade job)) now db)
      | None \<Rightarrow> db)"

definition on_failed ::
  "(string \<Rightarrow> string \<Rightarrow> string) \<Rightarrow> env \<Rightarrow> pg \<Rightarrow> int \<Rightarrow> job \<Rightarrow> string \<Rightarrow> db \<Rightarrow> db" where
  "on_failed hmac env pg now job message db =
     (let maxAttempts = (if job_attempts job = 0 then 1 else job_attempts job) in
      if job_attemptsMade job < maxAttempts then reset_transaction pg job ''ACCEPTED'' message now db
      else
        (case saveDeadLetterJob hmac env pg now job message db of
           (Inl _, db') \<Rightarrow> db'
         | (Inr _, db') \<Rightarrow> reset_transaction pg job ''FAILED'' message now db'))"

text \<open>
  One attempt of the queue at a job: the handler, and the listener when it threw. The
  message of an error the engine or the database raises is theirs.
\<close>

definition error_message :: "(js_error \<Rightarrow> string) \<Rightarrow> js_error \<Rightarrow> string" where
  "error_message text e = (case e of Error m \<Rightarrow> m | _ \<Rightarrow> text e)"

definition attempt_job ::
  "(string \<Rightarrow> string \<Rightarrow> string) \<Rightarrow> env \<Rightarrow> pg \<Rightarrow> (js_error \<Rightarrow> string) \<Rightarrow> int \<Rightarrow> string \<Rightarrow> surroundings \<Rightarrow> int \<Rightarrow> job \<Rightarrow> db \<Rightarrow>
    run_result result \<times> db" where
  "attempt_job hmac env pg text leaseMs worker s fail_now job db =
     (case handleTransactionJob hmac env pg leaseMs worker s job db of
        (Inl e, db') \<Rightarrow> (Inl e, on_failed hmac env pg fail_now job (error_message text e) db')
      | (Inr res, db') \<Rightarrow> (Inr res, db'))"

section \<open>What a run does\<close>

text \<open>A job as the outbox enqueues it: sanitized data that names its transaction.\<close>

definition job_names :: "job \<Rightarrow> string \<Rightarrow> bool" where
  "job_names job tid \<longleftrightarrow>
     is_object (job_data job) \<and> clean (job_data job) \<and> well_ordered (job_data job) \<and>
     js_get (job_data job) ''id'' = Inr (JStr tid) \<and> tid \<noteq> []"

lemma job_names_field: "job_names job tid \<Longrightarrow> field (job_data job) ''id'' = JStr tid"
  by (simp add: job_names_def field_def)

lemma job_names_sanitized:
  "job_names job tid \<Longrightarrow> sanitizePayload hmac env (job_data job) = Inr (job_data job)"
  by (simp add: job_names_def sanitizePayload_clean)

lemma get_by_value_JStr: "pg_laws pg \<Longrightarrow> get_by_value pg (JStr tid) db = getTransaction tid db"
  by (simp add: get_by_value_def pg_laws_def)

lemma getTransaction_id: "getTransaction tid db = Some r \<Longrightarrow> txn_id r = tid"
  by (auto simp: getTransaction_def dest: find_row_SomeD)

lemma read_step_skip:
  assumes "pg_laws pg" and "job_names job tid" and "getTransaction tid db = Some r"
    and "txn_status r \<noteq> ''ACCEPTED''"
  shows "read_step hmac env pg ms job db =
    Inr (Skip (if txn_status r \<in> set FINAL_STATUSES then ''Transaction already finalized''
      else ''Transaction is '' @ txn_status r))"
  using assms job_names_sanitized [OF assms(2), of hmac env]
  by (simp add: read_step_def job_names_def get_by_value_JStr)

lemma read_step_claim:
  assumes "pg_laws pg" and "job_names job tid" and "getTransaction tid db = Some r"
    and "txn_status r = ''ACCEPTED''" and "processing_timeline r = Some (JArr steps)"
  shows "read_step hmac env pg ms job db =
    Inr (Claim (job_data job) tid
      (appendTimeline steps ''PROCESSING'' ms ''BullMQ worker started processing''))"
  using assms job_names_sanitized [OF assms(2), of hmac env] getTransaction_id [OF assms(3)]
  by (simp add: read_step_def job_names_def get_by_value_JStr js_or_def FINAL_STATUSES_def)

lemma read_step_missing:
  assumes "pg_laws pg" and "job_names job tid" and "getTransaction tid db = None"
  shows "read_step hmac env pg ms job db = Inl (Error (''Transaction not found: '' @ tid))"
  using assms job_names_sanitized [OF assms(2), of hmac env]
  by (simp add: read_step_def job_names_def get_by_value_JStr)

lemma claim_step_txn: "claim_step leaseMs w now tid timeline db = claim_txn (Some (JArr timeline)) leaseMs now tid w db"
  by (simp add: claim_step_def claim_txn_def)

lemma settlement_finishing:
  "settlement timeline ms ms' d = Inr (u, st) \<Longrightarrow>
    finishing u \<and> u_status u = Some st \<and> st \<in> set FINAL_STATUSES"
  by (auto simp: settlement_def finishing_def FINAL_STATUSES_def split: decision.splits)

lemma settlement_timeline:
  "settlement timeline ms ms' d = Inr (u, st) \<Longrightarrow> \<exists>tl. u_timeline u = Some (JArr tl)"
  by (auto simp: settlement_def split: decision.splits)

lemma settle_step_finish:
  assumes "settlement timeline (fst ms) (snd ms) (decide cfg txn) = Inr (u, st)"
  shows "settle_step cfg w ms now txn tid timeline db =
    (Inr (if fst (finish_txn u now tid w db) then Finished st else Skipped ''Transaction finalization lost''),
     snd (finish_txn u now tid w db))"
  using assms by (auto simp: settle_step_def finish_txn_def case_prod_beta)

text \<open>A duplicate delivery, of a transaction that is taken or done: nothing is written.\<close>

lemma duplicate_run:
  assumes "pg_laws pg" and "job_names job tid" and "getTransaction tid db = Some r"
    and "txn_status r \<noteq> ''ACCEPTED''" and "read_fault s = None"
  shows "\<exists>reason. handleTransactionJob hmac env pg leaseMs w s job db = (Inr (Skipped reason), db)"
  using assms by (simp add: handleTransactionJob_def read_step_skip)

text \<open>A run that nobody disturbs does what was decided, to this transaction only.\<close>

lemma calm_run:
  assumes "pg_laws pg" and "job_names job tid" and "unique_txn_ids db"
    and row: "getTransaction tid db = Some r" "txn_status r = ''ACCEPTED''"
      "processing_timeline r = Some (JArr steps)"
    and settled: "settlement (appendTimeline steps ''PROCESSING'' ms ''BullMQ worker started processing'') ms ms
      (decide (config_of env) (job_data job)) = Inr (u, st)"
  shows "fst (handleTransactionJob hmac env pg leaseMs w (calm ms now) job db) = Inr (Finished st)"
    and "getTransaction i (snd (handleTransactionJob hmac env pg leaseMs w (calm ms now) job db)) =
      (if i = tid then Some (clear_processing (apply_updates u now
        (set_processing w (Some (JArr (appendTimeline steps ''PROCESSING'' ms ''BullMQ worker started processing'')))
          leaseMs now r)))
       else getTransaction i db)"
proof -
  let ?tl = "appendTimeline steps ''PROCESSING'' ms ''BullMQ worker started processing''"
  let ?db = "snd (claim_txn (Some (JArr ?tl)) leaseMs now tid w db)"
  have free: "claimable db tid" using row by (simp add: claimable_def)
  have won: "fst (claim_txn (Some (JArr ?tl)) leaseMs now tid w db)"
    using txn_lease.claim_wins [OF assms(3)] free by simp
  have held: "holder ?db tid = Some w" using txn_lease.claim_holds [OF assms(3) free] .
  have fin: "fst (finish_txn u now tid w ?db)"
    using txn_lease.release_iff [OF txn_lease.claim_ok [OF assms(3)]] held by blast
  have run: "handleTransactionJob hmac env pg leaseMs w (calm ms now) job db =
      (Inr (Finished st), snd (finish_txn u now tid w ?db))"
    using won fin settled
    by (simp add: handleTransactionJob_def calm_def read_step_claim [OF assms(1,2) row] claim_step_txn
        case_prod_beta settle_step_finish)
  then show "fst (handleTransactionJob hmac env pg leaseMs w (calm ms now) job db) = Inr (Finished st)"
    by simp
  have "getTransaction i ?db = (if i = tid then Some (set_processing w (Some (JArr ?tl)) leaseMs now r)
      else getTransaction i db)" for i
    using row by (simp add: claim_txn_def as_update_one case_prod_beta update_one_get)
  then show "getTransaction i (snd (handleTransactionJob hmac env pg leaseMs w (calm ms now) job db)) =
      (if i = tid then Some (clear_processing (apply_updates u now (set_processing w (Some (JArr ?tl)) leaseMs now r)))
       else getTransaction i db)"
    unfolding run snd_conv by (simp add: finish_txn_def as_update_one case_prod_beta update_one_get owns_def
        set_processing_def)
qed

text \<open>A run that throws after its claim leaves the claim to the listener.\<close>

lemma calm_run_throws:
  assumes "pg_laws pg" and "job_names job tid" and "unique_txn_ids db"
    and row: "getTransaction tid db = Some r" "txn_status r = ''ACCEPTED''"
      "processing_timeline r = Some (JArr steps)"
    and "decide (config_of env) (job_data job) = Throw e"
  shows "handleTransactionJob hmac env pg leaseMs w (calm ms now) job db =
    (Inl e, snd (claim_txn (Some (JArr (appendTimeline steps ''PROCESSING'' ms ''BullMQ worker started processing'')))
      leaseMs now tid w db))"
proof -
  have "claimable db tid" using row by (simp add: claimable_def)
  then have "fst (claim_txn timeline leaseMs now tid w db)" for timeline
    using txn_lease.claim_wins [OF assms(3)] by simp
  then show ?thesis
    using assms(7) by (simp add: handleTransactionJob_def calm_def read_step_claim [OF assms(1,2) row] claim_step_txn
        case_prod_beta settle_step_def settlement_def)
qed

text \<open>
  Fencing: whatever the others do meanwhile, a run that reports an outcome held the lease
  when it stored it, and what it reports is what it stored.
\<close>

lemma read_step_names:
  assumes "pg_laws pg" and "job_names job tid" and "read_step hmac env pg ms job db = Inr (Claim txn t timeline)"
  shows "t = tid"
proof (cases "getTransaction tid db")
  case None
  with read_step_missing [OF assms(1,2)] assms(3) show ?thesis by simp
next
  case (Some r)
  with assms job_names_sanitized [OF assms(2), of hmac env] getTransaction_id [OF Some] show ?thesis
    by (auto simp: read_step_def job_names_def get_by_value_JStr and_then_Inr_iff split: if_splits)
qed

lemma finish_txn_get:
  "getTransaction i (snd (finish_txn u now tid w db)) =
    (if i = tid then map_option (\<lambda>r. if owns w r then clear_processing (apply_updates u now r) else r) (getTransaction i db)
     else getTransaction i db)"
  by (simp add: finish_txn_def as_update_one case_prod_beta update_one_get)

lemma finished_run:
  assumes "pg_laws pg" and "job_names job tid"
    and run: "handleTransactionJob hmac env pg leaseMs w s job db = (Inr (Finished st), db')"
    and ok: "\<And>d. unique_txn_ids d \<Longrightarrow> unique_txn_ids (before_claim s d) \<and> unique_txn_ids (before_settle s d)"
      "unique_txn_ids db"
  obtains u d where "holder (before_settle s d) tid = Some w"
    and "db' = snd (finish_txn u (settle_now s) tid w (before_settle s d))"
    and "finishing u" "u_status u = Some st" "st \<in> set FINAL_STATUSES"
    and "unique_txn_ids (before_settle s d)"
proof -
  from run obtain txn t timeline d where
    plan: "read_step hmac env pg (claim_ms s) job db = Inr (Claim txn t timeline)"
    and won: "claim_step leaseMs w (claim_now s) t timeline (before_claim s db) = (True, d)"
    and settle: "settle_step (config_of env) w (settle_ms s) (settle_now s) txn t timeline (before_settle s d) =
      (Inr (Finished st), db')"
    by (auto simp: handleTransactionJob_def Let_def split: sum.splits option.splits plan.splits prod.splits if_splits)
  have t: "t = tid" using read_step_names [OF assms(1,2) plan] .
  from settle obtain u status where
    u: "settlement timeline (fst (settle_ms s)) (snd (settle_ms s)) (decide (config_of env) txn) = Inr (u, status)"
    by (auto simp: settle_step_def split: sum.splits)
  have d: "d = snd (claim_txn (Some (JArr timeline)) leaseMs (claim_now s) t w (before_claim s db))"
    using won by (simp add: claim_step_txn)
  have ok3: "unique_txn_ids (before_settle s d)"
    using ok txn_lease.claim_ok by (simp add: d)
  have fin: "fst (finish_txn u (settle_now s) t w (before_settle s d))" "st = status"
    "db' = snd (finish_txn u (settle_now s) t w (before_settle s d))"
    using settle u by (auto simp: settle_step_finish split: if_splits)
  have held: "holder (before_settle s d) t = Some w" using txn_lease.release_iff [OF ok3] fin(1) by blast
  show thesis using settlement_finishing [OF u] fin held ok3 t by (intro that [of d u]) auto
qed

section \<open>What the listener does\<close>

lemma getTransaction_updateTransaction:
  "u_clearProcessing u \<Longrightarrow>
    getTransaction i (snd (updateTransaction tid u now db)) =
      (if i = tid then map_option (\<lambda>r. clear_processing (apply_updates u now r)) (getTransaction i db)
       else getTransaction i db)"
  using update_one_get [of "\<lambda>r. clear_processing (apply_updates u now r)" i tid "\<lambda>_. True" db]
  by (simp add: updateTransaction_def update_one_def case_prod_beta Let_def)

lemma reset_updates_simps [simp]:
  "u_status (reset_updates st m n) = Some st" "u_reason (reset_updates st m n) = Some m"
  "u_retryCount (reset_updates st m n) = Some n" "u_clearProcessing (reset_updates st m n)"
  "u_timeline (reset_updates st m n) = None" "u_result (reset_updates st m n) = None"
  "u_route (reset_updates st m n) = None" "u_workerId (reset_updates st m n) = None"
  by (simp_all add: reset_updates_def no_updates_def)

text \<open>The row of a transaction after the listener has put it back or given it up.\<close>

definition reset_row :: "string \<Rightarrow> string \<Rightarrow> int \<Rightarrow> int \<Rightarrow> txn_row \<Rightarrow> txn_row" where
  "reset_row status reason attempts now r =
     clear_processing (apply_updates (reset_updates status reason attempts) now r)"

lemma reset_row_simps [simp]:
  "status \<noteq> [] \<Longrightarrow> txn_status (reset_row status reason n now r) = status"
  "retry_count (reset_row status reason n now r) = n"
  "reason \<noteq> [] \<Longrightarrow> txn_reason (reset_row status reason n now r) = Some reason"
  "processing_timeline (reset_row status reason n now r) = processing_timeline r"
  "processor_instance_id (reset_row status reason n now r) = None"
  "lease_expires_at (reset_row status reason n now r) = None"
  "txn_id (reset_row status reason n now r) = txn_id r"
  by (simp_all add: reset_row_def clear_processing_def apply_updates_def non_empty_def coalesce_val_def
      coalesce_def json_param_def)

lemma job_names_txn: "pg_laws pg \<Longrightarrow> job_names job tid \<Longrightarrow> job_txn_id pg job = Some tid"
  by (cases "job_data job") (auto simp: job_txn_id_def job_names_def field_def pg_laws_def)

lemma reset_transaction_get:
  assumes "pg_laws pg" and "job_names job tid"
  shows "getTransaction i (reset_transaction pg job status message now db) =
    (if i = tid then map_option (reset_row status (redact message) (job_attemptsMade job) now) (getTransaction i db)
     else getTransaction i db)"
  using assms by (simp add: reset_transaction_def job_names_txn getTransaction_updateTransaction
      reset_row_def [abs_def])

lemma frame_reset_transaction: "lifecycle_frame db (reset_transaction pg job status message now db)"
  by (simp add: reset_transaction_def frame_updateTransaction split: option.split)

lemma saveDeadLetterJob_transactions [simp]:
  "transactions (snd (saveDeadLetterJob hmac env pg now job message db)) = transactions db"
  "outbox_events (snd (saveDeadLetterJob hmac env pg now job message db)) = outbox_events db"
  by (auto simp: saveDeadLetterJob_def Let_def split: sum.split)

lemma on_failed_unique: "unique_txn_ids (on_failed hmac env pg now job message db) = unique_txn_ids db"
proof -
  have "unique_txn_ids (snd (saveDeadLetterJob hmac env pg now job message db)) = unique_txn_ids db"
    by (simp add: unique_txn_ids_def)
  then show ?thesis
    using frame_unique [OF frame_reset_transaction]
    by (auto simp: on_failed_def Let_def split: prod.split sum.split)
qed

definition job_remaining :: "job \<Rightarrow> bool" where
  "job_remaining job \<longleftrightarrow> job_attemptsMade job < (if job_attempts job = 0 then 1 else job_attempts job)"

lemma on_failed_retry:
  "job_remaining job \<Longrightarrow>
    on_failed hmac env pg now job message db = reset_transaction pg job ''ACCEPTED'' message now db"
  by (simp add: on_failed_def job_remaining_def Let_def)

text \<open>The dead letter a job leaves, given its id.\<close>

definition dead_letter :: "int \<Rightarrow> job \<Rightarrow> string \<Rightarrow> int \<Rightarrow> string \<Rightarrow> dead_row" where
  "dead_letter seq job message now tid =
     \<lparr>dl_id = seq, dl_job_id = job_id job, dl_txn_id = Some tid, dl_queue_name = job_queue job,
      dl_payload = the (to_json (job_data job)), dl_failed_reason = redact message,
      dl_attempts_made = job_attemptsMade job, dl_failed_at = now\<rparr>"

lemma saveDeadLetterJob_named:
  assumes "pg_laws pg" and "job_names job tid"
    and "dead_fits pg (dead_letter (dead_seq db) job message now tid)"
  shows "snd (saveDeadLetterJob hmac env pg now job message db) =
      db\<lparr>dead_letter_jobs := upsert_dead (dead_letter (dead_seq db) job message now tid) (dead_letter_jobs db),
         dead_seq := dead_seq db + 1\<rparr>"
    and "\<exists>d. fst (saveDeadLetterJob hmac env pg now job message db) = Inr d"
proof -
  obtain payload where payload: "to_json (job_data job) = Some payload"
    using assms(2) by (cases "job_data job") (auto simp: job_names_def)
  have data: "js_or (job_data job) (JObj []) = job_data job"
    using assms(2) by (cases "job_data job") (auto simp: job_names_def js_or_def)
  have id: "bind_text pg (or_null (field (job_data job) ''id'')) = Some tid"
    using assms(1) job_names_field [OF assms(2)] assms(2)
    by (simp add: or_null_def js_or_def pg_laws_def job_names_def)
  have all: "saveDeadLetterJob hmac env pg now job message db =
    (let rows = upsert_dead (dead_letter (dead_seq db) job message now tid) (dead_letter_jobs db) in
     (Inr (find_row dl_job_id (job_id job) rows),
      db\<lparr>dead_letter_jobs := rows, dead_seq := dead_seq db + 1\<rparr>))"
    using assms payload data id job_names_sanitized [OF assms(2), of hmac env]
    by (simp add: saveDeadLetterJob_def dead_letter_row_def not_null_def dead_letter_def Let_def)
  then show "snd (saveDeadLetterJob hmac env pg now job message db) =
      db\<lparr>dead_letter_jobs := upsert_dead (dead_letter (dead_seq db) job message now tid) (dead_letter_jobs db),
         dead_seq := dead_seq db + 1\<rparr>" by (simp add: Let_def)
  show "\<exists>d. fst (saveDeadLetterJob hmac env pg now job message db) = Inr d"
    using all by (simp add: Let_def)
qed

lemma on_failed_last:
  assumes "pg_laws pg" and "job_names job tid" and "\<not> job_remaining job"
    and "dead_fits pg (dead_letter (dead_seq db) job message now tid)"
  shows "on_failed hmac env pg now job message db =
    reset_transaction pg job ''FAILED'' message now
      (db\<lparr>dead_letter_jobs := upsert_dead (dead_letter (dead_seq db) job message now tid) (dead_letter_jobs db),
         dead_seq := dead_seq db + 1\<rparr>)"
proof -
  obtain d where "saveDeadLetterJob hmac env pg now job message db =
     (Inr d, db\<lparr>dead_letter_jobs := upsert_dead (dead_letter (dead_seq db) job message now tid) (dead_letter_jobs db),
         dead_seq := dead_seq db + 1\<rparr>)"
    using saveDeadLetterJob_named [OF assms(1,2,4), of hmac env] by (metis prod.collapse)
  with assms(3) show ?thesis by (simp add: on_failed_def job_remaining_def Let_def)
qed

section \<open>Attempts that throw\<close>

lemma attempt_throws:
  assumes "pg_laws pg" and "job_names job tid" and "unique_txn_ids db"
    and row: "getTransaction tid db = Some r" "txn_status r = ''ACCEPTED''"
      "processing_timeline r = Some (JArr steps)"
    and throws: "decide (config_of env) (job_data job) = Throw e"
    and last: "job_remaining job \<or>
      (\<forall>seq. dead_fits pg (dead_letter seq job (error_message text e) fail_now tid))"
  obtains r' steps' where
    "fst (attempt_job hmac env pg text leaseMs w (calm ms now) fail_now job db) = Inl e"
    "getTransaction tid (snd (attempt_job hmac env pg text leaseMs w (calm ms now) fail_now job db)) = Some r'"
    "txn_status r' = (if job_remaining job then ''ACCEPTED'' else ''FAILED'')"
    "retry_count r' = job_attemptsMade job"
    "processing_timeline r' = Some (JArr steps')"
    "processor_instance_id r' = None" "lease_expires_at r' = None"
    "dead_letter_jobs (snd (attempt_job hmac env pg text leaseMs w (calm ms now) fail_now job db)) =
      (if job_remaining job then dead_letter_jobs db
       else upsert_dead (dead_letter (dead_seq db) job (error_message text e) fail_now tid) (dead_letter_jobs db))"
    "unique_txn_ids (snd (attempt_job hmac env pg text leaseMs w (calm ms now) fail_now job db))"
proof -
  let ?tl = "appendTimeline steps ''PROCESSING'' ms ''BullMQ worker started processing''"
  let ?db = "snd (claim_txn (Some (JArr ?tl)) leaseMs now tid w db)"
  let ?r = "set_processing w (Some (JArr ?tl)) leaseMs now r"
  let ?m = "error_message text e"
  have all: "attempt_job hmac env pg text leaseMs w (calm ms now) fail_now job db =
      (Inl e, on_failed hmac env pg fail_now job ?m ?db)"
    using calm_run_throws [OF assms(1,2,3) row throws] by (simp add: attempt_job_def)
  have frame: "lifecycle_frame db ?db"
    by (simp add: claim_txn_def case_prod_beta frame_lifecycle)
  have get: "getTransaction tid ?db = Some ?r"
    using row by (simp add: claim_txn_def as_update_one case_prod_beta update_one_get)
  obtain xs where tl: "processing_timeline ?r = Some (JArr xs)"
    by (simp add: set_processing_def json_param_def coalesce_def)
  have uniq: "unique_txn_ids (on_failed hmac env pg fail_now job ?m ?db)"
    using assms(3) frame_unique [OF frame] by (simp add: on_failed_unique)
  show thesis
  proof (cases "job_remaining job")
    case True
    with get tl uniq frame_others(3) [OF frame] frame_others(3) [OF frame_reset_transaction] show thesis
      by (intro that [of "reset_row ''ACCEPTED'' (redact ?m) (job_attemptsMade job) fail_now ?r" xs])
        (simp_all add: all on_failed_retry reset_transaction_get [OF assms(1,2)])
  next
    case False
    have seq: "dead_seq ?db = dead_seq db" "dead_letter_jobs ?db = dead_letter_jobs db"
      using frame_others [OF frame] by auto
    have "on_failed hmac env pg fail_now job ?m ?db = reset_transaction pg job ''FAILED'' ?m fail_now
        (?db\<lparr>dead_letter_jobs := upsert_dead (dead_letter (dead_seq db) job ?m fail_now tid) (dead_letter_jobs db),
            dead_seq := dead_seq db + 1\<rparr>)"
      using on_failed_last [OF assms(1,2) False, of ?db] last False seq by simp
    moreover have "getTransaction tid (d\<lparr>dead_letter_jobs := x, dead_seq := y\<rparr>) = getTransaction tid d"
      for d :: db and x y by (simp add: getTransaction_def)
    ultimately show thesis using get tl uniq False frame_others(3) [OF frame_reset_transaction]
      by (intro that [of "reset_row ''FAILED'' (redact ?m) (job_attemptsMade job) fail_now ?r" xs])
        (simp_all add: all reset_transaction_get [OF assms(1,2)])
  qed
qed

section \<open>Properties\<close>

text \<open>C11: Whatever other processes do between its statements, a worker run that reports a final
  status held the lease of the transaction of its job at the moment it stored the outcome; the
  stored row has exactly the reported status and no lease any more, and no other transaction
  was touched by that statement.\<close>

theorem finished_run_held_lease:
  assumes "pg_laws pg" and "job_names job tid"
    and "handleTransactionJob hmac env pg leaseMs w s job db = (Inr (Finished st), db')"
    and "\<And>d. unique_txn_ids d \<Longrightarrow> unique_txn_ids (before_claim s d) \<and> unique_txn_ids (before_settle s d)"
    and "unique_txn_ids db"
  shows "st \<in> set FINAL_STATUSES \<and>
    (\<exists>d row. holder (before_settle s d) tid = Some w \<and>
       getTransaction tid db' = Some row \<and> txn_status row = st \<and> lease_columns row \<and>
       (\<forall>i. i \<noteq> tid \<longrightarrow> getTransaction i db' = getTransaction i (before_settle s d)))"
proof -
  obtain u d where held: "holder (before_settle s d) tid = Some w"
    and db': "db' = snd (finish_txn u (settle_now s) tid w (before_settle s d))"
    and u: "finishing u" "u_status u = Some st" "st \<in> set FINAL_STATUSES"
    using finished_run [OF assms] by blast
  obtain r where r: "getTransaction tid (before_settle s d) = Some r" "owns w r"
    using held by (auto simp: holder_def owns_def split: option.splits if_splits)
  let ?row = "clear_processing (apply_updates u (settle_now s) r)"
  have "getTransaction tid db' = Some ?row" using r by (simp add: db' finish_txn_get)
  moreover have "txn_status ?row = st"
    using u by (auto simp: clear_processing_def apply_updates_def non_empty_def coalesce_val_def FINAL_STATUSES_def)
  moreover from this have "lease_columns ?row"
    using u(3) by (auto simp: lease_columns_def clear_processing_def FINAL_STATUSES_def)
  moreover have "\<forall>i. i \<noteq> tid \<longrightarrow> getTransaction i db' = getTransaction i (before_settle s d)"
    by (simp add: db' finish_txn_get)
  ultimately show ?thesis using u(3) held by blast
qed

definition queued_sample :: "jsval \<Rightarrow> job" where
  "queued_sample amount = \<lparr>job_id = ''t'', job_data = JObj
     [(''id'', JStr ''t''), (''amount'', amount), (''type'', JStr ''BALANCE_INQUIRY''),
      (''issuerType'', JStr ''INTERNAL'')],
     job_queue = ''transaction-processing'', job_attemptsMade = 0, job_attempts = 3\<rparr>"

lemma queued_sample_names: "\<not> is_object amount \<Longrightarrow> clean amount \<Longrightarrow> well_ordered amount \<Longrightarrow> job_names (queued_sample amount) ''t''"
  by (simp add: job_names_def queued_sample_def sensitive_key_def ordered_props_def key_before_def is_index_def
      is_digit_def prop_of_def)

lemma sample_db_row:
  "getTransaction ''t'' (sample_db [sample_row ''t'' st]) = Some (sample_row ''t'' st)"
  "unique_txn_ids (sample_db [sample_row ''t'' st])"
  "txn_status (sample_row ''t'' st) = st" "processing_timeline (sample_row ''t'' st) = Some (JArr [])"
  by (simp_all add: getTransaction_def sample_db_def sample_row_def unique_txn_ids_def)

lemma sample_decisions:
  "decide cfg (job_data (queued_sample (JNum (Fin 5)))) =
    Complete ''INTERNAL'' (Success ''BALANCE_SYSTEM'' (''balance'', JNum (inquiryBalance cfg)))"
  "decide cfg (job_data (queued_sample (JNum (Fin 999)))) = Throw (Error ''Simulated processor failure'')"
proof -
  have fields: "field (job_data (queued_sample a)) ''amount'' = a"
    "field (job_data (queued_sample a)) ''type'' = JStr ''BALANCE_INQUIRY''"
    "field (job_data (queued_sample a)) ''issuerType'' = JStr ''INTERNAL''" for a
    by (simp_all add: queued_sample_def prop_of_def)
  show "decide cfg (job_data (queued_sample (JNum (Fin 5)))) =
    Complete ''INTERNAL'' (Success ''BALANCE_SYSTEM'' (''balance'', JNum (inquiryBalance cfg)))"
    "decide cfg (job_data (queued_sample (JNum (Fin 999)))) = Throw (Error ''Simulated processor failure'')"
    by (simp_all add: decide_internal [OF fields] decision_table_def)
qed

theorem finished_run_held_lease_witness:
  "\<exists>row. getTransaction ''t'' (snd (handleTransactionJob (\<lambda>s d. d) sample_env sample_pg 1000 ''w'' (calm 0 0)
      (queued_sample (JNum (Fin 5))) (sample_db [sample_row ''t'' ''ACCEPTED'']))) = Some row \<and>
    txn_status row = ''COMPLETED''"
proof -
  have names: "job_names (queued_sample (JNum (Fin 5))) ''t''" by (rule queued_sample_names) simp_all
  obtain u where "settlement (appendTimeline [] ''PROCESSING'' 0 ''BullMQ worker started processing'') 0 0
      (decide (config_of sample_env) (job_data (queued_sample (JNum (Fin 5))))) = Inr (u, ''COMPLETED'')"
    by (simp add: sample_decisions settlement_def)
  from calm_run(1) [OF sample_pg_laws names sample_db_row(2,1,3,4) this]
  have run: "handleTransactionJob (\<lambda>s d. d) sample_env sample_pg 1000 ''w'' (calm 0 0) (queued_sample (JNum (Fin 5)))
      (sample_db [sample_row ''t'' ''ACCEPTED'']) = (Inr (Finished ''COMPLETED''),
        snd (handleTransactionJob (\<lambda>s d. d) sample_env sample_pg 1000 ''w'' (calm 0 0) (queued_sample (JNum (Fin 5)))
          (sample_db [sample_row ''t'' ''ACCEPTED''])))"
    by (simp add: prod_eq_iff)
  show ?thesis
    using finished_run_held_lease [OF sample_pg_laws names run _ sample_db_row(2)] by (auto simp: calm_def)
qed

text \<open>A job that is delivered again while its transaction is taken or done is skipped: the run
  reports the reason and writes nothing, so at-least-once delivery of the queue is harmless.\<close>

lemma duplicate_delivery_ignored:
  assumes "pg_laws pg" and "job_names job tid" and "getTransaction tid db = Some r"
    and "txn_status r \<noteq> ''ACCEPTED''" and "read_fault s = None"
  shows "attempt_job hmac env pg text leaseMs w s fail_now job db =
    (Inr (Skipped (if txn_status r \<in> set FINAL_STATUSES then ''Transaction already finalized''
       else ''Transaction is '' @ txn_status r)), db)"
  using assms by (simp add: attempt_job_def handleTransactionJob_def read_step_skip)

text \<open>
  The attempts of the queue at one job, all failing in the same way: the times of the run and
  of the listener and the worker of each; the queue counts the attempt before it tells the
  listener. The job is given with the attempts made so far.
\<close>

record attempt =
  at_worker :: string
  at_ms :: int
  at_now :: int
  at_failed :: int

definition next_attempt :: "job \<Rightarrow> job" where
  "next_attempt job = job\<lparr>job_attemptsMade := job_attemptsMade job + 1\<rparr>"

primrec attempts_of ::
  "(string \<Rightarrow> string \<Rightarrow> string) \<Rightarrow> env \<Rightarrow> pg \<Rightarrow> (js_error \<Rightarrow> string) \<Rightarrow> int \<Rightarrow> attempt list \<Rightarrow> job \<Rightarrow> db \<Rightarrow> db" where
  "attempts_of hmac env pg text leaseMs [] job db = db"
| "attempts_of hmac env pg text leaseMs (a # tries) job db =
     attempts_of hmac env pg text leaseMs tries (next_attempt job)
       (snd (attempt_job hmac env pg text leaseMs (at_worker a) (calm (at_ms a) (at_now a)) (at_failed a)
          (next_attempt job) db))"

lemma next_attempt_simps [simp]:
  "job_data (next_attempt job) = job_data job" "job_id (next_attempt job) = job_id job"
  "job_attempts (next_attempt job) = job_attempts job" "job_queue (next_attempt job) = job_queue job"
  "job_attemptsMade (next_attempt job) = job_attemptsMade job + 1"
  "job_names (next_attempt job) tid = job_names job tid"
  by (simp_all add: next_attempt_def job_names_def)

definition awaits_retry :: "string \<Rightarrow> int \<Rightarrow> db \<Rightarrow> bool" where
  "awaits_retry tid n db \<longleftrightarrow>
     (\<exists>r steps. getTransaction tid db = Some r \<and> txn_status r = ''ACCEPTED'' \<and> retry_count r = n \<and>
        processing_timeline r = Some (JArr steps))"

definition given_up :: "string \<Rightarrow> job \<Rightarrow> string \<Rightarrow> db \<Rightarrow> db \<Rightarrow> bool" where
  "given_up tid job message before after \<longleftrightarrow>
     (\<exists>r. getTransaction tid after = Some r \<and> txn_status r = ''FAILED'' \<and> retry_count r = job_attempts job) \<and>
     (\<exists>seq now. dead_letter_jobs after =
        upsert_dead (dead_letter seq (job\<lparr>job_attemptsMade := job_attempts job\<rparr>) message now tid) (dead_letter_jobs before))"

lemma next_attempt_remaining: "0 < job_attempts job \<Longrightarrow> job_remaining (next_attempt job) \<longleftrightarrow> job_attemptsMade job + 1 < job_attempts job"
  by (simp add: job_remaining_def)

lemma attempts_fail:
  assumes "pg_laws pg" and "job_names job tid" and "unique_txn_ids db"
    and "awaits_retry tid (job_attemptsMade job) db" and "0 < job_attempts job"
    and throws: "decide (config_of env) (job_data job) = Throw e"
    and fits: "\<And>seq n t. dead_fits pg (dead_letter seq (job\<lparr>job_attemptsMade := n\<rparr>) (error_message text e) t tid)"
    and "job_attemptsMade job + int (length tries) \<le> job_attempts job"
  shows "if job_attemptsMade job + int (length tries) < job_attempts job \<or> tries = []
    then awaits_retry tid (job_attemptsMade job + int (length tries)) (attempts_of hmac env pg text leaseMs tries job db) \<and>
      dead_letter_jobs (attempts_of hmac env pg text leaseMs tries job db) = dead_letter_jobs db
    else given_up tid job (error_message text e) db (attempts_of hmac env pg text leaseMs tries job db)"
  using assms
proof (induction tries arbitrary: job db)
  case Nil
  then show ?case by simp
next
  case (Cons a tries)
  obtain r steps where row: "getTransaction tid db = Some r" "txn_status r = ''ACCEPTED''"
    "processing_timeline r = Some (JArr steps)"
    using Cons.prems(4) by (auto simp: awaits_retry_def)
  let ?job = "next_attempt job"
  let ?db = "snd (attempt_job hmac env pg text leaseMs (at_worker a) (calm (at_ms a) (at_now a)) (at_failed a) ?job db)"
  have names: "job_names ?job tid" using Cons.prems(2) by simp
  have throws: "decide (config_of env) (job_data ?job) = Throw e" using Cons.prems(6) by simp
  have "\<forall>seq. dead_fits pg (dead_letter seq ?job (error_message text e) (at_failed a) tid)"
    using Cons.prems(7) by (simp add: next_attempt_def)
  then obtain r' steps' where
    r': "getTransaction tid ?db = Some r'" "txn_status r' = (if job_remaining ?job then ''ACCEPTED'' else ''FAILED'')"
      "retry_count r' = job_attemptsMade job + 1" "processing_timeline r' = Some (JArr steps')"
    and dead: "dead_letter_jobs ?db = (if job_remaining ?job then dead_letter_jobs db
       else upsert_dead (dead_letter (dead_seq db) ?job (error_message text e) (at_failed a) tid) (dead_letter_jobs db))"
    and unique: "unique_txn_ids ?db"
    using attempt_throws [OF Cons.prems(1) names Cons.prems(3) row throws, of "text" "at_failed a" hmac leaseMs
        "at_worker a" "at_ms a" "at_now a"]
    by (simp only: next_attempt_simps) blast
  note remaining = next_attempt_remaining [OF Cons.prems(5)]
  show ?case
  proof (cases "job_remaining ?job")
    case True
    have "awaits_retry tid (job_attemptsMade ?job) ?db"
      using r' True by (auto simp: awaits_retry_def)
    moreover have "dead_fits pg (dead_letter seq (?job\<lparr>job_attemptsMade := n\<rparr>) (error_message text e) t tid)" for seq n t
      using Cons.prems(7) by (simp add: next_attempt_def)
    ultimately have "if job_attemptsMade ?job + int (length tries) < job_attempts ?job \<or> tries = []
      then awaits_retry tid (job_attemptsMade ?job + int (length tries)) (attempts_of hmac env pg text leaseMs tries ?job ?db) \<and>
        dead_letter_jobs (attempts_of hmac env pg text leaseMs tries ?job ?db) = dead_letter_jobs ?db
      else given_up tid ?job (error_message text e) ?db (attempts_of hmac env pg text leaseMs tries ?job ?db)"
      using Cons.prems(1,5,6,8) names unique by (intro Cons.IH) auto
    then show ?thesis
      using True dead remaining by (auto simp: given_up_def next_attempt_def add.assoc split: if_splits)
  next
    case False
    with Cons.prems(8) remaining have "tries = []" and n: "job_attemptsMade job + 1 = job_attempts job"
      by (cases tries; simp)+
    have eq: "?job = job\<lparr>job_attemptsMade := job_attempts job\<rparr>" using n by (simp add: next_attempt_def)
    have "dead_letter_jobs ?db = upsert_dead (dead_letter (dead_seq db) (job\<lparr>job_attemptsMade := job_attempts job\<rparr>)
        (error_message text e) (at_failed a) tid) (dead_letter_jobs db)"
      unfolding eq [symmetric] using dead False by simp
    then show ?thesis using False r' n \<open>tries = []\<close> unfolding given_up_def by auto
  qed
qed

text \<open>C13: A job whose transaction always fails to be processed is tried as often as the queue was
  told. As long as attempts are left, each failed one puts the transaction back to
  \<open>ACCEPTED\<close> with the number of attempts and stores no dead letter; the last one leaves it
  \<open>FAILED\<close>, with all attempts counted, and one dead letter with the redacted reason.\<close>

theorem exhausted_job_dead_lettered:
  assumes "pg_laws pg" and "job_names job tid" and "unique_txn_ids db" and "awaits_retry tid 0 db"
    and "job_attemptsMade job = 0" and "0 < job_attempts job" and "int (length tries) \<le> job_attempts job"
    and "decide (config_of env) (job_data job) = Throw e"
    and "\<And>seq n t. dead_fits pg (dead_letter seq (job\<lparr>job_attemptsMade := n\<rparr>) (error_message text e) t tid)"
  shows "if int (length tries) < job_attempts job
    then awaits_retry tid (int (length tries)) (attempts_of hmac env pg text leaseMs tries job db) \<and>
      dead_letter_jobs (attempts_of hmac env pg text leaseMs tries job db) = dead_letter_jobs db
    else given_up tid job (error_message text e) db (attempts_of hmac env pg text leaseMs tries job db)"
proof -
  have "awaits_retry tid (job_attemptsMade job) db" "job_attemptsMade job + int (length tries) \<le> job_attempts job"
    using assms(4,5,7) by simp_all
  from attempts_fail [where hmac = hmac and leaseMs = leaseMs, OF assms(1-3) this(1) assms(6,8,9) this(2)] show ?thesis
    using assms(5,6) by (auto split: if_splits)
qed

theorem exhausted_job_dead_lettered_witness:
  "given_up ''t'' (queued_sample (JNum (Fin 999))) ''Simulated processor failure'' (sample_db [sample_row ''t'' ''ACCEPTED''])
    (attempts_of (\<lambda>s d. d) sample_env sample_pg (\<lambda>_. ''error'') 1000
      [\<lparr>at_worker = ''w1'', at_ms = 0, at_now = 0, at_failed = 1\<rparr>, \<lparr>at_worker = ''w2'', at_ms = 2, at_now = 2, at_failed = 3\<rparr>,
       \<lparr>at_worker = ''w1'', at_ms = 4, at_now = 4, at_failed = 5\<rparr>]
      (queued_sample (JNum (Fin 999))) (sample_db [sample_row ''t'' ''ACCEPTED'']))"
proof -
  let ?job = "queued_sample (JNum (Fin 999))"
  have names: "job_names ?job ''t''" by (rule queued_sample_names) simp_all
  have waits: "awaits_retry ''t'' 0 (sample_db [sample_row ''t'' ''ACCEPTED''])"
    unfolding awaits_retry_def using sample_db_row by (intro exI conjI) (auto simp: sample_row_def)
  have counts: "job_attemptsMade ?job = 0" "0 < job_attempts ?job" "job_attempts ?job = 3"
    by (simp_all add: queued_sample_def)
  have fits: "\<And>seq n t. dead_fits sample_pg (dead_letter seq (?job\<lparr>job_attemptsMade := n\<rparr>)
      (error_message (\<lambda>_. ''error'') (Error ''Simulated processor failure'')) t ''t'')"
    by (simp add: sample_pg_def)
  show ?thesis
    using exhausted_job_dead_lettered [where hmac = "\<lambda>s d. d" and leaseMs = 1000 and tries =
        "[\<lparr>at_worker = ''w1'', at_ms = 0, at_now = 0, at_failed = 1\<rparr>, \<lparr>at_worker = ''w2'', at_ms = 2, at_now = 2, at_failed = 3\<rparr>,
          \<lparr>at_worker = ''w1'', at_ms = 4, at_now = 4, at_failed = 5\<rparr>]",
        OF sample_pg_laws names sample_db_row(2) waits counts(1,2) _ sample_decisions(2) fits]
    by (simp add: counts error_message_def)
qed

text \<open>The listener of failed jobs does not look at the transaction's status. An attempt that
  cannot even read its transaction counts as failed, and unless it was the last one the
  listener puts the transaction back to \<open>ACCEPTED\<close> and clears the lease, also one that another
  run has completed, or is working on, in the meantime.\<close>

lemma failed_read_reopens:
  assumes "pg_laws pg" and "job_names job tid" and "getTransaction tid db = Some r"
    and "read_fault s = Some m" and "job_remaining job"
  shows "\<exists>r'. getTransaction tid (snd (attempt_job hmac env pg text leaseMs w s fail_now job db)) = Some r' \<and>
    txn_status r' = ''ACCEPTED'' \<and> retry_count r' = job_attemptsMade job \<and>
    processor_instance_id r' = None \<and> lease_expires_at r' = None"
  using assms
  by (simp add: attempt_job_def handleTransactionJob_def on_failed_retry reset_transaction_get)

end
