(* ===== verification/Auth.thy ===== *)
theory Auth
  imports Tables "HOL-Library.Word"
begin

text \<open>
  \<open>middleware/apiKeyAuth.js\<close>, \<open>middleware/statusAuthorization.js\<close> and
  \<open>middleware/corsConfig.js\<close>: which keys the environment configures, who a request comes
  from, and what a caller may see. Header values and variables are strings of code units
  below 256; \<open>Buffer.from\<close> encodes them in UTF-8.
\<close>

section \<open>Configured keys\<close>

record credential =
  cred_clientId :: string
  cred_key :: string

definition DEV_API_KEY :: string where
  "DEV_API_KEY = ''dev-api-key''"

definition DEV_ADMIN_API_KEY :: string where
  "DEV_ADMIN_API_KEY = ''dev-admin-api-key''"

text \<open>The value of a variable that is set to a non-empty text.\<close>

definition env_text :: "env \<Rightarrow> string \<Rightarrow> string option" where
  "env_text env name = (case env name of Some (c # cs) \<Rightarrow> Some (c # cs) | _ \<Rightarrow> None)"

text \<open>\<open>[...new Set(xs)]\<close>: the first occurrence of each element.\<close>

fun unique :: "'a list \<Rightarrow> 'a list" where
  "unique [] = []"
| "unique (x # xs) = x # filter (\<lambda>y. y \<noteq> x) (unique xs)"

definition parseKeys :: "string \<times> string \<Rightarrow> env \<Rightarrow> string list" where
  "parseKeys names env =
     unique (filter (\<lambda>k. k \<noteq> [])
       ((case env_text env (fst names) of
           Some s \<Rightarrow> filter (\<lambda>k. k \<noteq> []) (map trim (split_on CHR '','' s)) | None \<Rightarrow> []) @
        (case env_text env (snd names) of Some s \<Rightarrow> [trim s] | None \<Rightarrow> [])))"

definition default_client :: "env \<Rightarrow> string" where
  "default_client env =
     (case env_text env ''API_CLIENT_ID'' of Some s \<Rightarrow> s
      | None \<Rightarrow> (case env_text env ''CLIENT_ID'' of Some s \<Rightarrow> s | None \<Rightarrow> ''default-client''))"

definition parse_credential :: "string \<Rightarrow> string \<Rightarrow> credential" where
  "parse_credential defaultClientId entry =
     (if CHR '':'' \<notin> set entry then \<lparr>cred_clientId = defaultClientId, cred_key = entry\<rparr>
      else
        let name = trim (takeWhile (\<lambda>c. c \<noteq> CHR '':'') entry) in
        \<lparr>cred_clientId = (if name = [] then defaultClientId else name),
         cred_key = trim (tl (dropWhile (\<lambda>c. c \<noteq> CHR '':'') entry))\<rparr>)"

definition parseApiCredentials :: "env \<Rightarrow> credential list" where
  "parseApiCredentials env =
     filter (\<lambda>c. cred_key c \<noteq> [])
       (map (parse_credential (default_client env)) (parseKeys (''API_KEYS'', ''API_KEY'') env))"

definition parseApiKeys :: "env \<Rightarrow> string list" where
  "parseApiKeys env = map cred_key (parseApiCredentials env)"

definition parseAdminApiKeys :: "env \<Rightarrow> string list" where
  "parseAdminApiKeys env = parseKeys (''ADMIN_API_KEYS'', ''ADMIN_API_KEY'') env"

definition getConfiguredApiCredentials :: "env \<Rightarrow> credential list" where
  "getConfiguredApiCredentials env =
     (if parseApiCredentials env \<noteq> [] then parseApiCredentials env
      else if is_production env then []
      else [\<lparr>cred_clientId = ''development-client'', cred_key = DEV_API_KEY\<rparr>])"

definition getConfiguredApiKeys :: "env \<Rightarrow> string list" where
  "getConfiguredApiKeys env = map cred_key (getConfiguredApiCredentials env)"

definition getConfiguredAdminApiKeys :: "env \<Rightarrow> string list" where
  "getConfiguredAdminApiKeys env =
     (if parseAdminApiKeys env \<noteq> [] then parseAdminApiKeys env
      else if is_production env then [] else [DEV_ADMIN_API_KEY])"

definition validateApiKeyConfiguration :: "env \<Rightarrow> unit result" where
  "validateApiKeyConfiguration env =
     (if is_production env \<and> length (parseApiKeys env) = 0
      then Inl (Error ''API_KEY or API_KEYS must be set when NODE_ENV=production'') else Inr ())"

definition validateAdminApiKeyConfiguration :: "env \<Rightarrow> unit result" where
  "validateAdminApiKeyConfiguration env =
     (let adminEndpointsEnabled = (env ''ADMIN_ENDPOINTS_ENABLED'' \<noteq> Some ''false'') in
      if is_production env \<and> adminEndpointsEnabled \<and> length (parseAdminApiKeys env) = 0
      then Inl (Error (''ADMIN_API_KEY or ADMIN_API_KEYS must be set when NODE_ENV=production '' @
        ''and admin endpoints are enabled''))
      else Inr ())"

section \<open>Comparing keys\<close>

text \<open>The UTF-8 bytes of a code unit below 256.\<close>

definition utf8_char :: "char \<Rightarrow> 8 word list" where
  "utf8_char c =
     (let n = of_char c :: nat in
      if n < 128 then [of_nat n] else [of_nat (192 + n div 64), of_nat (128 + n mod 64)])"

definition utf8 :: "string \<Rightarrow> 8 word list" where
  "utf8 s = concat (map utf8_char s)"

text \<open>\<open>crypto.timingSafeEqual\<close> on buffers of one length: every byte is looked at.\<close>

definition timingSafeEqual :: "8 word list \<Rightarrow> 8 word list \<Rightarrow> bool" where
  "timingSafeEqual a b = (fold (\<lambda>(x, y) acc. or acc (xor x y)) (zip a b) 0 = 0)"

definition constantTimeEquals :: "string \<Rightarrow> string \<Rightarrow> bool" where
  "constantTimeEquals a b =
     (let aBuffer = utf8 a; bBuffer = utf8 b in
      if length aBuffer \<noteq> length bBuffer then False else timingSafeEqual aBuffer bBuffer)"

definition authenticateApiKey :: "string option \<Rightarrow> credential list \<Rightarrow> credential option" where
  "authenticateApiKey providedKey credentials =
     (case providedKey of
        None \<Rightarrow> None
      | Some key \<Rightarrow> if key = [] then None else find (\<lambda>c. constantTimeEquals key (cred_key c)) credentials)"

definition isValidApiKey :: "string option \<Rightarrow> string list \<Rightarrow> bool" where
  "isValidApiKey providedKey configuredKeys =
     (authenticateApiKey providedKey
        (map (\<lambda>k. \<lparr>cred_clientId = ''unknown'', cred_key = k\<rparr>) configuredKeys) \<noteq> None)"

definition isValidAdminApiKey :: "string option \<Rightarrow> string list \<Rightarrow> bool" where
  "isValidAdminApiKey providedKey configuredKeys =
     (case providedKey of
        None \<Rightarrow> False
      | Some key \<Rightarrow> if key = [] then False else list_ex (constantTimeEquals key) configuredKeys)"

section \<open>The middleware\<close>

text \<open>The headers of a request by lower-case name, what a middleware answers or passes on.\<close>

type_synonym headers = "string \<Rightarrow> string option"
type_synonym response = "nat \<times> jsval"

datatype auth = Admin | Client string

definition rejection :: "nat \<Rightarrow> string \<Rightarrow> response" where
  "rejection code reason =
     (code, JObj [(''status'', JStr ''REJECTED''), (''reason'', JStr reason)])"

definition apiKeyAuth :: "env \<Rightarrow> headers \<Rightarrow> response + auth" where
  "apiKeyAuth env hdr =
     (case authenticateApiKey (hdr ''x-api-key'') (getConfiguredApiCredentials env) of
        None \<Rightarrow> Inl (rejection 401 ''Unauthorized API request'')
      | Some c \<Rightarrow> Inr (Client (cred_clientId c)))"

definition adminApiKeyAuth :: "env \<Rightarrow> headers \<Rightarrow> response + unit" where
  "adminApiKeyAuth env hdr =
     (if \<not> isValidAdminApiKey (hdr ''x-admin-api-key'') (getConfiguredAdminApiKeys env)
      then Inl (rejection 401 ''Unauthorized admin API request'') else Inr ())"

definition apiKeyOrAdminAuth :: "env \<Rightarrow> headers \<Rightarrow> response + auth" where
  "apiKeyOrAdminAuth env hdr =
     (if isValidAdminApiKey (hdr ''x-admin-api-key'') (getConfiguredAdminApiKeys env)
      then Inr Admin else apiKeyAuth env hdr)"

definition canAccessTransactionStatus :: "auth option \<Rightarrow> txn_row option \<Rightarrow> bool" where
  "canAccessTransactionStatus a txn =
     (case (a, txn) of
        (Some Admin, Some _) \<Rightarrow> True
      | (Some (Client c), Some r) \<Rightarrow> client_id r = Some c
      | _ \<Rightarrow> False)"

section \<open>CORS\<close>

definition parseAllowedOrigins :: "env \<Rightarrow> string list" where
  "parseAllowedOrigins env =
     (case env_text env ''ALLOWED_ORIGINS'' of
        None \<Rightarrow> []
      | Some s \<Rightarrow> filter (\<lambda>x. x \<noteq> []) (map trim (split_on CHR '','' s)))"

definition isOriginAllowed :: "string option \<Rightarrow> env \<Rightarrow> bool" where
  "isOriginAllowed origin env =
     (case origin of
        None \<Rightarrow> True
      | Some x \<Rightarrow> if x = [] then True else if \<not> is_production env then True
                  else x \<in> set (parseAllowedOrigins env))"

definition buildCorsOptions :: "env \<Rightarrow> string option \<Rightarrow> bool result" where
  "buildCorsOptions env origin =
     (if isOriginAllowed origin env then Inr True else Inl (Error ''CORS origin not allowed''))"

section \<open>Facts\<close>

lemma set_unique [simp]: "set (unique xs) = set xs"
  by (induction xs) auto

lemma distinct_unique [simp]: "distinct (unique xs)"
  by (induction xs) auto

lemma utf8_char_lead:
  "of_char c < (128::nat) \<Longrightarrow> utf8_char c = [of_nat (of_char c)]"
  "\<not> of_char c < (128::nat) \<Longrightarrow>
    utf8_char c = [of_nat (192 + of_char c div 64), of_nat (128 + of_char c mod 64)]"
  by (simp_all add: utf8_char_def Let_def)

lemma of_char_below: "(of_char c :: nat) < 256"
  by (metis mod_less_divisor of_char_mod_256 zero_less_numeral)

lemma byte_eq: "m < 256 \<Longrightarrow> n < 256 \<Longrightarrow> (of_nat m :: 8 word) = of_nat n \<longleftrightarrow> m = n"
  by (simp add: word_of_nat_eq_iff take_bit_nat_eq_self)

text \<open>The encoding of a character can be told from what follows it.\<close>

lemma utf8_char_unique:
  assumes "utf8_char c @ xs = utf8_char d @ ys"
  shows "c = d \<and> xs = ys"
proof -
  have small: "of_char c < (256::nat)" "of_char d < (256::nat)" by (rule of_char_below)+
  then have quot: "of_char c div 64 < (4::nat)" "of_char d div 64 < (4::nat)"
    by (auto intro: less_mult_imp_div_less)
  have "(of_char c :: nat) = of_char d \<and> xs = ys"
  proof (cases "of_char c < (128::nat)"; cases "of_char d < (128::nat)")
    assume "of_char c < (128::nat)" "of_char d < (128::nat)"
    with assms show ?thesis by (simp add: utf8_char_lead byte_eq)
  next
    assume lt: "of_char c < (128::nat)" "\<not> of_char d < (128::nat)"
    then have "(of_nat (of_char c) :: 8 word) = of_nat (192 + of_char d div 64)"
      using assms by (simp add: utf8_char_lead)
    with small quot lt show ?thesis by (subst (asm) byte_eq) auto
  next
    assume lt: "\<not> of_char c < (128::nat)" "of_char d < (128::nat)"
    then have "(of_nat (192 + of_char c div 64) :: 8 word) = of_nat (of_char d)"
      using assms by (simp add: utf8_char_lead)
    with small quot lt show ?thesis by (subst (asm) byte_eq) auto
  next
    assume ge: "\<not> of_char c < (128::nat)" "\<not> of_char d < (128::nat)"
    then have "(of_nat (192 + of_char c div 64) :: 8 word) = of_nat (192 + of_char d div 64)"
      "(of_nat (128 + of_char c mod 64) :: 8 word) = of_nat (128 + of_char d mod 64)" "xs = ys"
      using assms by (simp_all add: utf8_char_lead del: of_nat_add)
    then have "of_char c div 64 = (of_char d div 64 :: nat)" "of_char c mod 64 = (of_char d mod 64 :: nat)" "xs = ys"
      using quot by (simp_all add: byte_eq del: of_nat_add)
    then show ?thesis by (metis div_mult_mod_eq)
  qed
  then show ?thesis by (simp add: inj_eq inj_of_char)
qed

lemma utf8_char_nonempty [simp]: "utf8_char c \<noteq> []"
  by (simp add: utf8_char_def Let_def)

lemma utf8_inj [simp]: "utf8 s = utf8 t \<longleftrightarrow> s = t"
proof
  show "utf8 s = utf8 t \<Longrightarrow> s = t"
  proof (induction s arbitrary: t)
    case Nil
    then show ?case by (cases t) (simp_all add: utf8_def)
  next
    case (Cons c s)
    then obtain d t' where t: "t = d # t'" by (cases t) (simp_all add: utf8_def)
    with Cons.prems have "utf8_char c @ utf8 s = utf8_char d @ utf8 t'" by (simp add: utf8_def)
    from utf8_char_unique [OF this] t Cons.IH show ?case by simp
  qed
qed simp

lemma xor_byte_eq: "xor x y = 0 \<longleftrightarrow> x = (y :: 8 word)"
proof
  assume "xor x y = 0"
  then have "xor (xor x y) y = xor 0 y" by (simp only:)
  then show "x = y" by (simp add: xor.assoc)
qed simp

lemma fold_or_xor:
  "fold (\<lambda>(x, y) acc. or acc (xor x y)) zs (acc :: 8 word) = 0 \<longleftrightarrow> acc = 0 \<and> (\<forall>(x, y) \<in> set zs. x = y)"
proof (induction zs arbitrary: acc)
  case (Cons z zs)
  then show ?case by (cases z) (auto simp: or_eq_0_iff xor_byte_eq)
qed simp

lemma timingSafeEqual_iff: "length a = length b \<Longrightarrow> timingSafeEqual a b \<longleftrightarrow> a = b"
  by (auto simp: timingSafeEqual_def fold_or_xor list_eq_iff_zip_eq)

lemma constantTimeEquals_iff [simp]: "constantTimeEquals a b \<longleftrightarrow> a = b"
  by (auto simp: constantTimeEquals_def Let_def timingSafeEqual_iff)

section \<open>Properties\<close>

text \<open>C31: A request is authenticated as a client exactly if it presents, byte for byte, a key that is
  configured, and then as the client of the first entry with that key; the constant-time
  comparison decides equality of the texts. It is authenticated as the administrator exactly
  if it presents a configured admin key.\<close>

theorem authentication_exact:
  "(apiKeyAuth env hdr = Inr (Client c) \<longleftrightarrow>
      (\<exists>key cred. hdr ''x-api-key'' = Some key \<and> key \<noteq> [] \<and>
        find (\<lambda>k. key = cred_key k) (getConfiguredApiCredentials env) = Some cred \<and> cred_clientId cred = c)) \<and>
   (adminApiKeyAuth env hdr = Inr () \<longleftrightarrow>
      (\<exists>key \<in> set (getConfiguredAdminApiKeys env). hdr ''x-admin-api-key'' = Some key \<and> key \<noteq> []))"
  by (auto simp: apiKeyAuth_def authenticateApiKey_def adminApiKeyAuth_def isValidAdminApiKey_def list_ex_iff
      split: option.splits)

text \<open>In production the built-in development keys open nothing: without configured keys every
  request is refused, and configured keys are exactly those of the environment; a production
  process without keys does not pass the checks at its start.\<close>

lemma production_keys:
  assumes "is_production env"
  shows "getConfiguredApiCredentials env = parseApiCredentials env \<and>
    getConfiguredAdminApiKeys env = parseAdminApiKeys env \<and>
    (parseApiKeys env = [] \<longrightarrow> apiKeyAuth env hdr = Inl (rejection 401 ''Unauthorized API request'')) \<and>
    (parseAdminApiKeys env = [] \<longrightarrow>
       adminApiKeyAuth env hdr = Inl (rejection 401 ''Unauthorized admin API request'')) \<and>
    (validateApiKeyConfiguration env = Inr () \<longrightarrow> parseApiKeys env \<noteq> []) \<and>
    (validateAdminApiKeyConfiguration env = Inr () \<longrightarrow>
       parseAdminApiKeys env \<noteq> [] \<or> env ''ADMIN_ENDPOINTS_ENABLED'' = Some ''false'')"
  using assms
  by (auto simp: getConfiguredApiCredentials_def getConfiguredAdminApiKeys_def parseApiKeys_def apiKeyAuth_def
      adminApiKeyAuth_def authenticateApiKey_def isValidAdminApiKey_def validateApiKeyConfiguration_def
      validateAdminApiKeyConfiguration_def Let_def split: option.splits if_splits)

end
