(* ===== verification/RateLimiter.thy ===== *)
theory RateLimiter
  imports Auth Config
begin

text \<open>
  The production rate limiter of \<open>middleware/rateLimiter.js\<close>: a counter per client address
  in Redis, moved by a script that Redis runs atomically. The commands of the script are
  modelled by what their documentation says; a key whose time has come reads as absent.
  Times are in milliseconds.
\<close>

section \<open>The counters\<close>

record counter =
  hits :: int
  expires_at :: "int option"

type_synonym redis = "string \<Rightarrow> counter option"

definition live :: "int \<Rightarrow> counter option \<Rightarrow> counter option" where
  "live now c =
     (case c of None \<Rightarrow> None
      | Some d \<Rightarrow> (case expires_at d of Some t \<Rightarrow> if t \<le> now then None else Some d | None \<Rightarrow> Some d))"

definition redis_incr :: "int \<Rightarrow> string \<Rightarrow> redis \<Rightarrow> int \<times> redis" where
  "redis_incr now key r =
     (let c = (case live now (r key) of None \<Rightarrow> \<lparr>hits = 1, expires_at = None\<rparr>
               | Some d \<Rightarrow> d\<lparr>hits := hits d + 1\<rparr>)
      in (hits c, r(key \<mapsto> c)))"

definition redis_pexpire :: "int \<Rightarrow> string \<Rightarrow> int \<Rightarrow> redis \<Rightarrow> redis" where
  "redis_pexpire now key ms r =
     (case live now (r key) of None \<Rightarrow> r
      | Some d \<Rightarrow> if ms \<le> 0 then r(key := None) else r(key \<mapsto> d\<lparr>expires_at := Some (now + ms)\<rparr>))"

definition redis_pttl :: "int \<Rightarrow> string \<Rightarrow> redis \<Rightarrow> int" where
  "redis_pttl now key r =
     (case live now (r key) of None \<Rightarrow> -2
      | Some d \<Rightarrow> (case expires_at d of None \<Rightarrow> -1 | Some t \<Rightarrow> t - now))"

definition limit_script :: "int \<Rightarrow> string \<Rightarrow> int \<Rightarrow> redis \<Rightarrow> (int \<times> int) \<times> redis" where
  "limit_script now key windowMs r =
     (let (count, r1) = redis_incr now key r;
          r2 = (if count = 1 then redis_pexpire now key windowMs r1 else r1)
      in ((count, redis_pttl now key r2), r2))"

section \<open>The middleware\<close>

record limit_headers =
  limit_of :: int
  remaining_of :: int
  reset_of :: int

datatype limit_answer = Next limit_headers | Refuse "limit_headers option" response

definition rateLimitResponse :: response where
  "rateLimitResponse = rejection 429 ''Too many requests. Please try again later.''"

definition unavailableResponse :: response where
  "unavailableResponse = (503, JObj [(''status'', JStr ''ERROR''),
     (''reason'', JStr ''Request protection service unavailable'')])"

text \<open>\<open>Math.ceil(ttl / 1000)\<close>\<close>

definition ceil_seconds :: "int \<Rightarrow> int" where
  "ceil_seconds ttl = - ((- ttl) div 1000)"

text \<open>
  The limiter for whole settings. \<open>fault\<close>: Redis cannot be asked; the script has then not run.
\<close>

definition redisRateLimiter ::
  "int \<Rightarrow> int \<Rightarrow> bool \<Rightarrow> int \<Rightarrow> string \<Rightarrow> redis \<Rightarrow> limit_answer \<times> redis" where
  "redisRateLimiter windowMs maxRequests fault now ip r =
     (if fault then
        (Refuse None unavailableResponse, r)
      else
        let ((count, ttl), r') = limit_script now (''payment-sim:rate-limit:'' @ ip) windowMs r;
            h = \<lparr>limit_of = maxRequests, remaining_of = max 0 (maxRequests - count),
                 reset_of = max 0 (ceil_seconds ttl)\<rparr>
        in (if maxRequests < count then Refuse (Some h) rateLimitResponse else Next h, r'))"

text \<open>
  The settings of the process, from the environment in which the module is loaded, and the
  limiter made of them. They are numbers of any kind: \<open>PEXPIRE\<close> takes whole ones only and fails
  the script otherwise, after \<open>INCR\<close> has counted the request (Redis undoes nothing); the maximum
  is compared as a number.
\<close>

definition WINDOW_MS :: "env \<Rightarrow> jsnum" where
  "WINDOW_MS env = env_number env ''RATE_LIMIT_WINDOW_MS'' 60000"

definition MAX_REQUESTS :: "env \<Rightarrow> jsnum" where
  "MAX_REQUESTS env = env_number env ''RATE_LIMIT_MAX_REQUESTS'' 20"

definition whole :: "jsnum \<Rightarrow> int option" where
  "whole n = (case n of Fin q \<Rightarrow> if of_int \<lfloor>q\<rfloor> = q then Some \<lfloor>q\<rfloor> else None | _ \<Rightarrow> None)"

definition createRedisRateLimiter ::
  "jsnum \<Rightarrow> jsnum \<Rightarrow> bool \<Rightarrow> int \<Rightarrow> string \<Rightarrow> redis \<Rightarrow> response option \<times> redis" where
  "createRedisRateLimiter windowMs maxRequests fault now ip r =
     (if fault then (Some unavailableResponse, r)
      else
        let key = ''payment-sim:rate-limit:'' @ ip;
            verdict = (\<lambda>count. if maxRequests < Fin (of_int count) then Some rateLimitResponse else None)
        in (case whole windowMs of
              Some w \<Rightarrow> (let ((count, ttl), r') = limit_script now key w r in (verdict count, r'))
            | None \<Rightarrow> (let (count, r') = redis_incr now key r in
                (if count = 1 then Some unavailableResponse else verdict count, r'))))"

section \<open>What the limiter guarantees\<close>

definition refusal :: "limit_answer \<Rightarrow> response option" where
  "refusal a = (case a of Next h \<Rightarrow> None | Refuse h answer \<Rightarrow> Some answer)"

lemma createRedisRateLimiter_whole:
  "createRedisRateLimiter (Fin (of_int w)) (Fin (of_int m)) fault now ip r =
    (refusal (fst (redisRateLimiter w m fault now ip r)), snd (redisRateLimiter w m fault now ip r))"
  by (simp add: createRedisRateLimiter_def redisRateLimiter_def refusal_def whole_def Let_def split: prod.split)

definition ip_key :: "string \<Rightarrow> string" where
  "ip_key ip = ''payment-sim:rate-limit:'' @ ip"

definition passed :: "limit_answer \<Rightarrow> bool" where
  "passed a = (case a of Next _ \<Rightarrow> True | Refuse _ _ \<Rightarrow> False)"

text \<open>The requests of one address, by their times.\<close>

primrec serve :: "int \<Rightarrow> int \<Rightarrow> string \<Rightarrow> int list \<Rightarrow> redis \<Rightarrow> bool list \<times> redis" where
  "serve windowMs maxRequests ip [] r = ([], r)"
| "serve windowMs maxRequests ip (t # ts) r =
     (let (a, r1) = redisRateLimiter windowMs maxRequests False t ip r;
          (as, r2) = serve windowMs maxRequests ip ts r1
      in (passed a # as, r2))"

text \<open>Every counter the script leaves has an expiry: no address is locked out for good.\<close>

definition counters_ok :: "redis \<Rightarrow> bool" where
  "counters_ok r \<longleftrightarrow> (\<forall>key c. r key = Some c \<longrightarrow> 1 \<le> hits c \<and> expires_at c \<noteq> None)"

lemma limiter_fresh:
  assumes "live t (r (ip_key ip)) = None" and "0 < w"
  shows "redisRateLimiter w m False t ip r =
    ((let h = \<lparr>limit_of = m, remaining_of = max 0 (m - 1), reset_of = max 0 (ceil_seconds w)\<rparr> in
      if m < 1 then Refuse (Some h) rateLimitResponse else Next h),
     r(ip_key ip \<mapsto> \<lparr>hits = 1, expires_at = Some (t + w)\<rparr>))"
  using assms
  by (simp add: redisRateLimiter_def limit_script_def redis_incr_def redis_pexpire_def redis_pttl_def
      live_def ip_key_def Let_def)

lemma limiter_counted:
  assumes "live t (r (ip_key ip)) = Some c" and "expires_at c = Some e" and "1 \<le> hits c"
  shows "redisRateLimiter w m False t ip r =
    ((let h = \<lparr>limit_of = m, remaining_of = max 0 (m - (hits c + 1)), reset_of = max 0 (ceil_seconds (e - t))\<rparr> in
      if m < hits c + 1 then Refuse (Some h) rateLimitResponse else Next h),
     r(ip_key ip \<mapsto> c\<lparr>hits := hits c + 1\<rparr>))"
proof -
  have "t < e" using assms(1,2) by (auto simp: live_def split: option.splits if_splits)
  with assms show ?thesis
    by (simp add: redisRateLimiter_def limit_script_def redis_incr_def redis_pttl_def live_def
        ip_key_def Let_def)
qed

lemma live_SomeD: "live t c = Some d \<Longrightarrow> c = Some d"
  by (auto simp: live_def split: option.splits if_splits)

lemma counters_ok_limiter:
  assumes "counters_ok r" and "0 < w"
  shows "counters_ok (snd (redisRateLimiter w m fault t ip r))"
proof (cases fault)
  case True
  with assms show ?thesis by (simp add: redisRateLimiter_def)
next
  case False
  show ?thesis
  proof (cases "live t (r (ip_key ip))")
    case None
    with assms False show ?thesis by (simp add: limiter_fresh counters_ok_def)
  next
    case (Some c)
    then have "r (ip_key ip) = Some c" by (rule live_SomeD)
    with assms(1) obtain e where "expires_at c = Some e" "1 \<le> hits c" by (auto simp: counters_ok_def)
    with assms Some False show ?thesis by (auto simp: limiter_counted counters_ok_def)
  qed
qed

text \<open>Within the life of a counter, requests pass until the maximum and none passes after it.\<close>

lemma serve_window:
  assumes "r (ip_key ip) = Some c" and "expires_at c = Some e" and "1 \<le> hits c"
    and "\<forall>t \<in> set ts. t < e"
  shows "fst (serve w m ip ts r) =
    map (\<lambda>i. hits c + int i + 1 \<le> m) [0..<length ts]"
  using assms
proof (induction ts arbitrary: r c)
  case (Cons t ts)
  have "live t (r (ip_key ip)) = Some c" using Cons.prems by (simp add: live_def)
  note step = limiter_counted [where r = r and ip = ip, OF this Cons.prems(2,3), of w m]
  let ?c = "c\<lparr>hits := hits c + 1\<rparr>"
  have "fst (serve w m ip ts (r(ip_key ip \<mapsto> ?c))) = map (\<lambda>i. hits ?c + int i + 1 \<le> m) [0..<length ts]"
    using Cons.prems by (intro Cons.IH) auto
  moreover have "map (\<lambda>i. hits c + int i + 1 \<le> m) [0..<length (t # ts)] =
      (hits c + 1 \<le> m) # map (\<lambda>i. hits ?c + int i + 1 \<le> m) [0..<length ts]"
    by (simp add: upt_conv_Cons map_Suc_upt [symmetric] ac_simps del: upt_Suc)
  ultimately show ?case by (simp add: step case_prod_beta Let_def passed_def)
qed simp

text \<open>What a counter is worth after some requests of its window.\<close>

lemma serve_keeps_expiry:
  assumes "r (ip_key ip) = Some c" and "expires_at c = Some e" and "1 \<le> hits c"
    and "\<forall>t \<in> set ts. t < e"
  shows "\<exists>c'. snd (serve w m ip ts r) (ip_key ip) = Some c' \<and> expires_at c' = Some e \<and> 1 \<le> hits c'"
  using assms
proof (induction ts arbitrary: r c)
  case (Cons t ts)
  have "live t (r (ip_key ip)) = Some c" using Cons.prems by (simp add: live_def)
  note step = limiter_counted [where r = r and ip = ip, OF this Cons.prems(2,3), of w m]
  have "\<exists>c'. snd (serve w m ip ts (r(ip_key ip \<mapsto> c\<lparr>hits := hits c + 1\<rparr>))) (ip_key ip) = Some c' \<and>
      expires_at c' = Some e \<and> 1 \<le> hits c'"
    using Cons.prems by (intro Cons.IH [of _ "c\<lparr>hits := hits c + 1\<rparr>"]) auto
  then show ?case by (simp add: step case_prod_beta Let_def)
qed auto

lemma serve_append:
  "fst (serve w m ip (xs @ ys) r) = fst (serve w m ip xs r) @ fst (serve w m ip ys (snd (serve w m ip xs r)))"
  by (induction xs arbitrary: r) (simp_all add: case_prod_beta Let_def)

text \<open>The first requests of a new window: exactly the maximum passes.\<close>

lemma serve_fresh:
  assumes "live t (r (ip_key ip)) = None" and "\<forall>u \<in> set ts. u < t + w" and "0 < w"
  shows "fst (serve w m ip (t # ts) r) = map (\<lambda>i. int i < m) [0..<length (t # ts)]"
proof -
  let ?r = "r(ip_key ip \<mapsto> \<lparr>hits = 1, expires_at = Some (t + w)\<rparr>)"
  have "fst (serve w m ip ts ?r) = map (\<lambda>i. 1 + int i + 1 \<le> m) [0..<length ts]"
    using serve_window [of ?r ip "\<lparr>hits = 1, expires_at = Some (t + w)\<rparr>" "t + w" ts w m] assms(2) by simp
  moreover have "map (\<lambda>i. int i < m) [0..<length (t # ts)] =
      (1 \<le> m) # map (\<lambda>i. 1 + int i + 1 \<le> m) [0..<length ts]"
    by (auto simp: upt_conv_Cons map_Suc_upt [symmetric] simp del: upt_Suc)
  ultimately show ?thesis
    using limiter_fresh [where r = r and ip = ip, OF assms(1,3), of m] by (simp add: case_prod_beta Let_def passed_def)
qed

definition passes :: "bool list \<Rightarrow> nat" where
  "passes bs = length (filter id bs)"

lemma passes_window: "0 \<le> h \<Longrightarrow> passes (map (\<lambda>i. h + int i < m) [0..<n]) \<le> nat m"
proof (induction n)
  case (Suc n)
  show ?case
  proof (cases "h + int n < m")
    case True
    have "passes (map (\<lambda>i. h + int i < m) [0..<Suc n]) \<le> Suc n"
      unfolding passes_def by (rule order.trans [OF length_filter_le]) simp
    with True Suc.prems show ?thesis by linarith
  next
    case False
    with Suc show ?thesis by (simp add: passes_def)
  qed
qed (simp add: passes_def)

lemma passes_append [simp]: "passes (xs @ ys) = passes xs + passes ys"
  by (simp add: passes_def)

text \<open>Requests within one window's length, wherever it starts: at most twice the maximum.\<close>

lemma sorted_le_last: "sorted xs \<Longrightarrow> x \<in> set xs \<Longrightarrow> x \<le> (last xs :: int)"
  by (induction xs) auto

lemma serve_fresh_passes:
  assumes "ts \<noteq> [] \<longrightarrow> live (hd ts) (r (ip_key ip)) = None" and "sorted ts"
    and "ts \<noteq> [] \<longrightarrow> last ts < hd ts + w" and "0 < w"
  shows "passes (fst (serve w m ip ts r)) \<le> nat m"
proof (cases ts)
  case Nil
  then show ?thesis by (simp add: passes_def)
next
  case (Cons t us)
  have "\<forall>u \<in> set us. u < t + w"
  proof
    fix u assume "u \<in> set us"
    with assms(2) Cons have "u \<le> last ts" by (auto simp: sorted_le_last)
    then show "u < t + w" using assms(3) Cons by simp
  qed
  then show ?thesis
    using assms(1,4) Cons passes_window [of 0 m "length ts"] serve_fresh [of t r ip us w m] by simp
qed

text \<open>
  A counter that was started before the first of these requests ends within their span at
  most once; a new one outlives it.
\<close>

lemma serve_span:
  assumes "sorted ts" and "ts \<noteq> [] \<longrightarrow> last ts < hd ts + w" and "0 < w" and "counters_ok r"
  shows "passes (fst (serve w m ip ts r)) \<le> 2 * nat m"
proof (cases "r (ip_key ip)")
  case None
  then have "passes (fst (serve w m ip ts r)) \<le> nat m"
    using assms by (intro serve_fresh_passes) (simp_all add: live_def)
  then show ?thesis by simp
next
  case (Some c)
  with assms(4) obtain e where e: "expires_at c = Some e" and c: "1 \<le> hits c"
    by (auto simp: counters_ok_def)
  define xs where "xs = takeWhile (\<lambda>t. t < e) ts"
  define ys where "ys = dropWhile (\<lambda>t. t < e) ts"
  have split: "ts = xs @ ys" by (simp add: xs_def ys_def)
  have early: "\<forall>t \<in> set xs. t < e" by (auto simp: xs_def dest: set_takeWhileD)
  let ?r = "snd (serve w m ip xs r)"
  have eq: "map (\<lambda>i. hits c + int i + 1 \<le> m) [0..<length xs] = map (\<lambda>i. (hits c) + int i < m) [0..<length xs]"
    by (intro map_cong) auto
  have "0 \<le> hits c" using c by simp
  then have one: "passes (fst (serve w m ip xs r)) \<le> nat m"
    using serve_window [where r = r and ip = ip, OF Some e c early, of w m] passes_window [of "hits c" m "length xs"] by (simp only: eq)
  obtain c' where c': "?r (ip_key ip) = Some c'" "expires_at c' = Some e"
    using serve_keeps_expiry [where r = r and ip = ip, OF Some e c early] by blast
  have hd: "ys \<noteq> [] \<longrightarrow> e \<le> hd ys"
    using hd_dropWhile [of "\<lambda>t. t < e" ts] by (auto simp: ys_def not_less)
  have "sorted ys" using assms(1) split by (metis sorted_append)
  moreover have "ys \<noteq> [] \<longrightarrow> live (hd ys) (?r (ip_key ip)) = None"
    using hd c' by (auto simp: live_def)
  moreover have "ys \<noteq> [] \<longrightarrow> last ys < hd ys + w"
  proof
    assume "ys \<noteq> []"
    moreover from this have "hd ts \<le> hd ys" "last ts = last ys"
      using assms(1) split by (cases xs; auto simp: sorted_append)+
    ultimately show "last ys < hd ys + w" using assms(2) split by auto
  qed
  ultimately have "passes (fst (serve w m ip ys ?r)) \<le> nat m"
    using assms(3) by (intro serve_fresh_passes) auto
  with one show ?thesis by (simp add: split serve_append)
qed

text \<open>
  Addresses do not interfere: the script reads and writes the counter of its own key only,
  and a request Redis fails counts nothing.
\<close>

lemma ip_key_eq [simp]: "ip_key ip = ip_key other \<longleftrightarrow> ip = other"
  by (simp add: ip_key_def)

lemmas limiter_by_key = redisRateLimiter_def [folded ip_key_def] limit_script_def redis_incr_def
  redis_pexpire_def redis_pttl_def Let_def

lemma limiter_other_address:
  "ip \<noteq> other \<Longrightarrow> snd (redisRateLimiter w m fault t other r) (ip_key ip) = r (ip_key ip)"
  by (simp add: limiter_by_key split: option.split)

lemma limiter_fault [simp]:
  "snd (redisRateLimiter w m True t ip r) = r" "\<not> passed (fst (redisRateLimiter w m True t ip r))"
  by (simp_all add: redisRateLimiter_def passed_def)

lemma redis_local:
  assumes "r k = r' k"
  shows "fst (redis_incr t k r) = fst (redis_incr t k r')" "snd (redis_incr t k r) k = snd (redis_incr t k r') k"
    "redis_pexpire t k w r k = redis_pexpire t k w r' k" "redis_pttl t k r = redis_pttl t k r'"
  using assms by (simp_all add: redis_incr_def redis_pexpire_def redis_pttl_def Let_def split: option.split)

lemma limiter_local:
  assumes "r (ip_key ip) = r' (ip_key ip)"
  shows "fst (redisRateLimiter w m fault t ip r) = fst (redisRateLimiter w m fault t ip r') \<and>
    snd (redisRateLimiter w m fault t ip r) (ip_key ip) = snd (redisRateLimiter w m fault t ip r') (ip_key ip)"
proof -
  let ?i = "snd (redis_incr t (ip_key ip) r)" and ?i' = "snd (redis_incr t (ip_key ip) r')"
  let ?n = "fst (redis_incr t (ip_key ip) r')"
  define e e' where "e = (if ?n = 1 then redis_pexpire t (ip_key ip) w ?i else ?i)"
    and "e' = (if ?n = 1 then redis_pexpire t (ip_key ip) w ?i' else ?i')"
  note incr = redis_local(1,2) [where r = r and r' = r' and k = "ip_key ip", OF assms]
  have same: "e (ip_key ip) = e' (ip_key ip)"
    using incr(2) redis_local(3) [where r = ?i and r' = ?i' and k = "ip_key ip"] by (simp add: e_def e'_def)
  have "limit_script t (ip_key ip) w r = ((?n, redis_pttl t (ip_key ip) e), e)"
    "limit_script t (ip_key ip) w r' = ((?n, redis_pttl t (ip_key ip) e'), e')"
    using incr(1) by (simp_all add: limit_script_def e_def e'_def case_prod_beta Let_def)
  then show ?thesis
    using redis_local(4) [where r = e and r' = e' and k = "ip_key ip", OF same] same assms
    by (simp add: redisRateLimiter_def [folded ip_key_def] Let_def)
qed

lemma refusal_None: "refusal a = None \<longleftrightarrow> passed a"
  by (simp add: refusal_def passed_def split: limit_answer.split)

section \<open>Properties\<close>

text \<open>C37: Starting with the request that opens a window for an address, exactly the first
  \<open>maxRequests\<close> requests within the window's length pass and all later ones of that window are
  refused.\<close>

theorem window_exact:
  assumes "live t (r (ip_key ip)) = None" and "\<forall>u \<in> set ts. u < t + w" and "0 < w"
  shows "fst (serve w m ip (t # ts) r) = map (\<lambda>i. int i < m) [0..<length (t # ts)]"
  using assms by (rule serve_fresh)

theorem window_exact_witness:
  "fst (serve 60000 2 ''::1'' [0, 10, 59999] (\<lambda>_. None)) = [True, True, False]"
proof -
  have fresh: "live 0 ((\<lambda>_. None :: counter option) (ip_key ''::1'')) = None" by (simp add: live_def)
  have "\<forall>u \<in> set [10, 59999]. u < 0 + (60000 :: int)" by simp
  from window_exact [where r = "\<lambda>_. None" and ip = "''::1''" and m = 2, OF fresh this] show ?thesis
    by (simp add: upt_rec)
qed

text \<open>Within any span as long as the window, wherever it starts and whatever was counted before,
  at most twice the maximum passes, and every counter expires, so no address is locked out
  for good; this holds after any requests of any addresses.\<close>

lemma span_bound:
  assumes "counters_ok r" and "0 < w" and "sorted ts" and "ts \<noteq> [] \<longrightarrow> last ts < hd ts + w"
  shows "passes (fst (serve w m ip ts r)) \<le> 2 * nat m \<and>
    counters_ok (snd (redisRateLimiter w m fault t other r))"
  using serve_span [OF assms(3,4,2,1)] counters_ok_limiter [OF assms(1,2)] by blast

end
