(* ===== verification/RequestHash.thy ===== *)
theory RequestHash
  imports JsonData
begin

text \<open>
  \<open>utils/requestHash.js\<close>: the canonical text of a request body and its hash. The hash
  function itself (\<open>crypto.createHash("sha256")\<close>, as the hex digits of the digest) is an
  argument.
\<close>

section \<open>\<open>JSON.stringify\<close> as text\<close>

definition hex_digit :: "nat \<Rightarrow> char" where
  "hex_digit n = (if n < 10 then char_of (48 + n) else char_of (87 + n))"

definition json_char :: "char \<Rightarrow> string" where
  "json_char c =
     (let n = of_char c :: nat in
      if n = 8 then [CHR 0x5C, CHR ''b'']
      else if n = 9 then [CHR 0x5C, CHR ''t'']
      else if n = 10 then [CHR 0x5C, CHR ''n'']
      else if n = 12 then [CHR 0x5C, CHR ''f'']
      else if n = 13 then [CHR 0x5C, CHR ''r'']
      else if n = 34 \<or> n = 92 then [CHR 0x5C, c]
      else if n < 32 then [CHR 0x5C, CHR ''u'', CHR ''0'', CHR ''0'', hex_digit (n div 16), hex_digit (n mod 16)]
      else [c])"

definition json_quote :: "string \<Rightarrow> string" where
  "json_quote s = CHR 0x22 # concat (map json_char s) @ [CHR 0x22]"

text \<open>The text of JSON data; \<open>to_json\<close> has removed what JSON cannot express.\<close>

fun json_text :: "jsval \<Rightarrow> string" where
  "json_text JNull = ''null''"
| "json_text (JBool b) = (if b then ''true'' else ''false'')"
| "json_text (JNum n) = num_to_string n"
| "json_text (JStr s) = json_quote s"
| "json_text (JArr xs) = ''['' @ join '','' (map json_text xs) @ '']''"
| "json_text (JObj ps) = ''{'' @ join '','' (map (\<lambda>(k, v). json_quote k @ '':'' @ json_text v) ps) @ ''}''"
| "json_text _ = []"

definition stringify :: "jsval \<Rightarrow> string option" where
  "stringify v = map_option json_text (to_json v)"

section \<open>The canonical form\<close>

text \<open>
  \<open>Object.keys(value).sort()\<close> orders by code units; the reducer assigns the members one
  by one, so array-index keys move to the front again and \<open>__proto__\<close> is lost.
\<close>

fun sortValue :: "jsval \<Rightarrow> jsval" where
  "sortValue (JArr xs) = JArr (map sortValue xs)"
| "sortValue (JObj ps) = JObj (assign_all (sort_key fst (map (\<lambda>(k, v). (k, sortValue v)) ps)))"
| "sortValue (JDate _ _ _) = JObj []"
| "sortValue v = v"

definition canonicalize :: "jsval \<Rightarrow> string option" where
  "canonicalize v = stringify (sortValue v)"

definition createRequestHash :: "(string \<Rightarrow> string) \<Rightarrow> jsval \<Rightarrow> string result" where
  "createRequestHash sha256 v =
     (case canonicalize v of Some t \<Rightarrow> Inr (sha256 t) | None \<Rightarrow> Inl TypeError)"

section \<open>What the canonical form identifies\<close>

text \<open>
  The data a JSON value stands for, where an object is a map from names to data and the
  order of its members is gone.
\<close>

datatype json =
    Leaf jsval
  | Items "json list"
  | Members "string \<Rightarrow> json option"

fun meaning :: "jsval \<Rightarrow> json" where
  "meaning (JArr xs) = Items (map meaning xs)"
| "meaning (JObj ps) = Members (map_of (map (\<lambda>(k, v). (k, meaning v)) ps))"
| "meaning v = Leaf v"

text \<open>Objects with distinct names and none called \<open>__proto__\<close>, all the way down.\<close>

fun plain :: "jsval \<Rightarrow> bool" where
  "plain (JArr xs) = list_all plain xs"
| "plain (JObj ps) = (distinct (map fst ps) \<and> ''__proto__'' \<notin> fst ` set ps \<and> list_all (\<lambda>(k, v). plain v) ps)"
| "plain (JDate _ _ _) = False"
| "plain _ = True"

lemma distinct_sort_key:
  "distinct (map fst ps) \<Longrightarrow> distinct (map fst (sort_key fst (ps :: (string \<times> 'a) list)))"
  by (simp add: distinct_map)

lemma map_of_sort_key:
  "distinct (map fst ps) \<Longrightarrow> map_of (sort_key fst ps) = map_of (ps :: (string \<times> 'a) list)"
  by (simp add: map_of_inject_set distinct_sort_key)

lemma sort_key_map_of:
  fixes ps qs :: "(string \<times> 'a) list"
  assumes "distinct (map fst ps)" "distinct (map fst qs)" "map_of ps = map_of qs"
  shows "sort_key fst ps = sort_key fst qs"
proof (rule map_sorted_distinct_set_unique [of fst])
  have "set ps = set qs" using assms by (simp add: map_of_inject_set)
  then show "set (sort_key fst ps) = set (sort_key fst qs)"
    and "inj_on fst (set (sort_key fst ps) \<union> set (sort_key fst qs))"
    using assms(1) by (simp_all add: distinct_map)
qed (simp_all add: distinct_sort_key assms)

lemma meaning_sortValue: "plain v \<Longrightarrow> meaning (sortValue v) = meaning v"
proof (induction v rule: jsval_induct)
  case (Arr xs)
  then show ?case by (auto simp: list_all_iff)
next
  case (Obj ps)
  let ?qs = "map (\<lambda>(k, v). (k, sortValue v)) ps"
  have d: "distinct (map fst ?qs)" using Obj.prems by (simp only: fst_map_value plain.simps)
  have vals: "\<forall>(k, v) \<in> set ps. meaning (sortValue v) = meaning v"
    using Obj by (fastforce simp: list_all_iff)
  have "map_of (map (\<lambda>(k, v). (k, meaning v)) (assign_all (sort_key fst ?qs))) k =
      map_of (map (\<lambda>(k, v). (k, meaning v)) ps) k" for k
  proof -
    have "map_of (assign_all (sort_key fst ?qs)) k = (if k = ''__proto__'' then None else map_of ?qs k)"
      by (simp only: map_of_assign_all [OF distinct_sort_key [OF d]] map_of_sort_key [OF d])
    moreover have "map_of ?qs ''__proto__'' = None"
      using Obj.prems by (force simp: map_of_eq_None_iff)
    ultimately have "map_of (assign_all (sort_key fst ?qs)) k = map_of ?qs k" by simp
    then show ?thesis
      using vals by (auto simp: map_of_map_value option.map_comp dest!: map_of_SomeD intro!: map_option_cong)
  qed
  then show ?case by (simp add: fun_eq_iff)
next
  case (Other v)
  then show ?case by (cases v) auto
qed

text \<open>The canonical form depends on the data alone, and tells different data apart.\<close>

lemma sortValue_meaning:
  "plain v \<Longrightarrow> plain w \<Longrightarrow> meaning v = meaning w \<Longrightarrow> sortValue v = sortValue w"
proof (induction v arbitrary: w rule: jsval_induct)
  case (Arr xs)
  then obtain ys where w: "w = JArr ys" by (cases w) auto
  with Arr.prems have "list_all2 (\<lambda>x y. meaning x = meaning y) xs ys"
    by (simp add: list_all2_map1 list_all2_map2 flip: list.rel_eq)
  then have "list_all2 (\<lambda>x y. sortValue x = sortValue y) xs ys"
    using Arr w by (elim list.rel_mono_strong) (auto simp: list_all_iff)
  then have "map sortValue xs = map sortValue ys"
    by (simp add: list_all2_map1 list_all2_map2 flip: list.rel_eq)
  with w show ?case by simp
next
  case (Obj ps)
  then obtain qs where w: "w = JObj qs" by (cases w) auto
  let ?s = "map (\<lambda>(k, v). (k, sortValue v))"
  have d: "distinct (map fst (?s ps))" "distinct (map fst (?s qs))"
    using Obj.prems w by (simp_all only: fst_map_value plain.simps)
  have "map_of (?s ps) k = map_of (?s qs) k" for k
  proof -
    have eq: "map_option meaning (map_of ps k) = map_option meaning (map_of qs k)"
      using Obj.prems(3) w by (simp add: map_of_map_value fun_eq_iff)
    show ?thesis
    proof (cases "map_of ps k")
      case None
      with eq show ?thesis by (simp add: map_of_map_value)
    next
      case (Some x)
      with eq obtain y where y: "map_of qs k = Some y" "meaning x = meaning y"
        by (metis map_option_eq_Some option.simps(9))
      have "plain x" "plain y"
        using Obj.prems(1,2) w Some y(1) by (auto simp: list_all_iff dest!: map_of_SomeD)
      then have "sortValue x = sortValue y"
        using Obj.IH [of k x] Some y by (auto dest: map_of_SomeD)
      with Some y show ?thesis by (simp add: map_of_map_value)
    qed
  qed
  then have "sort_key fst (?s ps) = sort_key fst (?s qs)"
    using d by (intro sort_key_map_of) auto
  with w show ?case by simp
next
  case (Other v)
  then show ?case by (cases v; cases w) auto
qed

lemma sortValue_eq_iff:
  "plain v \<Longrightarrow> plain w \<Longrightarrow> sortValue v = sortValue w \<longleftrightarrow> meaning v = meaning w"
  by (metis meaning_sortValue sortValue_meaning)

lemma to_json_plain_some: "is_json v \<Longrightarrow> is_json (sortValue v)"
proof (induction v rule: jsval_induct)
  case (Arr xs)
  then show ?case by (auto simp: list_all_iff)
next
  case (Obj ps)
  have "is_json u" if "(k, u) \<in> set (assign_all (sort_key fst (map (\<lambda>(k, v). (k, sortValue v)) ps)))" for k u
  proof -
    have "(k, u) \<in> set (map (\<lambda>(k, v). (k, sortValue v)) ps)"
      using subsetD [OF set_assign_all that] by simp
    then obtain v where "(k, v) \<in> set ps" "u = sortValue v" by auto
    with Obj show ?thesis by (auto simp: list_all_iff)
  qed
  then have "\<forall>(k, u) \<in> set (assign_all (sort_key fst (map (\<lambda>(k, v). (k, sortValue v)) ps))). is_json u"
    by (intro ballI, unfold split_paired_all prod.case) blast
  then show ?case unfolding sortValue.simps is_json.simps list_all_iff .
next
  case (Other v)
  then show ?case by (cases v) auto
qed

lemma canonicalize_json: "is_json v \<Longrightarrow> canonicalize v = Some (json_text (sortValue v))"
  by (simp add: canonicalize_def stringify_def to_json_id to_json_plain_some)

lemma canonicalize_same:
  "plain v \<Longrightarrow> plain w \<Longrightarrow> meaning v = meaning w \<Longrightarrow> canonicalize v = canonicalize w"
  using sortValue_meaning [of v w] by (simp add: canonicalize_def)

section \<open>Properties\<close>

text \<open>The canonical form of a request body does not depend on the order in which members were
  written, at any depth, and it tells any two different bodies apart: two bodies get the same
  sorted form exactly if they stand for the same data. The same data get the same hash.\<close>

lemma canonical_form_exact:
  assumes "plain v" and "plain w"
  shows "(sortValue v = sortValue w \<longleftrightarrow> meaning v = meaning w) \<and>
    (meaning v = meaning w \<longrightarrow> createRequestHash sha256 v = createRequestHash sha256 w)"
  using sortValue_eq_iff [OF assms] canonicalize_same [OF assms] by (auto simp: createRequestHash_def)

end
