(* ===== verification/Api.thy ===== *)
theory Api
  imports Worker RateLimiter RequestHash
begin

text \<open>
  The routes of \<open>app.js\<close>. A handler maps the headers and the body of a request to the
  answer (a status code and a body) and the new tables; the random id and the clocks are
  arguments. The frameworks around it (body parser, helmet, routing) are not modelled.
\<close>

section \<open>\<open>POST /pay\<close>\<close>

definition declined :: "nat \<Rightarrow> string \<Rightarrow> response" where
  "declined code reason =
     (code, JObj [(''status'', JStr ''DECLINED''), (''reason'', JStr reason)])"

definition internal_error :: response where
  "internal_error =
     (500, JObj [(''status'', JStr ''ERROR''), (''reason'', JStr ''Internal server error'')])"

text \<open>
  The object literal the handler stores. The members of the validated payment are spread
  after the ones the server sets first, and before the ones it sets last.
\<close>

definition full_transaction :: "string \<Rightarrow> string \<Rightarrow> string \<Rightarrow> string \<Rightarrow> jsval \<Rightarrow> int \<Rightarrow> jsval" where
  "full_transaction txnId clientId idempotencyKey requestHash validatedTxn ms =
     (let now = JStr (toISOString ms);
          requiresPin = (field validatedTxn ''issuerType'' = JStr ''INTERNAL'' \<and>
            field validatedTxn ''type'' \<noteq> JStr ''BALANCE_INQUIRY'');
          pinVerified = (if requiresPin then field validatedTxn ''pin'' = JStr ''TEST_PIN'' else True)
      in JObj (object_literal
        ([(''id'', JStr txnId), (''clientId'', JStr clientId),
          (''idempotencyKey'', JStr idempotencyKey), (''requestHash'', JStr requestHash)] @
         own_props validatedTxn @
         [(''pinVerified'', JBool pinVerified), (''status'', JStr ''ACCEPTED''), (''retryCount'', JInt 0),
          (''createdAt'', now), (''updatedAt'', now),
          (''processingTimeline'',
            JArr [timeline_entry ''ACCEPTED'' ms ''Transaction accepted by API''])])))"

text \<open>Everything before the transaction is saved: an answer, or what to save.\<close>

definition assess_risk ::
  "(string \<Rightarrow> string \<Rightarrow> string) \<Rightarrow> env \<Rightarrow> jsval \<Rightarrow> risk \<Rightarrow> (response + jsval) result" where
  "assess_risk hmac env fullTransaction risk =
     (case risk of
        REJECT reason \<Rightarrow> Inr (Inl (rejection 403 reason))
      | REVIEW reason \<Rightarrow>
          Inr (Inl (202, JObj [(''status'', JStr ''MANUAL_REVIEW''), (''reason'', JStr reason)]))
      | APPROVE \<Rightarrow>
          and_then (sanitizeTransactionForPersistence hmac env fullTransaction) (\<lambda>fullTxn.
          and_then (maskSensitiveData fullTxn) (\<lambda>_.
          Inr (Inr fullTxn))))"

definition assess_validation ::
  "(string \<Rightarrow> string \<Rightarrow> string) \<Rightarrow> env \<Rightarrow> (jsval \<Rightarrow> jsval) \<Rightarrow> validation \<Rightarrow> (response + jsval) result" where
  "assess_validation hmac env build validation =
     (case validation of
        Invalid reason \<Rightarrow> Inr (Inl (declined 400 reason))
      | Valid validatedTxn \<Rightarrow>
          and_then (evaluateRisk (config_of env) validatedTxn)
            (assess_risk hmac env (build validatedTxn)))"

definition check_payment ::
  "(string \<Rightarrow> string \<Rightarrow> string) \<Rightarrow> (string \<Rightarrow> string) \<Rightarrow> env \<Rightarrow> string \<Rightarrow> int \<Rightarrow> string \<Rightarrow> string \<Rightarrow> jsval \<Rightarrow>
    (response + jsval) result" where
  "check_payment hmac sha256 env txnId ms clientId idempotencyKey txn =
     and_then (createRequestHash sha256 txn) (\<lambda>requestHash.
     and_then (maskSensitiveData txn) (\<lambda>_.
     and_then (validateTransaction (config_of env) txn)
       (assess_validation hmac env (\<lambda>validatedTxn.
          full_transaction txnId clientId idempotencyKey requestHash validatedTxn ms))))"

definition accepted_answer :: "string \<Rightarrow> response" where
  "accepted_answer txnId =
     (202, JObj [(''status'', JStr ''ACCEPTED''), (''transactionId'', JStr txnId),
        (''message'', JStr ''Transaction accepted for processing'')])"

definition conflict_answer :: response where
  "conflict_answer = rejection 409 ''Idempotency key already used with different request payload''"

definition duplicate_answer :: "txn_row \<Rightarrow> response" where
  "duplicate_answer r =
     (200, JObj [(''status'', JStr (txn_status r)), (''transactionId'', JStr (txn_id r)),
        (''message'', JStr ''Duplicate request detected. Returning original transaction.'')])"

definition pay ::
  "(string \<Rightarrow> string \<Rightarrow> string) \<Rightarrow> (string \<Rightarrow> string) \<Rightarrow> env \<Rightarrow> pg \<Rightarrow> string \<Rightarrow> int \<Rightarrow> int \<Rightarrow>
    string \<Rightarrow> headers \<Rightarrow> jsval \<Rightarrow> db \<Rightarrow> response \<times> db" where
  "pay hmac sha256 env pg txnId ms now clientId hdr txn db =
     (case hdr ''x-idempotency-key'' of
        None \<Rightarrow> (declined 400 ''Missing x-idempotency-key header'', db)
      | Some key \<Rightarrow>
          if key = [] then (declined 400 ''Missing x-idempotency-key header'', db)
          else
            (case check_payment hmac sha256 env txnId ms clientId key txn of
               Inl _ \<Rightarrow> (internal_error, db)
             | Inr (Inl answer) \<Rightarrow> (answer, db)
             | Inr (Inr fullTxn) \<Rightarrow>
                 (case saveTransactionWithOutbox hmac env pg now fullTxn db of
                    (Inl _, db') \<Rightarrow> (internal_error, db')
                  | (Inr res, db') \<Rightarrow>
                      if \<not> inserted res then
                        if conflict res then (conflict_answer, db')
                        else (case saved_transaction res of
                                Some r \<Rightarrow> (duplicate_answer r, db') | None \<Rightarrow> (internal_error, db'))
                      else (accepted_answer txnId, db'))))"

definition post_pay ::
  "(string \<Rightarrow> string \<Rightarrow> string) \<Rightarrow> (string \<Rightarrow> string) \<Rightarrow> env \<Rightarrow> pg \<Rightarrow> string \<Rightarrow> int \<Rightarrow> int \<Rightarrow>
    headers \<Rightarrow> jsval \<Rightarrow> db \<Rightarrow> response \<times> db" where
  "post_pay hmac sha256 env pg txnId ms now hdr txn db =
     (case apiKeyAuth env hdr of
        Inl answer \<Rightarrow> (answer, db)
      | Inr Admin \<Rightarrow> (internal_error, db)
      | Inr (Client clientId) \<Rightarrow> pay hmac sha256 env pg txnId ms now clientId hdr txn db)"

section \<open>\<open>GET /status/:id\<close>\<close>

definition opt_int :: "int option \<Rightarrow> jsval" where
  "opt_int n = (case n of Some i \<Rightarrow> JInt i | None \<Rightarrow> JNull)"

definition opt_json :: "jsval option \<Rightarrow> jsval" where
  "opt_json v = (case v of Some w \<Rightarrow> w | None \<Rightarrow> JNull)"

definition opt_date :: "pg \<Rightarrow> int option \<Rightarrow> jsval" where
  "opt_date pg t = (case t of Some us \<Rightarrow> date_of pg us | None \<Rightarrow> JNull)"

text \<open>The object the database client returns for \<open>SELECT *\<close>.\<close>

definition row_object :: "pg \<Rightarrow> txn_row \<Rightarrow> jsval" where
  "row_object pg r = JObj
     [(''id'', JInt (row_id r)), (''txn_id'', JStr (txn_id r)), (''correlation_id'', JStr (correlation_id r)),
      (''client_id'', opt_js (client_id r)), (''idempotency_key'', opt_js (idempotency_key r)),
      (''request_hash'', opt_js (request_hash r)), (''amount'', JStr (numeric_text pg (txn_amount r))),
      (''channel'', JStr (txn_channel r)), (''card_number'', JNull), (''card_last4'', opt_js (card_last4 r)),
      (''card_fingerprint'', opt_js (card_fingerprint r)), (''status'', JStr (txn_status r)),
      (''received_at'', date_of pg (received_at r)), (''updated_at'', date_of pg (updated_at r)),
      (''from_account'', opt_js (from_account r)), (''to_account'', opt_js (to_account r)),
      (''type'', opt_js (txn_type r)), (''retry_count'', JInt (retry_count r)),
      (''worker_id'', opt_int (worker_id r)),
      (''processing_started_at'', opt_date pg (processing_started_at r)),
      (''processor_instance_id'', opt_js (processor_instance_id r)),
      (''last_heartbeat_at'', opt_date pg (last_heartbeat_at r)),
      (''lease_expires_at'', opt_date pg (lease_expires_at r)), (''route'', opt_js (txn_route r)),
      (''reason'', opt_js (txn_reason r)), (''result'', opt_json (txn_result r)),
      (''processing_timeline'', opt_json (processing_timeline r))]"

definition get_status :: "env \<Rightarrow> pg \<Rightarrow> headers \<Rightarrow> string \<Rightarrow> db \<Rightarrow> response result" where
  "get_status env pg hdr txnId db =
     (case apiKeyOrAdminAuth env hdr of
        Inl answer \<Rightarrow> Inr answer
      | Inr auth \<Rightarrow>
          (case getTransaction txnId db of
             None \<Rightarrow> Inr (404, JObj [(''error'', JStr ''Transaction not found'')])
           | Some txn \<Rightarrow>
               if \<not> canAccessTransactionStatus (Some auth) (Some txn)
               then Inr (rejection 403 ''Forbidden transaction access'')
               else and_then (serializeTransactionResponse (row_object pg txn)) (\<lambda>v. Inr (200, v))))"

section \<open>The other routes\<close>

definition dead_object :: "pg \<Rightarrow> dead_row \<Rightarrow> jsval" where
  "dead_object pg d = JObj
     [(''id'', JInt (dl_id d)), (''job_id'', JStr (dl_job_id d)), (''txn_id'', opt_js (dl_txn_id d)),
      (''queue_name'', JStr (dl_queue_name d)), (''payload'', dl_payload d),
      (''failed_reason'', JStr (dl_failed_reason d)), (''attempts_made'', JInt (dl_attempts_made d)),
      (''failed_at'', date_of pg (dl_failed_at d))]"

text \<open>\<open>fault\<close>: the database fails the query.\<close>

definition get_dead_letter :: "env \<Rightarrow> pg \<Rightarrow> headers \<Rightarrow> bool \<Rightarrow> db \<Rightarrow> response" where
  "get_dead_letter env pg hdr fault db =
     (case adminApiKeyAuth env hdr of
        Inl answer \<Rightarrow> answer
      | Inr _ \<Rightarrow>
          if fault then
            (500, JObj [(''status'', JStr ''ERROR''), (''reason'', JStr ''Unable to fetch dead-letter jobs'')])
          else
            let jobs = getDeadLetterJobs db in
            (200, JObj [(''count'', JInt (int (length jobs))), (''jobs'', JArr (map (dead_object pg) jobs))]))"

text \<open>
  Readiness: the database answers and, in production, Redis can be pinged; what Redis
  replied is computed by \<open>pingRateLimiter\<close> but not looked at.
\<close>

definition pingRateLimiter :: "env \<Rightarrow> string option \<Rightarrow> bool result" where
  "pingRateLimiter env reply =
     (if \<not> is_production env then Inr True
      else case reply of Some s \<Rightarrow> Inr (s = ''PONG'') | None \<Rightarrow> Inl (Error ''Connection is closed.''))"

definition get_ready :: "env \<Rightarrow> bool \<Rightarrow> string option \<Rightarrow> response" where
  "get_ready env db_up reply =
     (if db_up \<and> (case pingRateLimiter env reply of Inr _ \<Rightarrow> True | Inl _ \<Rightarrow> False)
      then (200, JObj [(''status'', JStr ''READY'')]) else (503, JObj [(''status'', JStr ''NOT_READY'')]))"

section \<open>What is stored for a payment\<close>

text \<open>The members the server sets before it spreads the body: a body that brings its own wins.\<close>

definition reserved_keys :: "string list" where
  "reserved_keys = [''id'', ''clientId'', ''idempotencyKey'', ''requestHash'']"

definition server_keys :: "string list" where
  "server_keys = [''pinVerified'', ''status'', ''retryCount'', ''createdAt'', ''updatedAt'', ''processingTimeline'']"

definition unreserved :: "jsval \<Rightarrow> bool" where
  "unreserved txn \<longleftrightarrow> keys (own_props txn) \<inter> set reserved_keys = {}"

lemma map_of_object_literal: "map_of (object_literal ps) = map_of (rev ps)"
proof -
  have "map_of (spread qs ps) = map_of qs ++ map_of (rev ps)" for qs
    by (induction ps arbitrary: qs) (auto simp: fun_eq_iff map_add_def split: option.splits)
  then show ?thesis by (simp add: object_literal_def)
qed

lemma prop_of_object_literal: "prop_of (object_literal ps) k = (case map_of (rev ps) k of Some v \<Rightarrow> v | None \<Rightarrow> JUndef)"
  by (simp add: prop_of_def map_of_object_literal)

lemma distinct_object_literal [simp]: "distinct (map fst (object_literal ps))"
  by (simp add: object_literal_def distinct_spread)

lemma full_transaction_JObj:
  obtains ps where "full_transaction txnId client key hash v ms = JObj ps" "distinct (map fst ps)"
  by (simp add: full_transaction_def Let_def)

lemma full_server_fields:
  "field (full_transaction txnId client key hash v ms) ''status'' = JStr ''ACCEPTED''"
  "field (full_transaction txnId client key hash v ms) ''retryCount'' = JInt 0"
  "field (full_transaction txnId client key hash v ms) ''processingTimeline'' =
    JArr [timeline_entry ''ACCEPTED'' ms ''Transaction accepted by API'']"
  by (simp_all add: full_transaction_def Let_def prop_of_object_literal)

lemma full_pinVerified:
  "field (full_transaction txnId client key hash v ms) ''pinVerified'' =
    JBool (field v ''issuerType'' = JStr ''INTERNAL'' \<and> field v ''type'' \<noteq> JStr ''BALANCE_INQUIRY'' \<longrightarrow>
      field v ''pin'' = JStr ''TEST_PIN'')"
  by (auto simp: full_transaction_def Let_def prop_of_object_literal)

lemma map_of_rev_distinct: "distinct (map fst ps) \<Longrightarrow> map_of (rev ps) = map_of ps"
  by (subst map_of_inject_set) (simp_all add: rev_map [symmetric])

lemma map_of_rev_none: "k \<notin> keys ps \<Longrightarrow> map_of (rev ps) k = None"
  by (auto simp: keys_def map_of_eq_None_iff)

lemma full_reserved_fields:
  assumes "unreserved v"
  shows "field (full_transaction txnId client key hash v ms) ''id'' = JStr txnId"
    and "field (full_transaction txnId client key hash v ms) ''clientId'' = JStr client"
    and "field (full_transaction txnId client key hash v ms) ''idempotencyKey'' = JStr key"
    and "field (full_transaction txnId client key hash v ms) ''requestHash'' = JStr hash"
proof -
  have "\<forall>k \<in> set reserved_keys. map_of (rev (own_props v)) k = None"
    using assms by (auto simp: unreserved_def intro: map_of_rev_none)
  then show "field (full_transaction txnId client key hash v ms) ''id'' = JStr txnId"
    and "field (full_transaction txnId client key hash v ms) ''clientId'' = JStr client"
    and "field (full_transaction txnId client key hash v ms) ''idempotencyKey'' = JStr key"
    and "field (full_transaction txnId client key hash v ms) ''requestHash'' = JStr hash"
    by (simp_all add: full_transaction_def Let_def prop_of_object_literal reserved_keys_def map_add_def)
qed

lemma full_other_field:
  assumes "k \<notin> set reserved_keys" and "k \<notin> set server_keys" and "distinct (map fst (own_props v))"
  shows "field (full_transaction txnId client key hash v ms) k = prop_of (own_props v) k"
  using assms
  by (simp add: full_transaction_def Let_def map_of_object_literal reserved_keys_def server_keys_def map_add_def
      prop_of_def map_of_rev_distinct split: option.split)

lemma full_clientId_of_body:
  assumes "map_of (own_props v) ''clientId'' = Some w" and "distinct (map fst (own_props v))"
  shows "field (full_transaction txnId client key hash v ms) ''clientId'' = w"
  using assms
  by (simp add: full_transaction_def Let_def prop_of_object_literal map_add_def map_of_rev_distinct
      del: map_of_eq_Some_iff)

text \<open>The validated payment has the members of the body, with its amount and type settled.\<close>

lemma validated_props:
  assumes "validateTransaction cfg txn = Inr (Valid v)"
  obtains amount where "acceptable cfg txn amount"
    and "v = JObj (spread [] (own_props txn @ [(''amount'', JNum amount), (''type'', field txn ''type'')]))"
  using assms unfolding validateTransaction_Valid_iff by blast

lemma validated_unreserved:
  assumes "validateTransaction cfg txn = Inr (Valid v)" and "unreserved txn"
  shows "unreserved v"
proof -
  obtain amount where v: "v = JObj (spread [] (own_props txn @ [(''amount'', JNum amount), (''type'', field txn ''type'')]))"
    using assms(1) by (rule validated_props)
  have "keys (own_props v) = keys (own_props txn) \<union> {''amount'', ''type''}" by (auto simp: v)
  with assms(2) show ?thesis by (auto simp: unreserved_def reserved_keys_def)
qed

lemma check_payment_saved:
  assumes "check_payment hmac sha256 env txnId ms client key txn = Inr (Inr fullTxn)"
  obtains hash v where "createRequestHash sha256 txn = Inr hash"
    and "validateTransaction (config_of env) txn = Inr (Valid v)"
    and "evaluateRisk (config_of env) v = Inr APPROVE"
    and "sanitizeTransactionForPersistence hmac env (full_transaction txnId client key hash v ms) = Inr fullTxn"
proof -
  from assms obtain hash val where hash: "createRequestHash sha256 txn = Inr hash"
    and val: "validateTransaction (config_of env) txn = Inr val"
    and rest: "assess_validation hmac env (\<lambda>v. full_transaction txnId client key hash v ms) val = Inr (Inr fullTxn)"
    unfolding check_payment_def and_then_Inr_iff by blast
  from rest obtain v risk where v: "val = Valid v" and risk: "evaluateRisk (config_of env) v = Inr risk"
    and rest': "assess_risk hmac env (full_transaction txnId client key hash v ms) risk = Inr (Inr fullTxn)"
    by (cases val) (auto simp: assess_validation_def and_then_Inr_iff)
  from rest' have "risk = APPROVE"
    and "sanitizeTransactionForPersistence hmac env (full_transaction txnId client key hash v ms) = Inr fullTxn"
    by (cases risk; auto simp: assess_risk_def and_then_Inr_iff)+
  with hash val v risk show thesis by (intro that) auto
qed

section \<open>What a request does to the tables\<close>

definition same_tables :: "db \<Rightarrow> db \<Rightarrow> bool" where
  "same_tables db db' \<longleftrightarrow> transactions db' = transactions db \<and> outbox_events db' = outbox_events db \<and>
     dead_letter_jobs db' = dead_letter_jobs db"

lemma same_tables_refl [simp]: "same_tables db db"
  by (simp add: same_tables_def)

lemma full_saved_object:
  assumes "sanitizeTransactionForPersistence hmac env (full_transaction txnId client key hash v ms) = Inr safe"
  obtains ps where "safe = JObj ps" "ordered_props ps"
proof -
  obtain ps where ps: "full_transaction txnId client key hash v ms = JObj ps" "distinct (map fst ps)"
    by (rule full_transaction_JObj)
  obtain qs where qs: "safe = JObj qs" using assms ps by (auto elim: sanitize_JObj)
  then have "ordered_props qs" using sanitized_clean(2) [OF assms] by simp
  with qs show thesis by (rule that)
qed

lemma check_payment_stable:
  assumes "check_payment hmac sha256 env txnId ms client key txn = Inr (Inr fullTxn)"
  shows "sanitizeTransactionForPersistence hmac env fullTxn = Inr fullTxn"
    and "sanitizePayload hmac env fullTxn = Inr fullTxn" and "clean fullTxn" and "is_object fullTxn"
proof -
  obtain hash v where
    safe: "sanitizeTransactionForPersistence hmac env (full_transaction txnId client key hash v ms) = Inr fullTxn"
    using assms by (rule check_payment_saved)
  from safe obtain ps where "fullTxn = JObj ps" by (rule full_saved_object)
  then show obj: "is_object fullTxn" by simp
  show "clean fullTxn" using sanitized_clean(1) [OF safe] .
  with obj sanitized_clean(2) [OF safe]
  show "sanitizeTransactionForPersistence hmac env fullTxn = Inr fullTxn"
    "sanitizePayload hmac env fullTxn = Inr fullTxn"
    by (simp_all add: sanitize_clean sanitizePayload_clean)
qed

lemma check_payment_answer:
  assumes "check_payment hmac sha256 env txnId ms client key txn = Inr (Inl early)"
  shows "early \<noteq> accepted_answer i"
proof -
  from assms obtain hash val where
    rest: "assess_validation hmac env (\<lambda>v. full_transaction txnId client key hash v ms) val = Inr (Inl early)"
    unfolding check_payment_def and_then_Inr_iff by blast
  show ?thesis
  proof (cases val)
    case (Invalid reason)
    with rest show ?thesis by (auto simp: assess_validation_def declined_def accepted_answer_def)
  next
    case (Valid v)
    with rest obtain risk where
      "assess_risk hmac env (full_transaction txnId client key hash v ms) risk = Inr (Inl early)"
      by (auto simp: assess_validation_def and_then_Inr_iff)
    then show ?thesis
      by (cases risk) (auto simp: assess_risk_def and_then_Inr_iff rejection_def accepted_answer_def)
  qed
qed

lemma pay_cases:
  assumes "pay hmac sha256 env pg txnId ms now client hdr txn db = (answer, db')"
  obtains (refused) "same_tables db db'" "answer \<noteq> accepted_answer txnId"
  | (accepted) key fullTxn row payload where
      "hdr ''x-idempotency-key'' = Some key" "key \<noteq> []"
      "check_payment hmac sha256 env txnId ms client key txn = Inr (Inr fullTxn)"
      "answer = accepted_answer txnId"
      "transaction_values pg now (txn_seq db) fullTxn = Inr row"
      "find_by_key (idempotency_key row) db = None" "txn_id row \<notin> txn_ids db"
      "to_json fullTxn = Some payload"
      "db' = snd (outbox_insert now (txn_id row) payload
         (db\<lparr>transactions := transactions db @ [row], txn_seq := txn_seq db + 1\<rparr>))"
proof -
  note differ = accepted_answer_def declined_def internal_error_def conflict_answer_def
    duplicate_answer_def rejection_def
  consider (no_key) "answer = declined 400 ''Missing x-idempotency-key header''" "db' = db"
    | (key) key where "hdr ''x-idempotency-key'' = Some key" "key \<noteq> []"
    using assms by (auto simp: pay_def split: option.splits if_splits)
  then show thesis
  proof cases
    case no_key
    then show thesis by (intro refused) (simp_all add: differ)
  next
    case key
    show thesis
    proof (cases "check_payment hmac sha256 env txnId ms client key txn")
      case (Inl e)
      with assms key show thesis by (intro refused) (auto simp: pay_def differ)
    next
      case (Inr checked)
      show thesis
      proof (cases checked)
        case (Inl early)
        with Inr assms key have "answer = early" "db' = db" by (auto simp: pay_def)
        moreover have "early \<noteq> accepted_answer txnId"
          using check_payment_answer Inr [unfolded Inl] .
        ultimately show thesis by (intro refused) auto
      next
        case full: (Inr fullTxn)
        note checked = Inr [unfolded full]
        note stable = check_payment_stable [OF checked]
        show thesis
        proof (cases "save_in_transaction hmac env pg now fullTxn fullTxn db")
          case (Inl e)
          with assms key checked stable(1) show thesis
            by (intro refused) (auto simp: pay_def saveTransactionWithOutbox_def rolled_back_def
                same_tables_def differ)
        next
          case (Inr saved)
          obtain res db1 where saved: "saved = (res, db1)" by (cases saved)
          have run: "pay hmac sha256 env pg txnId ms now client hdr txn db =
            (if \<not> inserted res then
               if conflict res then (conflict_answer, db1)
               else (case saved_transaction res of
                       Some r \<Rightarrow> (duplicate_answer r, db1) | None \<Rightarrow> (internal_error, db1))
             else (accepted_answer txnId, db1))"
            using key checked stable(1) Inr saved by (simp add: pay_def saveTransactionWithOutbox_def)
          from Inr [unfolded saved] show thesis
          proof (cases rule: save_in_transaction_cases)
            case (accepted row sent payload)
            with run assms have "answer = accepted_answer txnId" "db' = db1" by auto
            moreover have "sent = fullTxn" using accepted(2) stable(2) by simp
            ultimately show thesis
              using key checked accepted
              by (intro that(2) [of key fullTxn row payload]) (auto dest: arg_cong [where f = snd])
          next
            case (duplicate row)
            with run assms have "db' = db1" "answer \<noteq> accepted_answer txnId"
              by (auto simp: differ split: if_splits option.splits)
            with duplicate show thesis by (intro refused) (simp_all add: same_tables_def)
          qed
        qed
      qed
    qed
  qed
qed

section \<open>The row and the job of an accepted payment\<close>

lemma saved_field:
  assumes "sanitizeTransactionForPersistence hmac env (full_transaction txnId client key hash v ms) = Inr safe"
    and "field (full_transaction txnId client key hash v ms) k = w"
    and "\<not> derived_key k" "\<not> sensitive_key k" "k \<noteq> ''__proto__''"
  shows "field safe k = removeSensitiveFields w"
proof -
  obtain ps where ps: "full_transaction txnId client key hash v ms = JObj ps" "distinct (map fst ps)"
    by (rule full_transaction_JObj)
  show ?thesis
    using sanitize_prop [OF assms(1) [unfolded ps(1)] ps(2) assms(3-5)] assms(2) ps(1)
    by (simp add: field_def)
qed

lemma timeline_entry_kept: "removeSensitiveFields (timeline_entry st ms m) = timeline_entry st ms m"
  by (rule removeSensitiveFields_clean)
    (simp_all add: timeline_entry_def sensitive_key_def ordered_props_def key_before_def is_index_def is_digit_def)

lemma saved_server_fields:
  assumes "sanitizeTransactionForPersistence hmac env (full_transaction txnId client key hash v ms) = Inr safe"
  shows "field safe ''status'' = JStr ''ACCEPTED''" "field safe ''retryCount'' = JInt 0"
    "field safe ''processingTimeline'' = JArr [timeline_entry ''ACCEPTED'' ms ''Transaction accepted by API'']"
  using full_server_fields [of txnId client key hash v ms]
  by (simp_all add: saved_field [OF assms] derived_key_def sensitive_key_def timeline_entry_kept)

lemma saved_reserved_fields:
  assumes "sanitizeTransactionForPersistence hmac env (full_transaction txnId client key hash v ms) = Inr safe"
    and "unreserved v"
  shows "field safe ''id'' = JStr txnId" "field safe ''clientId'' = JStr client"
    "field safe ''idempotencyKey'' = JStr key" "field safe ''requestHash'' = JStr hash"
  using full_reserved_fields [OF assms(2), of txnId client key hash ms]
  by (simp_all add: saved_field [OF assms(1)] derived_key_def sensitive_key_def)

lemma timeline_entry_json [simp]: "to_json (timeline_entry st ms m) = Some (timeline_entry st ms m)"
  by (simp add: timeline_entry_def)

lemma stored_row_server:
  assumes "transaction_values pg now seq safe = Inr row" and "pg_laws pg"
    and "field safe ''status'' = JStr ''ACCEPTED''" "field safe ''retryCount'' = JInt 0"
    and "field safe ''processingTimeline'' = JArr steps" "to_json (JArr steps) = Some (JArr steps)"
  shows "txn_status row = ''ACCEPTED''" "retry_count row = 0" "processing_timeline row = Some (JArr steps)"
    "lease_columns row" "received_at row = now"
proof -
  have bind: "bind_int pg (JNum (Fin 0)) = Some 0" "\<And>s. bind_text pg (JStr s) = Some s"
    using assms(2) unfolding pg_laws_def by (metis of_int_0, simp)
  show "txn_status row = ''ACCEPTED''" "retry_count row = 0" "processing_timeline row = Some (JArr steps)"
    "lease_columns row" "received_at row = now"
    using assms(1,3-6) bind
    by (auto simp: transaction_values_def and_then_Inr_iff not_null_def Let_def js_or_def
        lease_columns_def split: option.splits if_splits)
qed

lemma accepted_row:
  assumes "check_payment hmac sha256 env txnId ms client key txn = Inr (Inr fullTxn)"
    and "transaction_values pg now seq fullTxn = Inr row" and "pg_laws pg"
  shows "txn_status row = ''ACCEPTED''" "retry_count row = 0" "lease_columns row" "received_at row = now"
    "processing_timeline row = Some (JArr [timeline_entry ''ACCEPTED'' ms ''Transaction accepted by API''])"
proof -
  obtain hash v where
    safe: "sanitizeTransactionForPersistence hmac env (full_transaction txnId client key hash v ms) = Inr fullTxn"
    using assms(1) by (rule check_payment_saved)
  show "txn_status row = ''ACCEPTED''" "retry_count row = 0" "lease_columns row" "received_at row = now"
    "processing_timeline row = Some (JArr [timeline_entry ''ACCEPTED'' ms ''Transaction accepted by API''])"
    using stored_row_server [OF assms(2,3) saved_server_fields [OF safe]] by simp_all
qed

lemma accepted_row_identity:
  assumes "check_payment hmac sha256 env txnId ms client key txn = Inr (Inr fullTxn)"
    and "transaction_values pg now seq fullTxn = Inr row" and "pg_laws pg" and "unreserved txn"
    and "client \<noteq> []" "key \<noteq> []" "\<And>t. sha256 t \<noteq> []"
  obtains hash where "createRequestHash sha256 txn = Inr hash" and "hash \<noteq> []"
    and "txn_id row = txnId" "client_id row = Some client" "idempotency_key row = Some key"
    and "request_hash row = Some hash" and "field fullTxn ''id'' = JStr txnId"
    and "field fullTxn ''idempotencyKey'' = JStr key" "field fullTxn ''requestHash'' = JStr hash"
proof -
  obtain hash v where hash: "createRequestHash sha256 txn = Inr hash"
    and v: "validateTransaction (config_of env) txn = Inr (Valid v)"
    and safe: "sanitizeTransactionForPersistence hmac env (full_transaction txnId client key hash v ms) = Inr fullTxn"
    using assms(1) by (rule check_payment_saved)
  have "hash \<noteq> []" using hash assms(7) by (auto simp: createRequestHash_def split: option.splits)
  moreover note saved_reserved_fields [OF safe validated_unreserved [OF v assms(4)]]
  moreover have "bind_text pg (JStr s) = Some s" for s using assms(3) by (simp add: pg_laws_def)
  ultimately show thesis
    using transaction_values_id [OF assms(2)] hash assms(5,6)
    by (intro that [of hash]) (auto simp: or_null_def js_or_def)
qed

text \<open>The event of an accepted payment: pending, never claimed, with the payload of its job.\<close>

definition new_event :: "int \<Rightarrow> int \<Rightarrow> string \<Rightarrow> jsval \<Rightarrow> outbox_row" where
  "new_event seq now tid payload =
     \<lparr>ob_id = seq, ob_txn_id = tid, ob_event_type = ''TRANSACTION_ACCEPTED'',
      ob_payload = payload, ob_status = ''PENDING'', ob_attempts = 0, ob_claim_count = 0,
      ob_recovery_count = 0, ob_claimed_at = None, ob_locked_by = None, ob_last_error = None,
      ob_created_at = now, ob_updated_at = now\<rparr>"

lemma new_event_simps [simp]:
  "ob_id (new_event seq now tid payload) = seq" "ob_txn_id (new_event seq now tid payload) = tid"
  "ob_status (new_event seq now tid payload) = ''PENDING''"
  "ob_payload (new_event seq now tid payload) = payload"
  by (simp_all add: new_event_def)

lemma outbox_insert_new:
  assumes "tid \<notin> ob_txn_id ` set (outbox_events db)"
  shows "outbox_events (snd (outbox_insert now tid payload db)) =
      outbox_events db @ [new_event (outbox_seq db) now tid payload]"
  using assms by (simp add: outbox_insert_def Let_def new_event_def)

text \<open>What the transaction table says after an accepted payment.\<close>

lemma accepted_tables:
  assumes "db' = snd (outbox_insert now tid payload (db\<lparr>transactions := transactions db @ [row], txn_seq := n\<rparr>))"
  shows "transactions db' = transactions db @ [row]" "dead_letter_jobs db' = dead_letter_jobs db"
    "set (outbox_events db) \<subseteq> set (outbox_events db')"
  unfolding assms by (simp_all add: outbox_insert_frame) (use outbox_insert_frame(3) in fastforce)

text \<open>A later payment with the key of a stored one is answered from the store.\<close>

lemma pay_again:
  assumes "pay hmac sha256 env pg txnId ms now client hdr txn db = (answer, db')"
    and "hdr ''x-idempotency-key'' = Some key" "key \<noteq> []" and "find_by_key (Some key) db = Some r"
    and "pg_laws pg" and "unreserved txn" and "client \<noteq> []" "\<And>t. sha256 t \<noteq> []"
    and "check_payment hmac sha256 env txnId ms client key txn = Inr (Inr fullTxn)"
    and "transaction_values pg now (txn_seq db) fullTxn = Inr row" and "row_fits pg row"
  shows "answer = (if createRequestHash sha256 txn = Inr (the (request_hash r)) \<and> request_hash r \<noteq> None
      then duplicate_answer r else conflict_answer) \<and> same_tables db db'"
proof -
  note stable = check_payment_stable [OF assms(9)]
  have run: "pay hmac sha256 env pg txnId ms now client hdr txn db =
      (case saveTransactionWithOutbox hmac env pg now fullTxn db of
         (Inl _, db') \<Rightarrow> (internal_error, db')
       | (Inr res, db') \<Rightarrow>
           if \<not> inserted res then
             if conflict res then (conflict_answer, db')
             else (case saved_transaction res of
                     Some r \<Rightarrow> (duplicate_answer r, db') | None \<Rightarrow> (internal_error, db'))
           else (accepted_answer txnId, db'))"
    using assms(2,3,9) by (simp add: pay_def)
  note row = assms(10)
  obtain hash where hash: "createRequestHash sha256 txn = Inr hash"
    and ids: "idempotency_key row = Some key" "field fullTxn ''idempotencyKey'' = JStr key"
      "field fullTxn ''requestHash'' = JStr hash"
    using assms(9) row assms(5,6,7,3,8) by (rule accepted_row_identity)
  have "insert_transaction pg row db = Inr (KeyTaken (db\<lparr>txn_seq := txn_seq db + 1\<rparr>))"
    using assms(4,11) ids(1) by (simp add: insert_transaction_KeyTaken)
  then obtain res db1 where saved: "save_in_transaction hmac env pg now fullTxn fullTxn db = Inr (res, db1)"
    using row by (simp add: save_in_transaction_def Let_def)
  from saved show ?thesis
  proof (cases rule: save_in_transaction_cases)
    case (accepted row' sent payload)
    with row ids assms(4) show ?thesis by simp
  next
    case (duplicate row')
    have "saved_transaction res = Some r"
      using duplicate(6) ids(2) assms(4,5) by (simp add: pg_laws_def)
    moreover have "opt_js h \<noteq> JStr hash \<longleftrightarrow> h \<noteq> Some hash" for h by (cases h) auto
    ultimately have "conflict res \<longleftrightarrow> request_hash r \<noteq> Some hash"
      using duplicate(7) ids(3) by simp
    moreover have "saveTransactionWithOutbox hmac env pg now fullTxn db = (Inr res, db1)"
      using saved stable(1) by (simp add: saveTransactionWithOutbox_def)
    ultimately have "(answer, db') = (if request_hash r \<noteq> Some hash then conflict_answer else duplicate_answer r, db1)"
      using run duplicate(4) \<open>saved_transaction res = Some r\<close> assms(1) by simp
    moreover have "same_tables db db1" using duplicate(8) by (simp add: same_tables_def)
    moreover have "(createRequestHash sha256 txn = Inr (the (request_hash r)) \<and> request_hash r \<noteq> None) \<longleftrightarrow>
        request_hash r = Some hash"
      using hash by (cases "request_hash r") auto
    ultimately show ?thesis by auto
  qed
qed

section \<open>Properties\<close>

lemma same_tables_get: "same_tables db db' \<Longrightarrow> getTransaction tid db' = getTransaction tid db"
  by (simp add: same_tables_def getTransaction_def)

text \<open>A body, and a request that is accepted with it.\<close>

definition sample_body :: jsval where
  "sample_body = JObj
     [(''amount'', JNum (Fin 5)), (''fromAccount'', JStr ''a''), (''toAccount'', JStr ''b''),
      (''type'', JStr ''PURCHASE''), (''channel'', JStr ''ECOM''), (''issuerType'', JStr ''INTERNAL''),
      (''pin'', JStr ''TEST_PIN''), (''clientId'', JStr ''other'')]"

definition key_header :: "string \<Rightarrow> headers" where
  "key_header key = (\<lambda>_. None)(''x-idempotency-key'' := Some key)"

definition sample_pay :: "db \<Rightarrow> response \<times> db" where
  "sample_pay db = pay (\<lambda>s d. ''f'') (\<lambda>t. ''h'') sample_env sample_pg ''id'' 0 0 ''client'' (key_header ''k'') sample_body db"

lemma sample_pay_accepted: "fst (sample_pay empty_db) = accepted_answer ''id''"
  by code_simp

text \<open>C14: A payment request changes the tables only if it is answered \<open>202 ACCEPTED\<close>. Then one row
  is added, the one made of the checked and sanitized payment: accepted, untried, without a
  lease, under a new id and a free idempotency key; and one event for it, pending and unclaimed,
  whose payload is that same payment as JSON, without sensitive members (unless an event under
  this id was there already). Nothing else changes. If the body names none of the members the
  server sets itself, the row belongs to the authenticated client and carries the answered id,
  the key of the header and the hash of the body.\<close>

theorem pay_effect:
  assumes "pay hmac sha256 env pg txnId ms now client hdr txn db = (answer, db')" and "pg_laws pg"
  shows "if answer = accepted_answer txnId
    then \<exists>row key fullTxn payload. hdr ''x-idempotency-key'' = Some key \<and> key \<noteq> [] \<and>
      check_payment hmac sha256 env txnId ms client key txn = Inr (Inr fullTxn) \<and>
      transaction_values pg now (txn_seq db) fullTxn = Inr row \<and>
      to_json fullTxn = Some payload \<and> clean payload \<and>
      transactions db' = transactions db @ [row] \<and> dead_letter_jobs db' = dead_letter_jobs db \<and>
      outbox_events db' = outbox_events db @
        (if txn_id row \<in> ob_txn_id ` set (outbox_events db) then []
         else [\<lparr>ob_id = outbox_seq db, ob_txn_id = txn_id row, ob_event_type = ''TRANSACTION_ACCEPTED'',
            ob_payload = payload, ob_status = ''PENDING'', ob_attempts = 0, ob_claim_count = 0,
            ob_recovery_count = 0, ob_claimed_at = None, ob_locked_by = None, ob_last_error = None,
            ob_created_at = now, ob_updated_at = now\<rparr>]) \<and>
      txn_status row = ''ACCEPTED'' \<and> retry_count row = 0 \<and> lease_columns row \<and>
      txn_id row \<notin> txn_ids db \<and> find_by_key (idempotency_key row) db = None \<and>
      (unreserved txn \<and> client \<noteq> [] \<and> (\<forall>t. sha256 t \<noteq> []) \<longrightarrow>
         txn_id row = txnId \<and> client_id row = Some client \<and> idempotency_key row = Some key \<and>
         (\<exists>hash. createRequestHash sha256 txn = Inr hash \<and> request_hash row = Some hash))
    else same_tables db db'"
  using assms(1)
proof (cases rule: pay_cases)
  case refused
  then show ?thesis by simp
next
  case (accepted key fullTxn row payload)
  note fresh = accepted_row [OF accepted(3,5) assms(2)] and tables = accepted_tables [OF accepted(9)]
  have "clean payload" using clean_to_json [OF accepted(8)] check_payment_stable(3) [OF accepted(3)] .
  moreover have "outbox_events db' = outbox_events db @
      (if txn_id row \<in> ob_txn_id ` set (outbox_events db) then [] else [new_event (outbox_seq db) now (txn_id row) payload])"
    by (simp add: accepted(9) outbox_insert_def Let_def new_event_def)
  moreover have "txn_id row = txnId \<and> client_id row = Some client \<and> idempotency_key row = Some key \<and>
      (\<exists>hash. createRequestHash sha256 txn = Inr hash \<and> request_hash row = Some hash)"
    if "unreserved txn \<and> client \<noteq> [] \<and> (\<forall>t. sha256 t \<noteq> [])"
    using accepted_row_identity [OF accepted(3,5) assms(2) _ _ accepted(2)] that by metis
  ultimately show ?thesis
    using accepted(1-8) fresh(1-3) tables(1,2) unfolding new_event_def by auto
qed

theorem pay_effect_witness:
  "\<exists>row event. transactions (snd (sample_pay empty_db)) = [row] \<and> txn_status row = ''ACCEPTED'' \<and>
    outbox_events (snd (sample_pay empty_db)) = [event] \<and> ob_status event = ''PENDING'' \<and> clean (ob_payload event)"
proof -
  have "pay (\<lambda>s d. ''f'') (\<lambda>t. ''h'') sample_env sample_pg ''id'' 0 0 ''client'' (key_header ''k'') sample_body empty_db =
      (accepted_answer ''id'', snd (sample_pay empty_db))"
    using sample_pay_accepted by (simp add: sample_pay_def prod_eq_iff)
  from pay_effect [OF this sample_pg_laws] show ?thesis by (auto simp: empty_db_def)
qed

text \<open>C15: A later payment with the idempotency key of a stored transaction, that passes the checks and
  whose body names none of the members the server sets itself, changes no table and is answered
  from the store: with the original transaction if the hash of its body is the stored one, and
  as a conflict otherwise. It fails only if its values cannot be bound or do not fit the columns
  (a body that names an \<open>idempotencyKey\<close> of its own is stored under that, not under the header's).\<close>

theorem pay_replayed:
  assumes "pay hmac sha256 env pg txnId ms now client hdr txn db = (answer, db')"
    and "hdr ''x-idempotency-key'' = Some key" "key \<noteq> []" and "find_by_key (Some key) db = Some r"
    and "pg_laws pg" and "unreserved txn" and "client \<noteq> []" "\<And>t. sha256 t \<noteq> []"
    and "check_payment hmac sha256 env txnId ms client key txn = Inr (Inr fullTxn)"
  shows "same_tables db db' \<and>
    answer = (case transaction_values pg now (txn_seq db) fullTxn of
        Inr row \<Rightarrow>
          if \<not> row_fits pg row then internal_error
          else if createRequestHash sha256 txn = Inr (the (request_hash r)) \<and> request_hash r \<noteq> None
          then duplicate_answer r else conflict_answer
      | Inl e \<Rightarrow> internal_error)"
proof -
  have failed: "same_tables db db' \<and> answer = internal_error"
    if "save_in_transaction hmac env pg now fullTxn fullTxn db = Inl e" for e
    using assms(1-3,9) that check_payment_stable(1) [OF assms(9)]
    by (auto simp: pay_def saveTransactionWithOutbox_def rolled_back_def same_tables_def)
  show ?thesis
  proof (cases "transaction_values pg now (txn_seq db) fullTxn")
    case (Inl e)
    then show ?thesis using failed by (simp add: save_in_transaction_def)
  next
    case (Inr row)
    show ?thesis
    proof (cases "row_fits pg row")
      case True
      then show ?thesis using pay_again [OF assms Inr] Inr by simp
    next
      case False
      then show ?thesis using failed Inr by (simp add: save_in_transaction_def insert_transaction_def Let_def)
    qed
  qed
qed

definition plain_body :: jsval where
  "plain_body = JObj
     [(''amount'', JNum (Fin 5)), (''fromAccount'', JStr ''a''), (''toAccount'', JStr ''b''),
      (''type'', JStr ''PURCHASE''), (''channel'', JStr ''ECOM''), (''issuerType'', JStr ''INTERNAL'')]"

lemma plain_body_checked:
  "\<exists>fullTxn. check_payment (\<lambda>s d. ''f'') (\<lambda>t. ''h2'') sample_env ''id2'' 0 ''client'' ''k'' plain_body = Inr (Inr fullTxn)"
proof -
  have "case check_payment (\<lambda>s d. ''f'') (\<lambda>t. ''h2'') sample_env ''id2'' 0 ''client'' ''k'' plain_body of
      Inr (Inr _) \<Rightarrow> True | _ \<Rightarrow> False"
    by code_simp
  then show ?thesis by (auto split: sum.splits)
qed

theorem pay_replayed_witness:
  "fst (pay (\<lambda>s d. ''f'') (\<lambda>t. ''h2'') sample_env sample_pg ''id2'' 0 0 ''client'' (key_header ''k'') plain_body
      (sample_db [sample_row ''t'' ''COMPLETED''])) = conflict_answer \<and>
   fst (pay (\<lambda>s d. ''f'') (\<lambda>t. ''h2'') sample_env sample_pg ''id2'' 0 0 ''client'' (key_header ''k'') plain_body
      (sample_db [sample_row ''t'' ''COMPLETED''\<lparr>request_hash := Some ''h2''\<rparr>])) =
     duplicate_answer (sample_row ''t'' ''COMPLETED''\<lparr>request_hash := Some ''h2''\<rparr>)"
proof -
  let ?pay = "pay (\<lambda>s d. ''f'') (\<lambda>t. ''h2'') sample_env sample_pg ''id2'' 0 0 ''client'' (key_header ''k'') plain_body"
  have key: "key_header ''k'' ''x-idempotency-key'' = Some ''k''" by (simp add: key_header_def)
  have body: "unreserved plain_body" by (simp add: unreserved_def reserved_keys_def plain_body_def keys_def)
  obtain fullTxn where checked: "check_payment (\<lambda>s d. ''f'') (\<lambda>t. ''h2'') sample_env ''id2'' 0 ''client'' ''k'' plain_body =
      Inr (Inr fullTxn)"
    using plain_body_checked by blast
  have hash: "createRequestHash (\<lambda>t. ''h2'') plain_body = Inr ''h2''" by code_simp
  have seq: "txn_seq (sample_db [r]) = txn_seq empty_db" for r by (simp add: sample_db_def)
  have "case check_payment (\<lambda>s d. ''f'') (\<lambda>t. ''h2'') sample_env ''id2'' 0 ''client'' ''k'' plain_body of
      Inr (Inr v) \<Rightarrow> (case transaction_values sample_pg 0 (txn_seq empty_db) v of Inr _ \<Rightarrow> True | Inl _ \<Rightarrow> False)
    | _ \<Rightarrow> False"
    by code_simp
  then obtain row where row: "transaction_values sample_pg 0 (txn_seq empty_db) fullTxn = Inr row"
    using checked by (auto split: sum.splits)
  have fits: "row_fits sample_pg row" by (simp add: sample_pg_def)
  have answer: "fst (?pay (sample_db [r])) = (if request_hash r = Some ''h2'' then duplicate_answer r else conflict_answer)"
    if "idempotency_key r = Some ''k''" for r
  proof -
    have run: "?pay (sample_db [r]) = (fst (?pay (sample_db [r])), snd (?pay (sample_db [r])))" by simp
    have get: "find_by_key (Some ''k'') (sample_db [r]) = Some r" using that by (simp add: find_by_key_def sample_db_def)
    have strings: "''k'' \<noteq> []" "''client'' \<noteq> []" "\<And>t :: string. ''h2'' \<noteq> []" by simp_all
    show ?thesis
      using pay_replayed [OF run key strings(1) get sample_pg_laws body strings(2,3) checked, THEN conjunct2]
      unfolding seq row hash using fits by (cases "request_hash r") auto
  qed
  let ?r = "sample_row ''t'' ''COMPLETED''"
  have rows: "idempotency_key ?r = Some ''k''" "request_hash ?r \<noteq> Some ''h2''" by (simp_all add: sample_row_def)
  have "fst (?pay (sample_db [?r])) = conflict_answer" using answer [of ?r] rows by simp
  moreover have "fst (?pay (sample_db [?r\<lparr>request_hash := Some ''h2''\<rparr>])) = duplicate_answer (?r\<lparr>request_hash := Some ''h2''\<rparr>)"
    using answer [of "?r\<lparr>request_hash := Some ''h2''\<rparr>"] rows by simp
  ultimately show ?thesis by blast
qed

text \<open>C27: The members of the body are spread over the ones the server has set: a client that names a
  \<open>clientId\<close> in its body has the transaction stored under that name, whoever it is
  authenticated as, and the owner so named is the one who may read its status.\<close>

theorem body_names_owner:
  assumes "pay hmac sha256 env pg txnId ms now client hdr txn db = (accepted_answer txnId, db')" and "pg_laws pg"
    and "map_of (own_props txn) ''clientId'' = Some (JStr owner)" and "owner \<noteq> []"
    and "distinct (map fst (own_props txn))"
  shows "\<exists>row. transactions db' = transactions db @ [row] \<and> client_id row = Some owner"
  using assms(1)
proof (cases rule: pay_cases)
  case refused
  then show ?thesis by simp
next
  case (accepted key fullTxn row payload)
  obtain hash v where v: "validateTransaction (config_of env) txn = Inr (Valid v)"
    and safe: "sanitizeTransactionForPersistence hmac env (full_transaction txnId client key hash v ms) = Inr fullTxn"
    using accepted(3) by (rule check_payment_saved)
  obtain amount where
    v': "v = JObj (spread [] (own_props txn @ [(''amount'', JNum amount), (''type'', field txn ''type'')]))"
    using v by (rule validated_props)
  have "map_of (own_props v) ''clientId'' = Some (JStr owner)"
    using map_of_object_literal [of "own_props txn @ [(''amount'', JNum amount), (''type'', field txn ''type'')]"] assms(3,5)
    by (simp add: v' object_literal_def map_of_rev_distinct)
  moreover have "distinct (map fst (own_props v))" by (simp add: v' distinct_spread)
  ultimately have "field (full_transaction txnId client key hash v ms) ''clientId'' = JStr owner"
    by (rule full_clientId_of_body)
  from saved_field [OF safe this] have "field fullTxn ''clientId'' = JStr owner"
    by (simp add: derived_key_def sensitive_key_def)
  then have "client_id row = Some owner"
    using transaction_values_id [OF accepted(5)] assms(2,4) by (simp add: or_null_def js_or_def pg_laws_def)
  then show ?thesis using accepted_tables(1) [OF accepted(9)] by blast
qed

theorem body_names_owner_witness:
  "\<exists>row. transactions (snd (sample_pay empty_db)) = [row] \<and> client_id row = Some ''other''"
proof -
  have run: "pay (\<lambda>s d. ''f'') (\<lambda>t. ''h'') sample_env sample_pg ''id'' 0 0 ''client'' (key_header ''k'') sample_body empty_db =
      (accepted_answer ''id'', snd (sample_pay empty_db))"
    using sample_pay_accepted by (simp add: sample_pay_def prod_eq_iff)
  have "map_of (own_props sample_body) ''clientId'' = Some (JStr ''other'')" "distinct (map fst (own_props sample_body))"
    by (simp_all add: sample_body_def)
  from body_names_owner [OF run sample_pg_laws this(1) _ this(2)] show ?thesis by (simp add: empty_db_def)
qed

text \<open>C30: A transaction's status is shown only to an administrator and to the client it belongs to;
  what is shown has no member named \<open>pin\<close>, \<open>cardNumber\<close> or \<open>card_number\<close> at any depth, and no
  fingerprint of the card.\<close>

theorem status_access:
  assumes "get_status env pg hdr tid db = Inr (200, v)"
  shows "clean v \<and> keys (own_props v) \<inter> {''cardFingerprint'', ''card_fingerprint''} = {} \<and>
    (\<exists>r. getTransaction tid db = Some r \<and>
      (adminApiKeyAuth env hdr = Inr () \<or> (\<exists>c. apiKeyAuth env hdr = Inr (Client c) \<and> client_id r = Some c)))"
proof -
  obtain auth r where auth: "apiKeyOrAdminAuth env hdr = Inr auth" and r: "getTransaction tid db = Some r"
    and access: "canAccessTransactionStatus (Some auth) (Some r)"
    and shown: "serializeTransactionResponse (row_object pg r) = Inr v"
    using assms by (auto simp: get_status_def and_then_Inr_iff rejection_def apiKeyOrAdminAuth_def apiKeyAuth_def
        split: sum.splits option.splits if_splits)
  obtain ps where ps: "removeSensitiveFields (row_object pg r) = JObj ps"
    by (simp add: row_object_def)
  with shown have v: "v = JObj (delete_prop ''card_fingerprint'' (delete_prop ''cardFingerprint'' ps))"
    by (simp add: serializeTransactionResponse_def)
  have "clean (JObj ps)" using clean_removeSensitiveFields [of "row_object pg r"] ps by simp
  then have "clean v" by (auto simp: v delete_prop_def list_all_iff)
  moreover have "adminApiKeyAuth env hdr = Inr () \<or> (\<exists>c. apiKeyAuth env hdr = Inr (Client c) \<and> client_id r = Some c)"
    using auth access
    by (auto simp: apiKeyOrAdminAuth_def adminApiKeyAuth_def canAccessTransactionStatus_def apiKeyAuth_def
        split: if_splits option.splits)
  ultimately show ?thesis using r by (simp add: v)
qed

definition admin_header :: headers where
  "admin_header = (\<lambda>_. None)(''x-admin-api-key'' := Some DEV_ADMIN_API_KEY)"

theorem status_access_witness:
  "\<exists>v. get_status sample_env sample_pg admin_header ''t'' (sample_db [sample_row ''t'' ''COMPLETED'']) = Inr (200, v) \<and> clean v"
proof -
  have "case get_status sample_env sample_pg admin_header ''t'' (sample_db [sample_row ''t'' ''COMPLETED'']) of
      Inr (code, _) \<Rightarrow> code = 200 | Inl _ \<Rightarrow> False"
    by code_simp
  then obtain v where v: "get_status sample_env sample_pg admin_header ''t'' (sample_db [sample_row ''t'' ''COMPLETED'']) = Inr (200, v)"
    by (auto split: sum.splits)
  from status_access [OF v] v show ?thesis by blast
qed

end
