(* ===== verification/Outbox.thy ===== *)
theory Outbox
  imports Store
begin

text \<open>
  \<open>outbox/outboxProcessor.js\<close>: claiming pending events, handing them to the queue, and
  taking back events whose processor went silent. Rows that other database transactions
  hold a lock on are an argument (\<open>FOR UPDATE SKIP LOCKED\<close> passes over them); the queue is
  a state of any type with an \<open>enqueue\<close> operation, since BullMQ is not code of the
  repository.
\<close>

section \<open>Stale events\<close>

definition eligible :: "string list option \<Rightarrow> outbox_row \<Rightarrow> bool" where
  "eligible ids e = (case ids of None \<Rightarrow> True | Some xs \<Rightarrow> ob_txn_id e \<in> set xs)"

definition stale_event :: "int \<Rightarrow> string list option \<Rightarrow> int \<Rightarrow> outbox_row \<Rightarrow> bool" where
  "stale_event staleTimeoutMs ids now e \<longleftrightarrow>
     ob_status e = ''PROCESSING'' \<and>
     (case ob_claimed_at e of Some t \<Rightarrow> t < now - millis staleTimeoutMs | None \<Rightarrow> False) \<and>
     eligible ids e"

definition take_back :: "int \<Rightarrow> int \<Rightarrow> outbox_row \<Rightarrow> outbox_row" where
  "take_back maxRecoveries now e =
     (let next_count = ob_recovery_count e + 1 in
      e\<lparr>ob_status := (if maxRecoveries \<le> next_count then ''OUTBOX_FAILED'' else ''PENDING''),
        ob_claimed_at := None,
        ob_locked_by := None,
        ob_recovery_count := next_count,
        ob_last_error := (if maxRecoveries \<le> next_count
          then Some ''Outbox event exceeded max stale recoveries'' else ob_last_error e),
        ob_updated_at := now\<rparr>)"

definition update_outbox :: "(outbox_row \<Rightarrow> bool) \<Rightarrow> (outbox_row \<Rightarrow> outbox_row) \<Rightarrow> db \<Rightarrow> db" where
  "update_outbox p f db = db\<lparr>outbox_events := update_where p f (outbox_events db)\<rparr>"

text \<open>The rows returned: id, transaction, new status and count, and who held the event.\<close>

type_synonym recovered_event = "int \<times> string \<times> string \<times> int \<times> string option"

definition recoverStaleOutboxEvents ::
  "int \<Rightarrow> int \<Rightarrow> string list option \<Rightarrow> int \<Rightarrow> db \<Rightarrow> recovered_event list \<times> db" where
  "recoverStaleOutboxEvents staleTimeoutMs maxRecoveries ids now db =
     (let stale = stale_event staleTimeoutMs ids now; f = take_back maxRecoveries now in
      (map (\<lambda>e. (ob_id e, ob_txn_id e, ob_status (f e), ob_recovery_count (f e), ob_locked_by e))
         (filter stale (outbox_events db)),
       update_outbox stale f db))"

section \<open>Claiming\<close>

definition claim_event :: "string \<Rightarrow> int \<Rightarrow> outbox_row \<Rightarrow> outbox_row" where
  "claim_event processor now e = e\<lparr>ob_status := ''PROCESSING'', ob_claimed_at := Some now,
     ob_locked_by := Some processor, ob_claim_count := ob_claim_count e + 1, ob_updated_at := now\<rparr>"

definition pending_events :: "string list option \<Rightarrow> (int \<Rightarrow> bool) \<Rightarrow> db \<Rightarrow> outbox_row list" where
  "pending_events ids locked db =
     filter (\<lambda>e. \<not> locked (ob_id e))
       (sort_key ob_id (filter (\<lambda>e. ob_status e = ''PENDING'' \<and> eligible ids e) (outbox_events db)))"

definition claimOutboxEvents ::
  "nat \<Rightarrow> string \<Rightarrow> string list option \<Rightarrow> (int \<Rightarrow> bool) \<Rightarrow> int \<Rightarrow> db \<Rightarrow> outbox_row list \<times> db" where
  "claimOutboxEvents limit processor ids locked now db =
     (let rows = take limit (pending_events ids locked db);
          eventIds = map ob_id rows
      in (rows, if eventIds \<noteq> []
                then update_outbox (\<lambda>e. ob_id e \<in> set eventIds) (claim_event processor now) db
                else db))"

section \<open>Handing over\<close>

definition mark_sent :: "int \<Rightarrow> int \<Rightarrow> db \<Rightarrow> db" where
  "mark_sent now event_id =
     update_outbox (\<lambda>e. ob_id e = event_id)
       (\<lambda>e. e\<lparr>ob_status := ''SENT'', ob_attempts := ob_attempts e + 1, ob_claimed_at := None,
          ob_locked_by := None, ob_updated_at := now\<rparr>)"

definition mark_failed :: "int \<Rightarrow> string \<Rightarrow> int \<Rightarrow> db \<Rightarrow> db" where
  "mark_failed now safeError event_id =
     update_outbox (\<lambda>e. ob_id e = event_id)
       (\<lambda>e. e\<lparr>ob_status := ''PENDING'', ob_attempts := ob_attempts e + 1, ob_claimed_at := None,
          ob_locked_by := None, ob_last_error := Some safeError, ob_updated_at := now\<rparr>)"

definition queued_job :: "outbox_row \<Rightarrow> job" where
  "queued_job e = \<lparr>job_id = ob_txn_id e, job_data = ob_payload e,
     job_queue = ''transaction-processing'', job_attemptsMade = 0, job_attempts = 3\<rparr>"

text \<open>
  What happens while one event is handed over: whether the call to the queue fails, the
  statement that marks the event sent, and the statement of the \<open>catch\<close> block that puts it
  back; and, of each that fails, whether it took effect all the same and only its reply was lost
  (\<open>add_stored\<close>, \<open>mark_stored\<close>, \<open>release_stored\<close>). \<open>settled_at\<close> is the time of the statements.
\<close>

record handover =
  add_error :: "string option"
  add_stored :: bool
  mark_error :: "string option"
  mark_stored :: bool
  release_error :: "string option"
  release_stored :: bool
  settled_at :: int

definition smooth :: "int \<Rightarrow> handover" where
  "smooth now = \<lparr>add_error = None, add_stored = True, mark_error = None, mark_stored = True,
     release_error = None, release_stored = True, settled_at = now\<rparr>"

definition release_event :: "handover \<Rightarrow> string \<Rightarrow> int \<Rightarrow> 'q \<times> db \<Rightarrow> js_error option \<times> 'q \<times> db" where
  "release_event h message event_id s =
     (case release_error h of
        Some m \<Rightarrow> (Some (DbError m), fst s,
          if release_stored h then mark_failed (settled_at h) (redact message) event_id (snd s) else snd s)
      | None \<Rightarrow> (None, fst s, mark_failed (settled_at h) (redact message) event_id (snd s)))"

definition send_event ::
  "(job \<Rightarrow> 'q \<Rightarrow> 'q) \<Rightarrow> handover \<Rightarrow> outbox_row \<Rightarrow> 'q \<times> db \<Rightarrow> js_error option \<times> 'q \<times> db" where
  "send_event enqueue h e s =
     (case add_error h of
        Some m \<Rightarrow>
          release_event h m (ob_id e) (if add_stored h then enqueue (queued_job e) (fst s) else fst s, snd s)
      | None \<Rightarrow>
          let q = enqueue (queued_job e) (fst s) in
          (case mark_error h of
             Some m \<Rightarrow> release_event h m (ob_id e)
               (q, if mark_stored h then mark_sent (settled_at h) (ob_id e) (snd s) else snd s)
           | None \<Rightarrow> (None, q, mark_sent (settled_at h) (ob_id e) (snd s))))"

text \<open>The loop over the claimed events; a throw out of the \<open>catch\<close> block ends it.\<close>

fun send_events ::
  "(job \<Rightarrow> 'q \<Rightarrow> 'q) \<Rightarrow> (int \<Rightarrow> handover) \<Rightarrow> outbox_row list \<Rightarrow> 'q \<times> db \<Rightarrow> js_error option \<times> 'q \<times> db" where
  "send_events enqueue hs [] s = (None, s)"
| "send_events enqueue hs (e # es) s =
     (case send_event enqueue (hs (ob_id e)) e s of
        (Some err, s') \<Rightarrow> (Some err, s')
      | (None, s') \<Rightarrow> send_events enqueue hs es s')"

text \<open>\<open>clock\<close> holds the times of the recovery and of the claim.\<close>

definition processOutboxEvents ::
  "(job \<Rightarrow> 'q \<Rightarrow> 'q) \<Rightarrow> (int \<Rightarrow> handover) \<Rightarrow> int \<Rightarrow> int \<Rightarrow> string \<Rightarrow> (int \<Rightarrow> bool) \<Rightarrow> int \<times> int \<Rightarrow>
    'q \<times> db \<Rightarrow> js_error option \<times> 'q \<times> db" where
  "processOutboxEvents enqueue hs staleMs maxRec processor locked clock s =
     (let db1 = snd (recoverStaleOutboxEvents staleMs maxRec None (fst clock) (snd s));
          (events, db2) = claimOutboxEvents 10 processor None locked (snd clock) db1
      in send_events enqueue hs events (fst s, db2))"

section \<open>What each statement does to one event\<close>

definition event_by_id :: "int \<Rightarrow> db \<Rightarrow> outbox_row option" where
  "event_by_id i db = find_row ob_id i (outbox_events db)"

definition unique_event_ids :: "db \<Rightarrow> bool" where
  "unique_event_ids db \<longleftrightarrow> distinct (map ob_id (outbox_events db))"

lemma store_inv_event_ids: "store_inv db \<Longrightarrow> unique_event_ids db"
  by (simp add: store_inv_def unique_event_ids_def strict_sorted_iff)

lemma event_update [sql_eval]:
  "(\<And>e. ob_id (f e) = ob_id e) \<Longrightarrow>
    event_by_id i (update_outbox p f db) = map_option (\<lambda>e. if p e then f e else e) (event_by_id i db)"
  by (simp add: event_by_id_def update_outbox_def find_row_update)

lemma event_by_id_id: "event_by_id i db = Some e \<Longrightarrow> ob_id e = i"
  by (auto simp: event_by_id_def dest: find_row_SomeD)

lemma event_by_id_in: "event_by_id i db = Some e \<Longrightarrow> e \<in> set (outbox_events db)"
  by (auto simp: event_by_id_def dest: find_row_SomeD)

lemma event_rows_ids [simp]:
  "ob_id (take_back m now e) = ob_id e" "ob_txn_id (take_back m now e) = ob_txn_id e"
  "ob_id (claim_event p now e) = ob_id e" "ob_txn_id (claim_event p now e) = ob_txn_id e"
  by (simp_all add: take_back_def claim_event_def Let_def)

definition event_frame :: "db \<Rightarrow> db \<Rightarrow> bool" where
  "event_frame db db' \<longleftrightarrow>
     map (\<lambda>e. (ob_id e, ob_txn_id e, ob_payload e)) (outbox_events db') =
       map (\<lambda>e. (ob_id e, ob_txn_id e, ob_payload e)) (outbox_events db) \<and>
     db'\<lparr>outbox_events := outbox_events db\<rparr> = db"

lemma event_frame_refl [simp]: "event_frame db db"
  by (simp add: event_frame_def)

lemma event_frame_trans:
  assumes "event_frame a b" and "event_frame b c"
  shows "event_frame a c"
proof -
  have "c\<lparr>outbox_events := outbox_events a\<rparr> = c\<lparr>outbox_events := outbox_events b\<rparr>\<lparr>outbox_events := outbox_events a\<rparr>"
    by simp
  also have "\<dots> = b\<lparr>outbox_events := outbox_events a\<rparr>" using assms(2) by (simp only: event_frame_def)
  also have "\<dots> = a" using assms(1) by (simp only: event_frame_def)
  finally have rest: "c\<lparr>outbox_events := outbox_events a\<rparr> = a" .
  show ?thesis
    unfolding event_frame_def
    using trans [OF conjunct1 [OF assms(2) [unfolded event_frame_def]] conjunct1 [OF assms(1) [unfolded event_frame_def]]]
      rest by (rule conjI)
qed

lemma event_frame_update:
  "(\<And>e. ob_id (f e) = ob_id e \<and> ob_txn_id (f e) = ob_txn_id e \<and> ob_payload (f e) = ob_payload e) \<Longrightarrow>
    event_frame db (update_outbox p f db)"
  by (simp add: event_frame_def update_outbox_def map_update_where)

lemma event_frame_ops:
  "event_frame db (snd (recoverStaleOutboxEvents stale m ids now db))"
  "event_frame db (snd (claimOutboxEvents limit p ids locked now db))"
  "event_frame db (mark_sent now i db)" "event_frame db (mark_failed now msg i db)"
  by (auto simp: recoverStaleOutboxEvents_def claimOutboxEvents_def Let_def mark_sent_def mark_failed_def
      take_back_def claim_event_def intro!: event_frame_update)

lemma event_frame_ids:
  assumes "event_frame db db'"
  shows "map ob_id (outbox_events db') = map ob_id (outbox_events db)"
proof -
  have "map ob_id es = map fst (map (\<lambda>e. (ob_id e, ob_txn_id e, ob_payload e)) es)" for es :: "outbox_row list"
    by (simp add: comp_def)
  then show ?thesis using assms unfolding event_frame_def by (elim conjE) (simp only:)
qed

lemma event_frame_unique: "event_frame db db' \<Longrightarrow> unique_event_ids db' = unique_event_ids db"
  by (simp add: unique_event_ids_def event_frame_ids)

section \<open>Claims\<close>

lemma set_pending_events:
  "set (pending_events ids locked db) =
    {e \<in> set (outbox_events db). ob_status e = ''PENDING'' \<and> eligible ids e \<and> \<not> locked (ob_id e)}"
  by (auto simp: pending_events_def)

lemma pending_sorted:
  assumes "unique_event_ids db"
  shows "sorted_wrt (<) (map ob_id (pending_events ids locked db))"
proof -
  let ?es = "sort_key ob_id (filter (\<lambda>e. ob_status e = ''PENDING'' \<and> eligible ids e) (outbox_events db))"
  have "distinct (map ob_id ?es)"
    using assms by (simp add: unique_event_ids_def distinct_map inj_on_def)
  then have "sorted_wrt (<) (map ob_id ?es)" by (simp add: strict_sorted_iff)
  then show ?thesis by (simp add: pending_events_def sorted_wrt_map sorted_wrt_filter)
qed

lemma claim_rows:
  "fst (claimOutboxEvents limit p ids locked now db) = take limit (pending_events ids locked db)"
  by (simp add: claimOutboxEvents_def Let_def)

lemma claim_get:
  "event_by_id i (snd (claimOutboxEvents limit p ids locked now db)) =
    map_option (\<lambda>e. if ob_id e \<in> ob_id ` set (fst (claimOutboxEvents limit p ids locked now db))
      then claim_event p now e else e) (event_by_id i db)"
  by (auto simp: claimOutboxEvents_def Let_def event_update option.map_ident)

text \<open>A row is claimed when it was pending and no earlier pending row was left behind.\<close>

lemma claim_lowest:
  assumes "unique_event_ids db"
    and e: "e \<in> set (pending_events ids locked db)"
    and "e \<notin> set (fst (claimOutboxEvents limit p ids locked now db))"
  shows "length (fst (claimOutboxEvents limit p ids locked now db)) = limit"
    and "c \<in> set (fst (claimOutboxEvents limit p ids locked now db)) \<Longrightarrow> ob_id c < ob_id e"
proof -
  let ?es = "pending_events ids locked db"
  have split: "?es = take limit ?es @ drop limit ?es" by simp
  have drop: "e \<in> set (drop limit ?es)"
    using e assms(3) split by (metis Un_iff claim_rows set_append)
  then show "length (fst (claimOutboxEvents limit p ids locked now db)) = limit"
    by (cases "limit \<le> length ?es") (auto simp: claim_rows)
  have "sorted_wrt (<) (map ob_id (take limit ?es) @ map ob_id (drop limit ?es))"
    using pending_sorted [OF assms(1)] split by (metis map_append)
  then show "c \<in> set (fst (claimOutboxEvents limit p ids locked now db)) \<Longrightarrow> ob_id c < ob_id e"
    using drop by (auto simp: claim_rows sorted_wrt_append)
qed

section \<open>Rounds of claims\<close>

text \<open>
  The contract of a pool of work items from which any number of processors take: a taken
  item leaves the pool, and a round takes as many as its capacity allows.
\<close>

locale work_pool =
  fixes ok :: "'s \<Rightarrow> bool"
    and waiting :: "'s \<Rightarrow> 'i set"
    and reachable :: "'c \<Rightarrow> 'i \<Rightarrow> bool"
    and capacity :: "'c \<Rightarrow> nat"
    and grab :: "'c \<Rightarrow> 's \<Rightarrow> 'i list \<times> 's"
  assumes grab_ok: "ok s \<Longrightarrow> ok (snd (grab c s))"
    and waiting_finite: "finite (waiting s)"
    and grab_distinct: "ok s \<Longrightarrow> distinct (fst (grab c s))"
    and grab_reachable: "ok s \<Longrightarrow> set (fst (grab c s)) \<subseteq> {i \<in> waiting s. reachable c i}"
    and grab_many: "ok s \<Longrightarrow> length (fst (grab c s)) = min (capacity c) (card {i \<in> waiting s. reachable c i})"
    and grab_removes: "ok s \<Longrightarrow> waiting (snd (grab c s)) = waiting s - set (fst (grab c s))"
begin

primrec rounds :: "'c list \<Rightarrow> 's \<Rightarrow> 'i list \<times> 's" where
  "rounds [] s = ([], s)"
| "rounds (c # cs) s = (let (xs, s1) = grab c s; (ys, s2) = rounds cs s1 in (xs @ ys, s2))"

lemma rounds_ok: "ok s \<Longrightarrow> ok (snd (rounds cs s))"
  by (induction cs arbitrary: s) (simp_all add: case_prod_beta Let_def grab_ok)

text \<open>However the rounds follow each other, no item is taken twice.\<close>

lemma rounds_once:
  assumes "ok s"
  shows "distinct (fst (rounds cs s)) \<and> set (fst (rounds cs s)) \<subseteq> waiting s \<and>
    waiting (snd (rounds cs s)) = waiting s - set (fst (rounds cs s))"
  using assms
proof (induction cs arbitrary: s)
  case (Cons c cs)
  have IH: "distinct (fst (rounds cs (snd (grab c s)))) \<and>
      set (fst (rounds cs (snd (grab c s)))) \<subseteq> waiting (snd (grab c s)) \<and>
      waiting (snd (rounds cs (snd (grab c s)))) =
        waiting (snd (grab c s)) - set (fst (rounds cs (snd (grab c s))))"
    using Cons.IH [OF grab_ok [OF Cons.prems]] .
  show ?case
    using IH grab_distinct [OF Cons.prems, of c] grab_reachable [OF Cons.prems, of c]
      grab_removes [OF Cons.prems, of c]
    by (auto simp: case_prod_beta Let_def)
qed simp

text \<open>Rounds that reach everything empty the pool once their capacities add up to its size.\<close>

lemma rounds_drain:
  assumes "ok s" and "\<forall>c \<in> set cs. \<forall>i. reachable c i" and "card (waiting s) \<le> sum_list (map capacity cs)"
  shows "waiting (snd (rounds cs s)) = {}"
  using assms
proof (induction cs arbitrary: s)
  case Nil
  then show ?case using waiting_finite by simp
next
  case (Cons c cs)
  have all: "{i \<in> waiting s. reachable c i} = waiting s" using Cons.prems(2) by auto
  have "card (waiting s - set (fst (grab c s))) = card (waiting s) - length (fst (grab c s))"
    using grab_reachable [OF Cons.prems(1), of c] grab_distinct [OF Cons.prems(1), of c]
    by (simp add: card_Diff_subset distinct_card all)
  then have "card (waiting (snd (grab c s))) \<le> sum_list (map capacity cs)"
    using Cons.prems(3) grab_many [OF Cons.prems(1), of c] grab_removes [OF Cons.prems(1), of c] all
    by simp
  with Cons show ?case by (simp add: case_prod_beta Let_def grab_ok)
qed

end

text \<open>One call of \<open>claimOutboxEvents\<close>: limit, processor, eligible transactions, locks, time.\<close>

record claim_call =
  cc_limit :: nat
  cc_processor :: string
  cc_locked :: "int \<Rightarrow> bool"
  cc_now :: int

definition claim_ids :: "claim_call \<Rightarrow> db \<Rightarrow> int list \<times> db" where
  "claim_ids c db =
     (let (rows, db') = claimOutboxEvents (cc_limit c) (cc_processor c) None (cc_locked c) (cc_now c) db
      in (map ob_id rows, db'))"

definition pending_ids :: "db \<Rightarrow> int set" where
  "pending_ids db = ob_id ` {e \<in> set (outbox_events db). ob_status e = ''PENDING''}"

lemma distinct_pending:
  "unique_event_ids db \<Longrightarrow> distinct (map ob_id (pending_events ids locked db))"
  using pending_sorted by (auto simp: strict_sorted_iff)

lemma claimed_ids_sub:
  "set (map ob_id (fst (claimOutboxEvents limit p ids locked now db))) \<subseteq>
    ob_id ` {e \<in> set (outbox_events db). ob_status e = ''PENDING'' \<and> \<not> locked (ob_id e) \<and> eligible ids e}"
  using set_take_subset [of limit "pending_events ids locked db"]
  by (auto simp: claim_rows set_pending_events)

lemma claim_pending_ids:
  assumes "unique_event_ids db"
  shows "pending_ids (snd (claimOutboxEvents limit p ids locked now db)) =
    pending_ids db - set (map ob_id (fst (claimOutboxEvents limit p ids locked now db)))"
proof -
  let ?taken = "set (map ob_id (fst (claimOutboxEvents limit p ids locked now db)))"
  have "outbox_events (snd (claimOutboxEvents limit p ids locked now db)) =
      update_where (\<lambda>e. ob_id e \<in> ?taken) (claim_event p now) (outbox_events db)"
    by (auto simp: claimOutboxEvents_def Let_def update_outbox_def intro!: update_where_none [symmetric])
  then show ?thesis
    by (auto simp: pending_ids_def set_update_where claim_event_def)
qed

lemma card_pending_reachable:
  assumes "unique_event_ids db"
  shows "card {i \<in> pending_ids db. \<not> locked i} = length (pending_events None locked db)"
proof -
  have "{i \<in> pending_ids db. \<not> locked i} = set (map ob_id (pending_events None locked db))"
    by (auto simp: pending_ids_def set_pending_events eligible_def)
  then show ?thesis using distinct_card [OF distinct_pending [OF assms]] by (metis length_map)
qed

interpretation outbox_pool: work_pool unique_event_ids pending_ids "\<lambda>c i. \<not> cc_locked c i" cc_limit claim_ids
proof unfold_locales
  fix db :: db and c :: claim_call
  show "finite (pending_ids db)" by (simp add: pending_ids_def)
  assume ok: "unique_event_ids db"
  show "unique_event_ids (snd (claim_ids c db))"
    using ok event_frame_unique [OF event_frame_ops(2)] by (simp add: claim_ids_def case_prod_beta)
  show "distinct (fst (claim_ids c db))"
    using distinct_pending [OF ok] by (simp add: claim_ids_def case_prod_beta claim_rows distinct_take flip: take_map)
  show "set (fst (claim_ids c db)) \<subseteq> {i \<in> pending_ids db. \<not> cc_locked c i}"
    using claimed_ids_sub by (force simp: claim_ids_def case_prod_beta pending_ids_def)
  show "length (fst (claim_ids c db)) = min (cc_limit c) (card {i \<in> pending_ids db. \<not> cc_locked c i})"
    by (simp add: claim_ids_def case_prod_beta claim_rows card_pending_reachable [OF ok])
  show "pending_ids (snd (claim_ids c db)) = pending_ids db - set (fst (claim_ids c db))"
    using claim_pending_ids [OF ok] by (simp add: claim_ids_def case_prod_beta)
qed

text \<open>Two claims under way at the same time take different events: the second sees the locks.\<close>

lemma concurrent_claims:
  assumes "first = fst (claimOutboxEvents n p ids locked now db)"
    and "second = fst (claimOutboxEvents m q ids' (\<lambda>i. locked' i \<or> i \<in> ob_id ` set first) now' db)"
  shows "ob_id ` set first \<inter> ob_id ` set second = {}"
proof -
  have "i \<notin> ob_id ` set first" if "i \<in> ob_id ` set second" for i
  proof -
    have "i \<in> set (map ob_id (fst (claimOutboxEvents m q ids' (\<lambda>i. locked' i \<or> i \<in> ob_id ` set first) now' db)))"
      using that by (simp only: assms(2) set_map)
    from subsetD [OF claimed_ids_sub this] show ?thesis by (elim imageE CollectE conjE) simp
  qed
  then show ?thesis by (intro equals0I) (elim IntE, simp only: simp_thms)
qed

section \<open>What becomes of the claimed events\<close>

text \<open>
  The promise of a hand-over, event by event: it is \<open>SENT\<close> exactly when the queue took the
  job and the mark was stored; otherwise it is \<open>PENDING\<close> again with the redacted error.
\<close>

definition handover_ok :: "handover \<Rightarrow> bool" where
  "handover_ok h \<longleftrightarrow> add_error h = None \<and> mark_error h = None"

definition handover_error :: "handover \<Rightarrow> string" where
  "handover_error h = (case add_error h of Some m \<Rightarrow> m
     | None \<Rightarrow> (case mark_error h of Some m \<Rightarrow> m | None \<Rightarrow> []))"

text \<open>The mark took effect, but its reply was lost and the event put back.\<close>

definition marked_twice :: "handover \<Rightarrow> bool" where
  "marked_twice h \<longleftrightarrow> add_error h = None \<and> mark_error h \<noteq> None \<and> mark_stored h"

text \<open>The call to the queue took effect.\<close>

definition added :: "handover \<Rightarrow> bool" where
  "added h \<longleftrightarrow> add_error h = None \<or> add_stored h"

definition settled :: "handover \<Rightarrow> outbox_row \<Rightarrow> outbox_row" where
  "settled h e = e\<lparr>
     ob_status := (if handover_ok h then ''SENT'' else ''PENDING''),
     ob_attempts := ob_attempts e + (if marked_twice h then 2 else 1), ob_claimed_at := None, ob_locked_by := None,
     ob_last_error := (if handover_ok h then ob_last_error e else Some (redact (handover_error h))),
     ob_updated_at := settled_at h\<rparr>"

lemma settled_ids [simp]: "ob_id (settled h e) = ob_id e" "ob_txn_id (settled h e) = ob_txn_id e"
    "ob_payload (settled h e) = ob_payload e"
  by (simp_all add: settled_def)

lemma update_outbox_twice:
  "(\<And>e. ob_id (g e) = ob_id e) \<Longrightarrow>
    update_outbox (\<lambda>e. ob_id e = i) f (update_outbox (\<lambda>e. ob_id e = i) g db) = update_outbox (\<lambda>e. ob_id e = i) (\<lambda>e. f (g e)) db"
  by (simp add: update_outbox_def update_where_def)

lemma mark_as_settled:
  "handover_ok h \<Longrightarrow> mark_sent (settled_at h) i = update_outbox (\<lambda>e. ob_id e = i) (settled h)"
  "\<not> handover_ok h \<Longrightarrow> \<not> marked_twice h \<Longrightarrow> mark_failed (settled_at h) (redact (handover_error h)) i =
    update_outbox (\<lambda>e. ob_id e = i) (settled h)"
  "marked_twice h \<Longrightarrow> mark_failed (settled_at h) (redact (handover_error h)) i (mark_sent (settled_at h) i db) =
    update_outbox (\<lambda>e. ob_id e = i) (settled h) db"
  by (auto simp: mark_sent_def mark_failed_def settled_def [abs_def] update_outbox_twice marked_twice_def handover_ok_def
      intro!: arg_cong [of _ _ "\<lambda>f. update_outbox (\<lambda>e. ob_id e = i) f db"] arg_cong [of _ _ "\<lambda>f. update_outbox (\<lambda>e. ob_id e = i) f"])

lemma send_event_settles:
  assumes "release_error h = None"
  shows "send_event enqueue h e s =
    (None, if added h then enqueue (queued_job e) (fst s) else fst s,
     update_outbox (\<lambda>r. ob_id r = ob_id e) (settled h) (snd s))"
proof (cases "handover_ok h")
  case True
  then show ?thesis
    using mark_as_settled(1) [OF True] by (simp add: send_event_def handover_ok_def added_def Let_def)
next
  case False
  show ?thesis
  proof (cases "marked_twice h")
    case True
    then show ?thesis
      using assms mark_as_settled(3) [OF True, of "ob_id e" "snd s"]
      by (auto simp: send_event_def release_event_def marked_twice_def added_def handover_error_def Let_def)
  next
    case twice: False
    then show ?thesis
      using assms False mark_as_settled(2) [OF False twice, of "ob_id e"]
      by (auto simp: send_event_def release_event_def handover_ok_def handover_error_def added_def marked_twice_def Let_def
          split: option.splits)
  qed
qed

lemma send_events_settle:
  assumes "\<forall>e \<in> set es. release_error (hs (ob_id e)) = None" and "distinct (map ob_id es)"
  shows "fst (send_events enqueue hs es s) = None"
    and "fst (snd (send_events enqueue hs es s)) =
      fold (\<lambda>e. enqueue (queued_job e)) (filter (\<lambda>e. added (hs (ob_id e))) es) (fst s)"
    and "event_by_id i (snd (snd (send_events enqueue hs es s))) =
      map_option (\<lambda>r. if i \<in> ob_id ` set es then settled (hs i) r else r) (event_by_id i (snd s))"
  using assms
proof (induction es arbitrary: s)
  case Nil
  {
    case 1 then show ?case by simp
  next
    case 2 then show ?case by simp
  next
    case 3 then show ?case by (simp add: option.map_ident)
  }
next
  case (Cons e es)
  let ?s = "\<lambda>s. (if added (hs (ob_id e)) then enqueue (queued_job e) (fst s) else fst s,
     update_outbox (\<lambda>r. ob_id r = ob_id e) (settled (hs (ob_id e))) (snd s))"
  have step: "send_events enqueue hs (e # es) s = send_events enqueue hs es (?s s)"
    if "release_error (hs (ob_id e)) = None" for s
    using that by (simp add: send_event_settles)
  {
    case 1 then show ?case using Cons.IH(1) [of "?s s"] by (simp add: step del: send_events.simps)
  next
    case 2 then show ?case using Cons.IH(2) [of "?s s"] by (simp add: step del: send_events.simps)
  next
    case 3
    then have "event_by_id i (snd (snd (send_events enqueue hs es (?s s)))) =
      map_option (\<lambda>r. if i \<in> ob_id ` set es then settled (hs i) r else r) (event_by_id i (snd (?s s)))"
      using Cons.IH(3) [of "?s s"] by simp
    moreover have "event_by_id i (snd (?s s)) =
        map_option (\<lambda>r. if ob_id r = ob_id e then settled (hs (ob_id e)) r else r) (event_by_id i (snd s))"
      by (simp add: event_update)
    ultimately show ?case
      using 3 by (cases "event_by_id i (snd s)")
        (auto simp: step simp del: send_events.simps dest: event_by_id_id)
  }
qed

lemma event_frame_send_events: "event_frame (snd s) (snd (snd (send_events enqueue hs es s)))"
proof (induction es arbitrary: s)
  case (Cons e es)
  have "event_frame db (mark_failed now msg i (mark_sent now' i db))" for now msg now' i db
    using event_frame_ops(3,4) event_frame_trans by blast
  then have one: "event_frame (snd s) (snd (snd (send_event enqueue (hs (ob_id e)) e s)))"
    by (auto simp: send_event_def release_event_def Let_def event_frame_ops split: option.split)
  obtain err s1 where s1: "send_event enqueue (hs (ob_id e)) e s = (err, s1)"
    by (cases "send_event enqueue (hs (ob_id e)) e s")
  then show ?case
    using one event_frame_trans [OF _ Cons.IH [of s1]] by (simp split: option.split)
qed simp

section \<open>Properties\<close>

definition sample_event :: "int \<Rightarrow> string \<Rightarrow> outbox_row" where
  "sample_event i status =
     \<lparr>ob_id = i, ob_txn_id = ''t'' @ replicate (nat i) CHR ''i'', ob_event_type = ''TRANSACTION_ACCEPTED'',
      ob_payload = JObj [], ob_status = status, ob_attempts = 0, ob_claim_count = 0, ob_recovery_count = 0,
      ob_claimed_at = None, ob_locked_by = None, ob_last_error = None, ob_created_at = 0, ob_updated_at = 0\<rparr>"

definition sample_outbox :: "outbox_row list \<Rightarrow> db" where
  "sample_outbox es = empty_db\<lparr>outbox_events := es, outbox_seq := int (length es) + 1\<rparr>"

lemma sample_event_simps [simp]:
  "ob_id (sample_event i st) = i" "ob_status (sample_event i st) = st" "ob_recovery_count (sample_event i st) = 0"
  by (simp_all add: sample_event_def)

text \<open>Two processors that claim at the same time never take the same event: the second one
  passes over the rows the first has locked, whatever limits, filters and other locks there are.\<close>

lemma concurrent_claims_disjoint:
  assumes "first = fst (claimOutboxEvents n p ids locked now db)"
    and "second = fst (claimOutboxEvents m q ids' (\<lambda>i. locked' i \<or> i \<in> ob_id ` set first) now' db)"
  shows "ob_id ` set first \<inter> ob_id ` set second = {}"
  using assms by (rule concurrent_claims)

text \<open>The ids claimed by a sequence of calls.\<close>

primrec claim_rounds :: "claim_call list \<Rightarrow> db \<Rightarrow> int list \<times> db" where
  "claim_rounds [] db = ([], db)"
| "claim_rounds (c # cs) db =
     (let (rows, db1) = claimOutboxEvents (cc_limit c) (cc_processor c) None (cc_locked c) (cc_now c) db;
          (ids, db2) = claim_rounds cs db1
      in (map ob_id rows @ ids, db2))"

lemma claim_rounds_pool: "claim_rounds cs db = outbox_pool.rounds cs db"
  by (induction cs arbitrary: db) (simp_all add: claim_ids_def case_prod_beta Let_def)

text \<open>C17: In any sequence of claims no event is claimed twice, only pending ones are, and exactly
  the claimed ones are no longer pending; and once the limits of calls that find no locked
  rows add up to the number of pending events, none is left pending.\<close>

theorem claims_once_and_drain:
  assumes "unique_event_ids db"
  shows "distinct (fst (claim_rounds cs db)) \<and> set (fst (claim_rounds cs db)) \<subseteq> pending_ids db \<and>
    pending_ids (snd (claim_rounds cs db)) = pending_ids db - set (fst (claim_rounds cs db)) \<and>
    ((\<forall>c \<in> set cs. \<forall>i. \<not> cc_locked c i) \<and> card (pending_ids db) \<le> sum_list (map cc_limit cs) \<longrightarrow>
      pending_ids (snd (claim_rounds cs db)) = {})"
  using outbox_pool.rounds_once [OF assms, of cs] outbox_pool.rounds_drain [OF assms, of cs]
  by (simp add: claim_rounds_pool)

theorem claims_once_and_drain_witness:
  "pending_ids (snd (claim_rounds
      [\<lparr>cc_limit = 1, cc_processor = ''p'', cc_locked = (\<lambda>_. False), cc_now = 0\<rparr>,
       \<lparr>cc_limit = 1, cc_processor = ''q'', cc_locked = (\<lambda>_. False), cc_now = 1\<rparr>]
      (sample_outbox [sample_event 1 ''PENDING'', sample_event 2 ''PENDING'']))) = {}"
proof -
  have "unique_event_ids (sample_outbox [sample_event 1 ''PENDING'', sample_event 2 ''PENDING''])"
    by (simp add: unique_event_ids_def sample_outbox_def)
  moreover have "pending_ids (sample_outbox [sample_event 1 ''PENDING'', sample_event 2 ''PENDING'']) = {1, 2}"
    by (auto simp: pending_ids_def sample_outbox_def image_iff conj_disj_distribR ex_disj_distrib)
  ultimately show ?thesis
    by (intro claims_once_and_drain [THEN conjunct2, THEN conjunct2, THEN conjunct2, THEN mp]) simp_all
qed

text \<open>A claim takes the pending events in the order of their ids: it returns them ascending,
  at most as many as its limit, and an eligible unlocked pending event it leaves behind is
  later than all it took, which are then as many as the limit.\<close>

lemma claim_in_order:
  assumes "unique_event_ids db"
  shows "sorted_wrt (<) (map ob_id (fst (claimOutboxEvents limit p ids locked now db))) \<and>
    length (fst (claimOutboxEvents limit p ids locked now db)) \<le> limit \<and>
    (\<forall>e \<in> set (pending_events ids locked db).
       e \<notin> set (fst (claimOutboxEvents limit p ids locked now db)) \<longrightarrow>
       length (fst (claimOutboxEvents limit p ids locked now db)) = limit \<and>
       (\<forall>c \<in> set (fst (claimOutboxEvents limit p ids locked now db)). ob_id c < ob_id e))"
proof (intro conjI ballI impI)
  show "sorted_wrt (<) (map ob_id (fst (claimOutboxEvents limit p ids locked now db)))"
    using sorted_wrt_take [OF pending_sorted [OF assms]] by (simp add: claim_rows take_map)
  show "length (fst (claimOutboxEvents limit p ids locked now db)) \<le> limit" by (simp add: claim_rows)
qed (use claim_lowest [OF assms] in blast)+

text \<open>C18: Handing over. When the statements of the \<open>catch\<close> block do not fail, the loop does not
  throw; the queue gets exactly the jobs of the events whose call to the queue took effect, in
  order, whether or not its reply arrived; an event is \<open>SENT\<close> exactly if the queue and the mark
  both answered and otherwise \<open>PENDING\<close> with the redacted error (also when its job is in the
  queue); no other event changes.\<close>

theorem handover_result:
  assumes "\<forall>e \<in> set es. release_error (hs (ob_id e)) = None" and "distinct (map ob_id es)"
  shows "fst (send_events enqueue hs es s) = None \<and>
    fst (snd (send_events enqueue hs es s)) =
      fold (\<lambda>e. enqueue (queued_job e)) (filter (\<lambda>e. added (hs (ob_id e))) es) (fst s) \<and>
    (\<forall>i. event_by_id i (snd (snd (send_events enqueue hs es s))) =
      map_option (\<lambda>r. if i \<in> ob_id ` set es then settled (hs i) r else r) (event_by_id i (snd s)))"
  using send_events_settle [OF assms] by blast

theorem handover_result_witness:
  "\<exists>err q db. send_events (\<lambda>j q. q @ [job_id j])
      (\<lambda>i. if i = 1 then smooth 5 else (smooth 6)\<lparr>add_error := Some ''reply lost''\<rparr>)
      [sample_event 1 ''PROCESSING'', sample_event 2 ''PROCESSING'']
      ([], sample_outbox [sample_event 1 ''PROCESSING'', sample_event 2 ''PROCESSING'']) = (err, q, db) \<and>
    q = [''ti'', ''tii''] \<and> map ob_status (outbox_events db) = [''SENT'', ''PENDING'']"
proof -
  let ?hs = "\<lambda>i::int. if i = 1 then smooth 5 else (smooth 6)\<lparr>add_error := Some ''reply lost''\<rparr>"
  let ?es = "[sample_event 1 ''PROCESSING'', sample_event 2 ''PROCESSING'']"
  let ?out = "snd (snd (send_events (\<lambda>j q. q @ [job_id j]) ?hs ?es ([], sample_outbox ?es)))"
  have "\<forall>e \<in> set ?es. release_error (?hs (ob_id e)) = None" "distinct (map ob_id ?es)"
    by (simp_all add: smooth_def)
  from handover_result [OF this, of "\<lambda>j q. q @ [job_id j]" "([], sample_outbox ?es)"]
  have queue: "fst (snd (send_events (\<lambda>j q. q @ [job_id j]) ?hs ?es ([], sample_outbox ?es))) = [''ti'', ''tii'']"
    and get: "event_by_id i ?out = map_option (\<lambda>r. if i \<in> ob_id ` set ?es then settled (?hs i) r else r)
      (event_by_id i (sample_outbox ?es))" for i
    by (simp_all add: added_def smooth_def queued_job_def) (simp add: sample_event_def numeral_2_eq_2)
  have "map ob_id (outbox_events ?out) = map ob_id (outbox_events (sample_outbox ?es))"
    using event_frame_ids [OF event_frame_send_events [of "([], sample_outbox ?es)" "\<lambda>j q. q @ [job_id j]" ?hs ?es]]
    by (simp only: snd_conv)
  also have "\<dots> = [1, 2]" by (simp add: sample_outbox_def)
  finally obtain a b where ab: "outbox_events ?out = [a, b]" "ob_id a = 1" "ob_id b = 2"
    by (auto simp: map_eq_Cons_conv)
  then have "event_by_id 1 ?out = Some a" "event_by_id 2 ?out = Some b" by (simp_all add: event_by_id_def)
  with get [of 1] get [of 2] have "ob_status a = ''SENT''" "ob_status b = ''PENDING''"
    by (auto simp: event_by_id_def sample_outbox_def settled_def handover_ok_def smooth_def)
  with ab have "map ob_status (outbox_events ?out) = [''SENT'', ''PENDING'']" by simp
  with queue show ?thesis by (intro exI conjI) (simp_all add: prod_eq_iff)
qed

text \<open>C20: The marks are not guarded by the status or the lock of the event. A processor that was
  slow enough for its event to be given up, or for another processor to have sent it, puts the
  event back to \<open>PENDING\<close> when its own call to the queue fails, whatever the status.\<close>

theorem late_failure_reopens:
  assumes "event_by_id i db = Some e" and "add_error h = Some m" and "release_error h = None" and "ob_id e' = i"
  shows "\<exists>r. event_by_id i (snd (snd (send_event enqueue h e' (q, db)))) = Some r \<and> ob_status r = ''PENDING'' \<and>
    ob_recovery_count r = ob_recovery_count e"
proof -
  have "event_by_id i (snd (snd (send_event enqueue h e' (q, db)))) = Some (settled h e)"
    using assms event_by_id_id [OF assms(1)] by (simp add: send_event_settles event_update)
  moreover have "ob_status (settled h e) = ''PENDING''" "ob_recovery_count (settled h e) = ob_recovery_count e"
    using assms(2) by (simp_all add: settled_def handover_ok_def)
  ultimately show ?thesis by simp
qed

theorem late_failure_reopens_witness:
  "\<exists>r. event_by_id 1 (snd (snd (send_event (\<lambda>j q. q @ [j]) ((smooth 9)\<lparr>add_error := Some ''redis down''\<rparr>)
      (sample_event 1 ''PENDING'') ([], sample_outbox [sample_event 1 ''SENT''])))) = Some r \<and>
    ob_status r = ''PENDING''"
proof -
  let ?h = "(smooth 9)\<lparr>add_error := Some ''redis down''\<rparr>"
  have row: "event_by_id 1 (sample_outbox [sample_event 1 ''SENT'']) = Some (sample_event 1 ''SENT'')"
    by (simp add: event_by_id_def sample_outbox_def)
  have add: "add_error ?h = Some ''redis down''" and release: "release_error ?h = None"
    and same: "ob_id (sample_event 1 ''PENDING'') = 1"
    by (simp_all add: smooth_def)
  from late_failure_reopens [where enqueue = "\<lambda>j q. q @ [j]" and q = "[]", OF row add release same] show ?thesis
    by (elim exE conjE) (intro exI conjI)
qed

end
