(* ===== verification/Scheduler.thy ===== *)
theory Scheduler
  imports Outbox Worker
begin

text \<open>
  The timers of the program: \<open>recovery/transactionRecovery.js\<close>, \<open>startOutboxProcessor\<close> of
  \<open>outbox/outboxProcessor.js\<close> and the heartbeat of \<open>jobs/transactionJobHandler.js\<close>. Each
  guards its asynchronous work by a flag, so that a tick that comes while the work of an
  earlier one is still under way does nothing.
\<close>

section \<open>The scheduler of recovery and of the outbox\<close>

record scheduler =
  running :: bool

definition scheduler_tick :: "scheduler \<Rightarrow> bool \<times> scheduler" where
  "scheduler_tick s = (if running s then (False, s) else (True, s\<lparr>running := True\<rparr>))"

text \<open>The \<open>finally\<close> block, reached whether the work succeeded or threw.\<close>

definition scheduler_finally :: "scheduler \<Rightarrow> scheduler" where
  "scheduler_finally s = s\<lparr>running := False\<rparr>"

text \<open>
  The work of a recovery tick: a database that fails the statement is logged, and the
  tables are what they were.
\<close>

definition runTransactionRecoveryOnce :: "int \<Rightarrow> int \<Rightarrow> db \<Rightarrow> (string \<times> string option) list \<times> db" where
  "runTransactionRecoveryOnce staleTimeoutMs now db = recoverStaleProcessingTransactions staleTimeoutMs now db"

definition recovery_tick :: "int \<Rightarrow> string option \<Rightarrow> int \<Rightarrow> scheduler \<times> db \<Rightarrow> scheduler \<times> db" where
  "recovery_tick staleTimeoutMs fault now s =
     (let (started, t) = scheduler_tick (fst s) in
      if \<not> started then s
      else case fault of
        Some _ \<Rightarrow> (scheduler_finally t, snd s)
      | None \<Rightarrow> (scheduler_finally t, snd (runTransactionRecoveryOnce staleTimeoutMs now (snd s))))"

definition outbox_tick ::
  "(job \<Rightarrow> 'q \<Rightarrow> 'q) \<Rightarrow> (int \<Rightarrow> handover) \<Rightarrow> int \<Rightarrow> int \<Rightarrow> string \<Rightarrow> (int \<Rightarrow> bool) \<Rightarrow> int \<times> int \<Rightarrow>
    scheduler \<times> 'q \<times> db \<Rightarrow> scheduler \<times> 'q \<times> db" where
  "outbox_tick enqueue hs staleMs maxRec processor locked clock s =
     (let (started, t) = scheduler_tick (fst s) in
      if \<not> started then s
      else (scheduler_finally t,
        snd (processOutboxEvents enqueue hs staleMs maxRec processor locked clock (snd s))))"

section \<open>One at a time\<close>

text \<open>The contract of a guarded timer, and what it gives for any course of events.\<close>

datatype timer_event = Tick | Done

locale single_flight =
  fixes busy :: "'s \<Rightarrow> bool"
    and start :: "'s \<Rightarrow> bool \<times> 's"
    and finish :: "'s \<Rightarrow> 's"
  assumes start_busy: "busy s \<Longrightarrow> \<not> fst (start s)"
    and start_marks: "fst (start s) \<Longrightarrow> busy (snd (start s))"
    and start_idle: "\<not> fst (start s) \<Longrightarrow> snd (start s) = s"
    and finish_idle: "\<not> busy (finish s)"
begin

text \<open>The number of runs under way after each event; work ends only if there is some.\<close>

fun play :: "timer_event list \<Rightarrow> nat \<times> 's \<Rightarrow> nat list" where
  "play [] ns = []"
| "play (Tick # es) (n, s) =
     (let m = (if fst (start s) then n + 1 else n) in m # play es (m, snd (start s)))"
| "play (Done # es) (n, s) =
     (if n = 0 then n # play es (n, s) else (n - 1) # play es (n - 1, finish s))"

lemma play_at_most_one:
  assumes "n \<le> 1" and "n = 1 \<longleftrightarrow> busy s"
  shows "\<forall>m \<in> set (play es (n, s)). m \<le> 1"
  using assms
proof (induction es arbitrary: n s)
  case (Cons e es)
  show ?case
  proof (cases e)
    case Tick
    show ?thesis
    proof (cases "fst (start s)")
      case True
      with Cons.prems start_busy have "n = 0" by force
      with True Tick Cons.IH [of 1 "snd (start s)"] start_marks show ?thesis by simp
    next
      case False
      with Tick Cons start_idle [OF False] show ?thesis by simp
    qed
  next
    case Done
    show ?thesis
    proof (cases "n = 0")
      case True
      with Done Cons.prems Cons.IH [of 0 s] show ?thesis by simp
    next
      case False
      with Cons.prems have "n = 1" by simp
      with Done Cons.IH [of 0 "finish s"] finish_idle show ?thesis by simp
    qed
  qed
qed simp

end

definition beat_tick :: "heartbeat \<Rightarrow> bool \<times> heartbeat" where
  "beat_tick h = (case beat_start h of Some h' \<Rightarrow> (True, h') | None \<Rightarrow> (False, h))"

definition beat_finally :: "heartbeat \<Rightarrow> heartbeat" where
  "beat_finally h = h\<lparr>heartbeatRunning := False\<rparr>"

interpretation ticks: single_flight running scheduler_tick scheduler_finally
  by unfold_locales (auto simp: scheduler_tick_def scheduler_finally_def split: if_splits)

interpretation beats: single_flight heartbeatRunning beat_tick beat_finally
  by unfold_locales (auto simp: beat_tick_def beat_start_def beat_finally_def split: if_splits)

text \<open>A renewal ends the beat whatever the database answered.\<close>

lemma beat_renew_ends: "\<not> heartbeatRunning (fst (beat_renew leaseMs w now tid fault s))"
  by (auto simp: beat_renew_def Let_def case_prod_beta split: option.split)

section \<open>Properties\<close>

text \<open>Of the recovery scheduler, of the outbox processor and of a run's heartbeat at most one
  execution is under way at any time, whatever the order of ticks and completions.\<close>

lemma timers_single_flight:
  "list_all (\<lambda>m. m \<le> 1) (ticks.play es (0, \<lparr>running = False\<rparr>)) \<and>
   list_all (\<lambda>m. m \<le> 1) (beats.play es (0, \<lparr>timer_on = True, heartbeatRunning = False\<rparr>))"
  using ticks.play_at_most_one [of 0 "\<lparr>running = False\<rparr>"]
    beats.play_at_most_one [of 0 "\<lparr>timer_on = True, heartbeatRunning = False\<rparr>"]
  by (simp add: list_all_iff)

end
