(* ===== verification/System.thy ===== *)
theory System
  imports Api Scheduler
begin

text \<open>
  The processes together: API, outbox processors, workers, the listener of failed jobs and
  the recovery timer, all on one database, one database statement (or one await) at a
  time and in any order. What the queue does is left open: it may hand any job to any
  worker at any time, again and again. A statement may fail before it runs (\<open>Fault\<close>, \<open>ReportFault\<close>),
  or run and lose its answer (\<open>TakeUnknown\<close>, \<open>BeatUnknown\<close>, \<open>SettleUnknown\<close>, \<open>BuryUnknown\<close>): the handler
  sees the same error. The listener of a failed job takes its statements one at a time too: \<open>Bury\<close>
  inserts the dead letter of the last attempt, and \<open>Report\<close> is the update that puts the transaction
  back (from \<open>Thrown\<close>) or gives it up (from \<open>Lettered\<close>); nothing of the listener follows that update,
  so it makes no difference whether its answer arrives.
\<close>

section \<open>States and steps\<close>

record world =
  w_hmac :: "string \<Rightarrow> string \<Rightarrow> string"
  w_sha256 :: "string \<Rightarrow> string"
  w_env :: env
  w_pg :: pg
  w_text :: "js_error \<Rightarrow> string"
  w_lease :: int
  w_stale :: int
  w_event_stale :: int
  w_max_recoveries :: int

datatype phase =
    Reading
  | Planned jsval string "jsval list"
  | Working jsval string "jsval list"
  | Ended run_result
  | Thrown js_error
  | Lettered js_error
  | Reported

record run =
  run_worker :: string
  run_job :: job
  run_txn :: "string option"
  run_phase :: phase
  run_beat :: heartbeat

record sys =
  store :: db
  runs :: "nat \<Rightarrow> run option"

datatype label =
    Request string int int headers jsval
  | Deliver nat string job
  | Read nat int
  | Take nat int
  | Beat nat "string option" int
  | Settle nat "int \<times> int" int
  | Fault nat string
  | TakeUnknown nat int string
  | BeatUnknown nat int string
  | SettleUnknown nat "int \<times> int" int string
  | Report nat "string option" int
  | Bury nat int
  | BuryUnknown nat int
  | ReportFault nat
  | Recover int
  | RecoverEvents int
  | ClaimEvents nat string "int \<Rightarrow> bool" int
  | SettleEvent int handover

definition with_run :: "nat \<Rightarrow> run \<Rightarrow> sys \<Rightarrow> sys" where
  "with_run i r s = s\<lparr>runs := (runs s)(i \<mapsto> r)\<rparr>"

definition request_db :: "world \<Rightarrow> string \<Rightarrow> int \<Rightarrow> int \<Rightarrow> headers \<Rightarrow> jsval \<Rightarrow> db \<Rightarrow> db" where
  "request_db W txnId ms now hdr body db =
     snd (post_pay (w_hmac W) (w_sha256 W) (w_env W) (w_pg W) txnId ms now hdr body db)"

inductive step :: "world \<Rightarrow> label \<Rightarrow> sys \<Rightarrow> sys \<Rightarrow> bool" for W :: world where
  request: "step W (Request txnId ms now hdr body) s (s\<lparr>store := request_db W txnId ms now hdr body (store s)\<rparr>)"
| deliver: "runs s i = None \<Longrightarrow>
    step W (Deliver i w job) s (with_run i
      \<lparr>run_worker = w, run_job = job, run_txn = None, run_phase = Reading,
       run_beat = \<lparr>timer_on = False, heartbeatRunning = False\<rparr>\<rparr> s)"
| read_skip: "runs s i = Some r \<Longrightarrow> run_phase r = Reading \<Longrightarrow>
    read_step (w_hmac W) (w_env W) (w_pg W) ms (run_job r) (store s) = Inr (Skip reason) \<Longrightarrow>
    step W (Read i ms) s (with_run i (r\<lparr>run_phase := Ended (Skipped reason)\<rparr>) s)"
| read_plan: "runs s i = Some r \<Longrightarrow> run_phase r = Reading \<Longrightarrow>
    read_step (w_hmac W) (w_env W) (w_pg W) ms (run_job r) (store s) = Inr (Claim txn tid timeline) \<Longrightarrow>
    step W (Read i ms) s (with_run i (r\<lparr>run_txn := Some tid, run_phase := Planned txn tid timeline\<rparr>) s)"
| read_throw: "runs s i = Some r \<Longrightarrow> run_phase r = Reading \<Longrightarrow>
    read_step (w_hmac W) (w_env W) (w_pg W) ms (run_job r) (store s) = Inl e \<Longrightarrow>
    step W (Read i ms) s (with_run i (r\<lparr>run_phase := Thrown e\<rparr>) s)"
| take_won: "runs s i = Some r \<Longrightarrow> run_phase r = Planned txn tid timeline \<Longrightarrow>
    claim_step (w_lease W) (run_worker r) now tid timeline (store s) = (True, db) \<Longrightarrow>
    step W (Take i now) s (with_run i (r\<lparr>run_phase := Working txn tid timeline,
      run_beat := \<lparr>timer_on = True, heartbeatRunning = False\<rparr>\<rparr>) (s\<lparr>store := db\<rparr>))"
| take_lost: "runs s i = Some r \<Longrightarrow> run_phase r = Planned txn tid timeline \<Longrightarrow>
    claim_step (w_lease W) (run_worker r) now tid timeline (store s) = (False, db) \<Longrightarrow>
    step W (Take i now) s
      (with_run i (r\<lparr>run_phase := Ended (Skipped ''Transaction claim lost'')\<rparr>) (s\<lparr>store := db\<rparr>))"
| beat: "runs s i = Some r \<Longrightarrow> run_phase r = Working txn tid timeline \<Longrightarrow>
    beat_start (run_beat r) = Some h \<Longrightarrow>
    beat_renew (w_lease W) (run_worker r) now tid fault (h, store s) = (h', db) \<Longrightarrow>
    step W (Beat i fault now) s (with_run i (r\<lparr>run_beat := h'\<rparr>) (s\<lparr>store := db\<rparr>))"
| settle: "runs s i = Some r \<Longrightarrow> run_phase r = Working txn tid timeline \<Longrightarrow>
    settle_step (config_of (w_env W)) (run_worker r) ms now txn tid timeline (store s) = (Inr res, db) \<Longrightarrow>
    step W (Settle i ms now) s (with_run i (r\<lparr>run_phase := Ended res\<rparr>) (s\<lparr>store := db\<rparr>))"
| settle_throw: "runs s i = Some r \<Longrightarrow> run_phase r = Working txn tid timeline \<Longrightarrow>
    settle_step (config_of (w_env W)) (run_worker r) ms now txn tid timeline (store s) = (Inl e, db) \<Longrightarrow>
    step W (Settle i ms now) s (with_run i (r\<lparr>run_phase := Thrown e\<rparr>) (s\<lparr>store := db\<rparr>))"
| fault: "runs s i = Some r \<Longrightarrow> run_phase r = Reading \<or> run_phase r = Planned txn tid timeline \<or>
      run_phase r = Working txn tid timeline \<Longrightarrow>
    step W (Fault i m) s (with_run i (r\<lparr>run_phase := Thrown (DbError m)\<rparr>) s)"
| take_unknown: "runs s i = Some r \<Longrightarrow> run_phase r = Planned txn tid timeline \<Longrightarrow>
    claim_step (w_lease W) (run_worker r) now tid timeline (store s) = (won, db) \<Longrightarrow>
    step W (TakeUnknown i now m) s (with_run i (r\<lparr>run_phase := Thrown (DbError m)\<rparr>) (s\<lparr>store := db\<rparr>))"
| beat_unknown: "runs s i = Some r \<Longrightarrow> run_phase r = Working txn tid timeline \<Longrightarrow>
    beat_start (run_beat r) = Some h \<Longrightarrow>
    beat_renew (w_lease W) (run_worker r) now tid None (h, store s) = (h', db) \<Longrightarrow>
    step W (BeatUnknown i now m) s
      (with_run i (r\<lparr>run_beat := fst (beat_renew (w_lease W) (run_worker r) now tid (Some m) (h, db))\<rparr>)
        (s\<lparr>store := db\<rparr>))"
| settle_unknown: "runs s i = Some r \<Longrightarrow> run_phase r = Working txn tid timeline \<Longrightarrow>
    settle_step (config_of (w_env W)) (run_worker r) ms now txn tid timeline (store s) = (Inr res, db) \<Longrightarrow>
    step W (SettleUnknown i ms now m) s (with_run i (r\<lparr>run_phase := Thrown (DbError m)\<rparr>) (s\<lparr>store := db\<rparr>))"
| report_retry: "runs s i = Some r \<Longrightarrow> run_phase r = Thrown e \<Longrightarrow> job_remaining (run_job r) \<Longrightarrow>
    step W (Report i (job_txn_id (w_pg W) (run_job r)) now) s (with_run i (r\<lparr>run_phase := Reported\<rparr>)
      (s\<lparr>store := reset_transaction (w_pg W) (run_job r) ''ACCEPTED'' (error_message (w_text W) e) now (store s)\<rparr>))"
| report_final: "runs s i = Some r \<Longrightarrow> run_phase r = Lettered e \<Longrightarrow>
    step W (Report i (job_txn_id (w_pg W) (run_job r)) now) s (with_run i (r\<lparr>run_phase := Reported\<rparr>)
      (s\<lparr>store := reset_transaction (w_pg W) (run_job r) ''FAILED'' (error_message (w_text W) e) now (store s)\<rparr>))"
| bury: "runs s i = Some r \<Longrightarrow> run_phase r = Thrown e \<Longrightarrow> \<not> job_remaining (run_job r) \<Longrightarrow>
    saveDeadLetterJob (w_hmac W) (w_env W) (w_pg W) now (run_job r) (error_message (w_text W) e) (store s) = (res, db) \<Longrightarrow>
    step W (Bury i now) s
      (with_run i (r\<lparr>run_phase := (case res of Inr _ \<Rightarrow> Lettered e | Inl _ \<Rightarrow> Reported)\<rparr>) (s\<lparr>store := db\<rparr>))"
| bury_unknown: "runs s i = Some r \<Longrightarrow> run_phase r = Thrown e \<Longrightarrow> \<not> job_remaining (run_job r) \<Longrightarrow>
    saveDeadLetterJob (w_hmac W) (w_env W) (w_pg W) now (run_job r) (error_message (w_text W) e) (store s) = (res, db) \<Longrightarrow>
    step W (BuryUnknown i now) s (with_run i (r\<lparr>run_phase := Reported\<rparr>) (s\<lparr>store := db\<rparr>))"
| report_fault: "runs s i = Some r \<Longrightarrow> run_phase r = Thrown e \<or> run_phase r = Lettered e \<Longrightarrow>
    step W (ReportFault i) s (with_run i (r\<lparr>run_phase := Reported\<rparr>) s)"
| recover: "step W (Recover now) s
    (s\<lparr>store := snd (runTransactionRecoveryOnce (w_stale W) now (store s))\<rparr>)"
| recover_events: "step W (RecoverEvents now) s
    (s\<lparr>store := snd (recoverStaleOutboxEvents (w_event_stale W) (w_max_recoveries W) None now (store s))\<rparr>)"
| claim_events: "step W (ClaimEvents n p locked now) s
    (s\<lparr>store := snd (claimOutboxEvents n p None locked now (store s))\<rparr>)"
| settle_event: "step W (SettleEvent e h) s (s\<lparr>store := update_outbox (\<lambda>r. ob_id r = e) (settled h) (store s)\<rparr>)"

inductive steps :: "world \<Rightarrow> label list \<Rightarrow> sys \<Rightarrow> sys \<Rightarrow> bool" for W :: world where
  no_step: "steps W [] s s"
| more_steps: "step W l s s1 \<Longrightarrow> steps W ls s1 s2 \<Longrightarrow> steps W (l # ls) s s2"

inductive_cases steps_NilE: "steps W [] s s'"
inductive_cases steps_ConsE: "steps W (l # ls) s s'"

lemmas step_rules = request deliver read_skip read_plan read_throw take_won take_lost beat settle
  settle_throw fault take_unknown beat_unknown settle_unknown report_retry report_final bury bury_unknown report_fault
  recover recover_events claim_events settle_event

definition initial :: sys where
  "initial = \<lparr>store = empty_db, runs = (\<lambda>_. None)\<rparr>"

lemma with_run_simps [simp]:
  "store (with_run i r s) = store s" "runs (with_run i r s) = (runs s)(i \<mapsto> r)"
  by (simp_all add: with_run_def)

text \<open>What holds before and survives every step holds after any number of them.\<close>

lemma steps_invariant:
  assumes "steps W ls s s'" and "P s" and "\<And>l s s'. l \<in> set ls \<Longrightarrow> step W l s s' \<Longrightarrow> P s \<Longrightarrow> P s'"
  shows "P s'"
  using assms by (induction rule: steps.induct) auto

section \<open>What a step does to the tables\<close>

text \<open>The transaction a run works on.\<close>

fun phase_txn :: "phase \<Rightarrow> string option" where
  "phase_txn (Planned txn tid timeline) = Some tid"
| "phase_txn (Working txn tid timeline) = Some tid"
| "phase_txn _ = None"

lemma buried_phase [simp]:
  "phase_txn (case res of Inl x \<Rightarrow> Reported | Inr y \<Rightarrow> Lettered e) = None"
  "(case res of Inl x \<Rightarrow> Reported | Inr y \<Rightarrow> Lettered e) \<noteq> Ended out"
  by (cases res; simp)+

lemma settle_stepE:
  assumes "settle_step cfg w ms now txn tid timeline db = (Inr res, db')"
  obtains u st where "settlement timeline (fst ms) (snd ms) (decide cfg txn) = Inr (u, st)"
    and "db' = snd (update_one tid (owns w) (\<lambda>r. clear_processing (apply_updates u now r)) db)"
    and "res = (if fst (update_one tid (owns w) (\<lambda>r. clear_processing (apply_updates u now r)) db) = None
      then Skipped ''Transaction finalization lost'' else Finished st)"
proof (cases "settlement timeline (fst ms) (snd ms) (decide cfg txn)")
  case (Inl e)
  with assms show thesis by (simp add: settle_step_def)
next
  case (Inr x)
  obtain u st where "x = (u, st)" by (cases x)
  with Inr assms show thesis
    by (intro that [of u st]) (auto simp: settle_step_def as_update_one case_prod_beta)
qed

text \<open>
  Whatever the process and whether its answer arrives, the tables change in one of few ways;
  the invariants are proved over these.
\<close>

inductive effect :: "world \<Rightarrow> label \<Rightarrow> sys \<Rightarrow> db \<Rightarrow> bool" for W :: world where
  nothing: "effect W l s (store s)"
| pays: "effect W (Request txnId ms now hdr body) s (request_db W txnId ms now hdr body (store s))"
| claims: "runs s i = Some r \<Longrightarrow> run_phase r = Planned txn t plan \<Longrightarrow>
    effect W l s (snd (startTransactionProcessing t w (Some (JArr timeline)) (w_lease W) now (store s)))"
| renews: "runs s i = Some r \<Longrightarrow> phase_txn (run_phase r) = Some t \<Longrightarrow>
    effect W l s (snd (renewTransactionProcessingLease t w (w_lease W) now (store s)))"
| finishes: "runs s i = Some r \<Longrightarrow> phase_txn (run_phase r) = Some t \<Longrightarrow> finishing u \<Longrightarrow>
    u_timeline u = Some (JArr timeline) \<Longrightarrow>
    effect W l s (snd (finalizeTransactionProcessing t w u now (store s)))"
| resets: "runs s i = Some r \<Longrightarrow> st \<in> {''ACCEPTED'', ''FAILED''} \<Longrightarrow>
    effect W (Report i (job_txn_id (w_pg W) (run_job r)) now) s (reset_transaction (w_pg W) (run_job r) st message now (store s))"
| buries: "effect W l s (snd (saveDeadLetterJob (w_hmac W) (w_env W) (w_pg W) now job message (store s)))"
| recovers: "effect W (Recover now) s (snd (recoverStaleProcessingTransactions (w_stale W) now (store s)))"
| recovers_events: "effect W (RecoverEvents now) s
    (snd (recoverStaleOutboxEvents (w_event_stale W) (w_max_recoveries W) None now (store s)))"
| claims_events: "effect W (ClaimEvents n p locked now) s (snd (claimOutboxEvents n p None locked now (store s)))"
| settles_event: "effect W (SettleEvent e h) s (update_outbox (\<lambda>r. ob_id r = e) (settled h) (store s))"

lemma claim_step_db:
  "claim_step leaseMs w now tid timeline db = (won, db') \<Longrightarrow>
    db' = snd (startTransactionProcessing tid w (Some (JArr timeline)) leaseMs now db)"
  by (auto simp: claim_step_def split: prod.splits)

lemma beat_renew_db:
  "beat_renew leaseMs w now tid fault (h, db) = (h', db') \<Longrightarrow>
    db' = db \<or> db' = snd (renewTransactionProcessingLease tid w leaseMs now db)"
  by (auto simp: beat_renew_def Let_def case_prod_beta split: option.splits)

lemma settle_step_db:
  assumes "settle_step cfg w ms now txn tid timeline db = (res, db')"
  shows "db' = db \<or> (\<exists>u tl. finishing u \<and> u_timeline u = Some (JArr tl) \<and>
    db' = snd (finalizeTransactionProcessing tid w u now db))"
proof (cases "settlement timeline (fst ms) (snd ms) (decide cfg txn)")
  case (Inl e)
  with assms show ?thesis by (simp add: settle_step_def)
next
  case (Inr x)
  obtain u st where x: "x = (u, st)" by (cases x)
  with Inr assms have "db' = snd (finalizeTransactionProcessing tid w u now db)"
    by (auto simp: settle_step_def case_prod_beta)
  then show ?thesis using settlement_finishing settlement_timeline Inr x by blast
qed

lemma step_effect:
  assumes "step W l s s'"
  shows "effect W l s (store s')"
  using assms
proof cases
  case (take_won i r txn tid timeline now db)
  then show ?thesis using claims [OF take_won(3)] by (auto dest: claim_step_db)
next
  case (take_lost i r txn tid timeline now db)
  then show ?thesis using claims [OF take_lost(3)] by (auto dest: claim_step_db)
next
  case (take_unknown i r txn tid timeline now won db m)
  then show ?thesis using claims [OF take_unknown(3)] by (auto dest: claim_step_db)
next
  case (beat i r txn tid timeline h now fault h' db)
  then show ?thesis using renews [OF beat(3)] by (auto dest!: beat_renew_db intro: effect.nothing)
next
  case (beat_unknown i r txn tid timeline h now h' db m)
  then show ?thesis using renews [OF beat_unknown(3)] by (auto dest!: beat_renew_db intro: effect.nothing)
next
  case (settle i r txn tid timeline ms now res db)
  then show ?thesis using finishes [OF settle(3)] by (auto dest!: settle_step_db intro: effect.nothing)
next
  case (settle_throw i r txn tid timeline ms now e db)
  then show ?thesis using finishes [OF settle_throw(3)] by (auto dest!: settle_step_db intro: effect.nothing)
next
  case (settle_unknown i r txn tid timeline ms now res db m)
  then show ?thesis using finishes [OF settle_unknown(3)] by (auto dest!: settle_step_db intro: effect.nothing)
next
  case (bury i r e now res db)
  then show ?thesis using buries [of W l s now "run_job r"] by (metis snd_conv sys.select_convs(1) sys.surjective sys.update_convs(1) with_run_simps(1))
next
  case (bury_unknown i r e now res db)
  then show ?thesis using buries [of W l s now "run_job r"] by (metis snd_conv sys.select_convs(1) sys.surjective sys.update_convs(1) with_run_simps(1))
qed (auto intro: effect.intros simp: runTransactionRecoveryOnce_def)

section \<open>The store keeps its invariants\<close>

definition sys_inv :: "sys \<Rightarrow> bool" where
  "sys_inv s \<longleftrightarrow> store_inv (store s) \<and> lease_inv (store s)"

lemma store_inv_unique: "store_inv db \<Longrightarrow> unique_txn_ids db"
  by (simp add: store_inv_def unique_txn_ids_def)

lemma lifecycle_store_inv:
  assumes "lifecycle_frame db db'" and "store_inv db"
  shows "store_inv db'"
proof -
  have ids: "map txn_id (transactions db') = map txn_id (transactions db)"
    using frame_txn_ids [OF assms(1)] .
  have keys: "map idempotency_key (transactions db') = map idempotency_key (transactions db)"
    using arg_cong [OF conjunct1 [OF assms(1) [unfolded lifecycle_frame_def]],
        of "map (\<lambda>t. fst (snd (snd (snd (snd t)))))"]
    by (simp add: identity_columns_def comp_def)
  have "txn_ids db' = txn_ids db"
    using arg_cong [OF ids, of set] by (simp add: txn_ids_def)
  with ids keys frame_others [OF assms(1)] assms(2) show ?thesis by (simp add: store_inv_def)
qed

lemma event_frame_others:
  assumes "event_frame db db'"
  shows "transactions db' = transactions db" "outbox_seq db' = outbox_seq db"
    "dead_letter_jobs db' = dead_letter_jobs db"
  using assms unfolding event_frame_def by (metis db.select_convs db.update_convs(3) db.surjective)+

lemma event_frame_settled: "event_frame db (update_outbox (\<lambda>r. ob_id r = e) (settled h) db)"
  by (intro event_frame_update) simp

lemma event_store_inv:
  assumes "event_frame db db'" and "store_inv db"
  shows "store_inv db'"
proof -
  have ids: "map ob_id (outbox_events db') = map ob_id (outbox_events db)"
    using event_frame_ids [OF assms(1)] .
  have txns: "map ob_txn_id (outbox_events db') = map ob_txn_id (outbox_events db)"
    using arg_cong [OF conjunct1 [OF assms(1) [unfolded event_frame_def]], of "map (\<lambda>t. fst (snd t))"]
    by (simp add: comp_def)
  have id_set: "ob_id ` set (outbox_events db') = ob_id ` set (outbox_events db)"
    using arg_cong [OF ids, of set] by simp
  have "\<forall>e \<in> set (outbox_events db'). ob_id e < outbox_seq db"
  proof
    fix e assume "e \<in> set (outbox_events db')"
    with id_set obtain d where "d \<in> set (outbox_events db)" "ob_id e = ob_id d" by (metis imageE imageI)
    with assms(2) show "ob_id e < outbox_seq db" by (simp add: store_inv_def)
  qed
  moreover have "ob_txn_id ` set (outbox_events db') = ob_txn_id ` set (outbox_events db)"
    using arg_cong [OF txns, of set] by simp
  ultimately show ?thesis
    using ids txns event_frame_others [OF assms(1)] assms(2) by (simp add: store_inv_def txn_ids_def)
qed

lemma dead_letter_store_inv:
  "store_inv (snd (saveDeadLetterJob hmac env pg now job message db)) = store_inv db"
  "lease_inv (snd (saveDeadLetterJob hmac env pg now job message db)) = lease_inv db"
  by (auto simp: saveDeadLetterJob_def Let_def store_inv_def lease_inv_def txn_ids_def split: sum.split)

lemma lease_inv_append:
  "lease_inv db \<Longrightarrow> lease_columns row \<Longrightarrow> transactions db' = transactions db @ [row] \<Longrightarrow> lease_inv db'"
  by (auto simp: lease_inv_def)

lemma reset_inv:
  assumes "store_inv db" and "lease_inv db" and "st \<in> {''ACCEPTED'', ''FAILED''}"
  shows "store_inv (reset_transaction pg job st message now db)"
    and "lease_inv (reset_transaction pg job st message now db)"
  using assms lifecycle_store_inv [OF frame_reset_transaction]
  by (auto simp: reset_transaction_def settles_def split: option.split intro!: lease_inv_lifecycle(5))

lemma pay_store_inv:
  assumes "store_inv db"
  shows "store_inv (snd (pay hmac sha256 env pg txnId ms now client hdr txn db))"
  using assms store_inv_save
  by (auto simp: pay_def split: option.split sum.split prod.split) (metis snd_conv)+

lemma request_db_pay:
  obtains (stopped) "request_db W txnId ms now hdr body db = db"
  | (paid) client answer where
      "pay (w_hmac W) (w_sha256 W) (w_env W) (w_pg W) txnId ms now client hdr body db =
        (answer, request_db W txnId ms now hdr body db)"
proof (cases "apiKeyAuth (w_env W) hdr")
  case (Inl answer)
  then show thesis by (intro stopped) (simp add: request_db_def post_pay_def)
next
  case (Inr a)
  show thesis
  proof (cases a)
    case Admin
    with Inr show thesis by (intro stopped) (simp add: request_db_def post_pay_def)
  next
    case (Client c)
    with Inr show thesis by (intro paid [of c]) (simp add: request_db_def post_pay_def prod_eq_iff)
  qed
qed

lemma request_inv:
  assumes "store_inv db" and "lease_inv db" and "pg_laws (w_pg W)"
  shows "store_inv (request_db W txnId ms now hdr body db)"
    and "lease_inv (request_db W txnId ms now hdr body db)"
proof -
  show "store_inv (request_db W txnId ms now hdr body db)"
  proof (rule request_db_pay [of W txnId ms now hdr body db])
    fix client answer
    assume "pay (w_hmac W) (w_sha256 W) (w_env W) (w_pg W) txnId ms now client hdr body db =
        (answer, request_db W txnId ms now hdr body db)"
    then show ?thesis
      using pay_store_inv [OF assms(1), of "w_hmac W" "w_sha256 W" "w_env W" "w_pg W" txnId ms now client hdr body]
      by simp
  qed (use assms(1) in simp)
  show "lease_inv (request_db W txnId ms now hdr body db)"
  proof (rule request_db_pay [of W txnId ms now hdr body db])
    fix client answer
    assume "pay (w_hmac W) (w_sha256 W) (w_env W) (w_pg W) txnId ms now client hdr body db =
        (answer, request_db W txnId ms now hdr body db)"
    then show ?thesis
    proof (cases rule: pay_cases)
      case refused
      with assms(2) show ?thesis by (simp add: same_tables_def lease_inv_def)
    next
      case (accepted key fullTxn row payload)
      have "lease_columns row" using accepted_row(3) [OF accepted(3,5) assms(3)] .
      with assms(2) show ?thesis
        using accepted_tables(1) [OF accepted(9)] by (rule lease_inv_append)
    qed
  qed (use assms(2) in simp)
qed

text \<open>No step breaks the invariants of the tables, in any order and with any faults.\<close>

lemma sys_inv_step:
  assumes "step W l s s'" and "sys_inv s" and "pg_laws (w_pg W)"
  shows "sys_inv s'"
proof -
  have inv: "store_inv (store s)" "lease_inv (store s)" using assms(2) by (simp_all add: sys_inv_def)
  have events: "store_inv db \<and> lease_inv db" if "event_frame (store s) db" for db
    using event_store_inv [OF that inv(1)] event_frame_others(1) [OF that] inv(2) by (simp add: lease_inv_def)
  from step_effect [OF assms(1)] have "store_inv (store s') \<and> lease_inv (store s')"
  proof cases
    case (finishes i r t u timeline w now)
    then show ?thesis
      using inv finishing_settles by (simp add: lifecycle_store_inv [OF frame_lifecycle(3)] lease_inv_lifecycle(3))
  qed (use inv assms(3) in \<open>simp_all add: request_inv reset_inv dead_letter_store_inv events event_frame_ops event_frame_settled
      lifecycle_store_inv [OF frame_lifecycle(1)] lifecycle_store_inv [OF frame_lifecycle(2)]
      lifecycle_store_inv [OF frame_lifecycle(4)] lease_inv_lifecycle\<close>)
  then show ?thesis by (simp add: sys_inv_def)
qed

lemma sys_inv_steps: "steps W ls s s' \<Longrightarrow> sys_inv s \<Longrightarrow> pg_laws (w_pg W) \<Longrightarrow> sys_inv s'"
  using steps_invariant [of W ls s s' sys_inv] sys_inv_step by blast

lemma sys_inv_initial: "sys_inv initial"
  by (simp add: sys_inv_def initial_def store_inv_empty) (simp add: lease_inv_def empty_db_def)

section \<open>What is final stays final\<close>

definition final_row :: "txn_row \<Rightarrow> bool" where
  "final_row r \<longleftrightarrow> txn_status r \<in> set FINAL_STATUSES"

lemma final_row_guards:
  assumes "final_row r"
  shows "txn_status r \<noteq> ''ACCEPTED''" "txn_status r \<noteq> ''PROCESSING''" "\<not> owns w r" "\<not> expired stale now r"
  using assms by (auto simp: final_row_def FINAL_STATUSES_def owns_def expired_def)

lemma update_one_get_unmet:
  assumes "\<And>r. txn_id (f r) = txn_id r" and "getTransaction tid db = Some r" and "\<not> g r"
  shows "getTransaction tid (snd (update_one i g f db)) = Some r"
  unfolding update_one_get [OF assms(1)] assms(2) using assms(3) by simp

lemma request_keeps_rows:
  assumes "getTransaction tid db = Some r"
  shows "getTransaction tid (request_db W txnId ms now hdr body db) = Some r"
proof (rule request_db_pay [of W txnId ms now hdr body db])
  fix client answer
  assume "pay (w_hmac W) (w_sha256 W) (w_env W) (w_pg W) txnId ms now client hdr body db =
      (answer, request_db W txnId ms now hdr body db)"
  then show ?thesis
  proof (cases rule: pay_cases)
    case refused
    with assms show ?thesis by (simp add: getTransaction_def same_tables_def)
  next
    case (accepted key fullTxn row payload)
    with assms show ?thesis
      using accepted_tables(1) [OF accepted(9)] by (simp add: getTransaction_def find_row_append)
  qed
qed (use assms in simp)

lemma reset_other:
  "job_txn_id pg job \<noteq> Some tid \<Longrightarrow>
    getTransaction tid (reset_transaction pg job st message now db) = getTransaction tid db"
  by (auto simp: reset_transaction_def getTransaction_updateTransaction split: option.split)

lemma dead_letter_get:
  "getTransaction tid (snd (saveDeadLetterJob hmac env pg now job message db)) = getTransaction tid db"
  by (simp add: getTransaction_def)

lemma event_frame_get: "event_frame db db' \<Longrightarrow> getTransaction tid db' = getTransaction tid db"
  by (simp add: getTransaction_def event_frame_others)

lemma final_step:
  assumes "step W l s s'" and "getTransaction tid (store s) = Some r" and "final_row r"
    and "\<And>i now. l \<noteq> Report i (Some tid) now"
  shows "getTransaction tid (store s') = Some r"
  using step_effect [OF assms(1)]
proof cases
  case (resets i q st now message)
  with assms(4) have "job_txn_id (w_pg W) (run_job q) \<noteq> Some tid" by auto
  with resets assms(2) show ?thesis by (simp add: reset_other)
qed (use assms(2) final_row_guards [OF assms(3)] in
    \<open>simp_all add: request_keeps_rows dead_letter_get as_update_one update_one_get_unmet recover_get
      event_frame_get [OF event_frame_ops(1)] event_frame_get [OF event_frame_ops(2)]
      event_frame_get [OF event_frame_settled]\<close>)

section \<open>At most one run finishes a transaction\<close>

definition finished_run_of :: "sys \<Rightarrow> string \<Rightarrow> nat \<Rightarrow> string \<Rightarrow> bool" where
  "finished_run_of s tid i st \<longleftrightarrow>
     (case runs s i of Some r \<Rightarrow> run_txn r = Some tid \<and> run_phase r = Ended (Finished st) | None \<Rightarrow> False)"

text \<open>A run names the transaction it planned to claim; its outcome is the row's.\<close>

definition run_ok :: "sys \<Rightarrow> bool" where
  "run_ok s \<longleftrightarrow> (\<forall>i r t. runs s i = Some r \<longrightarrow> phase_txn (run_phase r) = Some t \<longrightarrow> run_txn r = Some t)"

lemma run_okD: "run_ok s \<Longrightarrow> runs s i = Some r \<Longrightarrow> phase_txn (run_phase r) = Some t \<Longrightarrow> run_txn r = Some t"
  by (auto simp: run_ok_def)

lemma run_ok_step:
  assumes "step W l s s'" and "run_ok s"
  shows "run_ok s'"
  using assms(1)
proof cases
  case (take_won i r txn tid timeline now db)
  with run_okD [OF assms(2), of i r tid] assms(2) show ?thesis by (auto simp: run_ok_def)
next
  case (beat i r txn tid timeline h now fault h' db)
  with run_okD [OF assms(2), of i r tid] assms(2) show ?thesis by (auto simp: run_ok_def)
qed (use assms(2) in \<open>auto simp: run_ok_def\<close>)

definition once :: "string \<Rightarrow> sys \<Rightarrow> bool" where
  "once tid s \<longleftrightarrow>
     (\<forall>i st. finished_run_of s tid i st \<longrightarrow>
        (\<exists>r. getTransaction tid (store s) = Some r \<and> txn_status r = st \<and> final_row r)) \<and>
     (\<forall>i j st st'. finished_run_of s tid i st \<longrightarrow> finished_run_of s tid j st' \<longrightarrow> i = j)"

lemma finished_with_run:
  "finished_run_of (with_run i r s) tid j st \<longleftrightarrow>
    (if j = i then run_txn r = Some tid \<and> run_phase r = Ended (Finished st) else finished_run_of s tid j st)"
  "finished_run_of (s\<lparr>store := db\<rparr>) tid j st = finished_run_of s tid j st"
  by (simp_all add: finished_run_of_def)

text \<open>Only storing an outcome makes a run a finished one.\<close>

lemma finished_before:
  assumes "step W l s s'" and "finished_run_of s' tid j st"
  shows "finished_run_of s tid j st \<or> (\<exists>ms now. l = Settle j ms now)"
  using assms(1)
proof cases
  case (settle i r txn t timeline ms now res db)
  with assms(2) show ?thesis by (auto simp: finished_with_run split: if_splits)
next
  case (beat i r txn t timeline h now fault h' db)
  with assms(2) show ?thesis by (auto simp: finished_with_run split: if_splits)
qed (use assms(2) in \<open>auto simp: finished_with_run split: if_splits\<close>)

lemma once_kept:
  assumes "step W l s s'" and "once tid s" and "\<And>i now. l \<noteq> Report i (Some tid) now"
    and "\<And>j st. finished_run_of s' tid j st \<Longrightarrow> finished_run_of s tid j st"
  shows "once tid s'"
  unfolding once_def
proof (intro conjI allI impI)
  fix i st assume "finished_run_of s' tid i st"
  then have "finished_run_of s tid i st" by (rule assms(4))
  with assms(2) obtain r where r: "getTransaction tid (store s) = Some r" "txn_status r = st" "final_row r"
    by (auto simp: once_def)
  with final_step [OF assms(1) r(1,3) assms(3)]
  show "\<exists>r. getTransaction tid (store s') = Some r \<and> txn_status r = st \<and> final_row r" by auto
next
  fix i j st st' assume "finished_run_of s' tid i st" "finished_run_of s' tid j st'"
  then have "finished_run_of s tid i st" "finished_run_of s tid j st'" by (auto intro: assms(4))
  with assms(2) show "i = j" unfolding once_def by blast
qed

lemma once_step:
  assumes "step W l s s'" and "once tid s" and "run_ok s" and "sys_inv s"
    and "\<And>i now. l \<noteq> Report i (Some tid) now"
  shows "once tid s'"
proof (cases "\<exists>i ms now. l = Settle i ms now")
  case False
  then have "\<And>j st. finished_run_of s' tid j st \<Longrightarrow> finished_run_of s tid j st"
    using finished_before [OF assms(1)] by blast
  then show ?thesis using once_kept [OF assms(1,2,5)] by blast
next
  case True
  then obtain i ms now where l: "l = Settle i ms now" by blast
  from assms(1) [unfolded l] show ?thesis
  proof cases
    case (settle_throw r txn t timeline e db)
    then have "finished_run_of s' tid j st \<Longrightarrow> finished_run_of s tid j st" for j st
      by (auto simp: finished_with_run split: if_splits)
    then show ?thesis using once_kept [OF assms(1,2,5)] by blast
  next
    case (settle r txn t timeline res db)
    have t: "run_txn r = Some t" using run_okD [OF assms(3) settle(2), of t] settle(3) by simp
    let ?f = "\<lambda>u r. clear_processing (apply_updates u now r)"
    from settle(4) obtain u st where
      u: "settlement timeline (fst ms) (snd ms) (decide (config_of (w_env W)) txn) = Inr (u, st)"
      and db: "db = snd (update_one t (owns (run_worker r)) (?f u) (store s))"
      and res: "res = (if fst (update_one t (owns (run_worker r)) (?f u) (store s)) = None
        then Skipped ''Transaction finalization lost'' else Finished st)"
      by (rule settle_stepE)
    show ?thesis
    proof (cases "t = tid \<and> res = Finished st")
      case False
      with settle(1) t res have "finished_run_of s' tid j st' \<Longrightarrow> finished_run_of s tid j st'" for j st'
        by (auto simp: finished_with_run split: if_splits)
      then show ?thesis using once_kept [OF assms(1,2,5)] by blast
    next
      case True
      have unique: "unique_txn_ids (store s)" using assms(4) store_inv_unique by (simp add: sys_inv_def)
      have "fst (update_one t (owns (run_worker r)) (?f u) (store s)) \<noteq> None"
        using True res by (metis run_result.distinct(1))
      then obtain row where row: "getTransaction tid (store s) = Some row" "owns (run_worker r) row"
        using True by (auto simp: update_one_result [OF unique] split: option.splits if_splits)
      then have "\<not> final_row row" using final_row_guards(3) by blast
      with row(1) assms(2) have none: "\<not> finished_run_of s tid j st'" for j st' by (force simp: once_def)
      have "getTransaction tid db = Some (?f u row)"
        using row True by (simp add: db update_one_get)
      moreover have "txn_status (?f u row) = st" "final_row (?f u row)"
        using settlement_finishing [OF u]
        by (auto simp: final_row_def clear_processing_def apply_updates_def non_empty_def coalesce_val_def
            FINAL_STATUSES_def)
      ultimately show ?thesis
        using settle(1) t True none by (auto simp: once_def finished_with_run split: if_splits)
    qed
  qed
qed

section \<open>The lifecycle every transaction follows\<close>

text \<open>
  The abstract machine the program implements, for one transaction: absent, accepted, taken
  by a worker, done. The listener of failed jobs is the one exception: it may put a
  transaction back or give it up from any state.
\<close>

datatype stage = Absent | Waiting | Taken string | Done string

definition row_stage :: "txn_row \<Rightarrow> stage" where
  "row_stage r =
     (if txn_status r = ''ACCEPTED'' then Waiting
      else if txn_status r = ''PROCESSING'' then Taken (case processor_instance_id r of Some w \<Rightarrow> w | None \<Rightarrow> [])
      else Done (txn_status r))"

definition stage_of :: "string \<Rightarrow> db \<Rightarrow> stage" where
  "stage_of tid db = (case getTransaction tid db of None \<Rightarrow> Absent | Some r \<Rightarrow> row_stage r)"

inductive moves :: "stage \<Rightarrow> stage \<Rightarrow> bool" where
  stay: "moves a a"
| accept: "moves Absent Waiting"
| claim: "moves Waiting (Taken w)"
| finish: "st \<in> set FINAL_STATUSES \<Longrightarrow> moves (Taken w) (Done st)"
| take_back_stage: "moves (Taken w) Waiting"

inductive_simps moves_Done: "moves (Done st) b"
inductive_simps moves_Waiting: "moves Waiting b"

lemma stage_same: "getTransaction i db' = getTransaction i db \<Longrightarrow> moves (stage_of i db) (stage_of i db')"
  by (simp add: stage_of_def moves.stay)

lemma update_one_stage:
  assumes "\<And>r. txn_id (f r) = txn_id r" and "\<And>r. g r \<Longrightarrow> moves (row_stage r) (row_stage (f r))"
  shows "moves (stage_of i db) (stage_of i (snd (update_one tid g f db)))"
  using assms(2) by (auto simp: stage_of_def update_one_get [OF assms(1)] moves.stay split: option.split)

lemma set_processing_stage: "txn_status r = ''ACCEPTED'' \<Longrightarrow> moves (row_stage r) (row_stage (set_processing w timeline leaseMs now r))"
  by (simp add: row_stage_def set_processing_def moves.claim)

lemma renew_stage: "row_stage (renew leaseMs now r) = row_stage r"
  by (simp add: row_stage_def renew_def)

lemma finish_stage:
  assumes "owns w r" and "finishing u"
  shows "moves (row_stage r) (row_stage (clear_processing (apply_updates u now r)))"
  using assms finishing_status [OF assms(2), of now r]
  by (auto simp: row_stage_def owns_def clear_processing_def FINAL_STATUSES_def intro: moves.finish)

lemma recovered_stage: "expired stale now r \<Longrightarrow> moves (row_stage r) (row_stage (recovered_row now r))"
  by (simp add: row_stage_def expired_def recovered_row_def clear_processing_def moves.take_back_stage)

lemma request_stage:
  assumes "pg_laws (w_pg W)"
  shows "moves (stage_of tid db) (stage_of tid (request_db W txnId ms now hdr body db))"
proof (rule request_db_pay [of W txnId ms now hdr body db])
  fix client answer
  assume "pay (w_hmac W) (w_sha256 W) (w_env W) (w_pg W) txnId ms now client hdr body db =
      (answer, request_db W txnId ms now hdr body db)"
  then show ?thesis
  proof (cases rule: pay_cases)
    case refused
    then show ?thesis by (intro stage_same) (simp add: getTransaction_def same_tables_def)
  next
    case (accepted key fullTxn row payload)
    have rows: "transactions (request_db W txnId ms now hdr body db) = transactions db @ [row]"
      using accepted_tables(1) [OF accepted(9)] .
    have st: "row_stage row = Waiting" using accepted_row(1) [OF accepted(3,5) assms] by (simp add: row_stage_def)
    show ?thesis
    proof (cases "getTransaction tid db")
      case None
      with rows st show ?thesis
        by (auto simp: stage_of_def getTransaction_def find_row_append moves.accept moves.stay split: option.splits)
    next
      case (Some r)
      with rows show ?thesis by (intro stage_same) (simp add: getTransaction_def find_row_append)
    qed
  qed
qed (simp add: moves.stay)

text \<open>Every step but a report of the transaction's own job is a move of the abstract machine.\<close>

lemma step_moves:
  assumes "step W l s s'" and "pg_laws (w_pg W)" and "\<And>i now. l \<noteq> Report i (Some tid) now"
  shows "moves (stage_of tid (store s)) (stage_of tid (store s'))"
  using step_effect [OF assms(1)]
proof cases
  case (resets i q st now message)
  with assms(3) have "job_txn_id (w_pg W) (run_job q) \<noteq> Some tid" by auto
  with resets show ?thesis by (intro stage_same) (simp add: reset_other)
next
  case (recovers now)
  then show ?thesis
    using recovered_stage by (auto simp: stage_of_def recover_get moves.stay split: option.split)
qed (use assms(2) in \<open>simp_all add: moves.stay request_stage as_update_one update_one_stage set_processing_stage
    stage_same [OF dead_letter_get] renew_stage finish_stage stage_same event_frame_get [OF event_frame_ops(1)]
    event_frame_get [OF event_frame_ops(2)] event_frame_get [OF event_frame_settled]\<close>)

text \<open>A report puts an existing transaction back or gives it up, or does not find it.\<close>

lemma reset_stage:
  assumes "status \<in> {''ACCEPTED'', ''FAILED''}"
  shows "stage_of tid (reset_transaction pg job status message now db) = stage_of tid db \<or>
    stage_of tid db \<noteq> Absent \<and> stage_of tid (reset_transaction pg job status message now db) \<in> {Waiting, Done ''FAILED''}"
proof (cases "job_txn_id pg job = Some tid")
  case True
  have st: "txn_status (clear_processing (apply_updates (reset_updates status m n) now r)) = status" for m n r
    using assms by (auto simp: clear_processing_def apply_updates_def non_empty_def coalesce_val_def)
  show ?thesis
    using True assms st
    by (cases "getTransaction tid db")
      (auto simp: stage_of_def reset_transaction_def getTransaction_updateTransaction row_stage_def)
next
  case False
  then show ?thesis
    by (auto simp: stage_of_def reset_transaction_def getTransaction_updateTransaction split: option.split)
qed

section \<open>The listener, uninterrupted\<close>

text \<open>Carried through without a fault, the steps of the listener are \<open>on_failed\<close>.\<close>

lemma listener_steps:
  assumes "runs s i = Some r" and "run_phase r = Thrown e"
  obtains ls s' where "steps W ls s s'"
    and "store s' = on_failed (w_hmac W) (w_env W) (w_pg W) now (run_job r) (error_message (w_text W) e) (store s)"
    and "runs s' i = Some (r\<lparr>run_phase := Reported\<rparr>)"
proof (cases "job_remaining (run_job r)")
  case True
  from steps.more_steps [OF step.report_retry [OF assms this, of W now] steps.no_step]
  show thesis by (rule that) (simp_all add: on_failed_retry [OF True])
next
  case False
  obtain res db where saved: "saveDeadLetterJob (w_hmac W) (w_env W) (w_pg W) now (run_job r)
      (error_message (w_text W) e) (store s) = (res, db)" by fastforce
  note one = step.bury [OF assms False this]
  have failed: "on_failed (w_hmac W) (w_env W) (w_pg W) now (run_job r) (error_message (w_text W) e) (store s) =
      (case res of Inl _ \<Rightarrow> db
       | Inr _ \<Rightarrow> reset_transaction (w_pg W) (run_job r) ''FAILED'' (error_message (w_text W) e) now db)"
    using False saved by (auto simp: on_failed_def job_remaining_def Let_def split: sum.split)
  show thesis
  proof (cases res)
    case (Inl x)
    from steps.more_steps [OF one steps.no_step] show thesis
      by (rule that) (simp_all add: failed Inl)
  next
    case (Inr x)
    let ?s1 = "with_run i (r\<lparr>run_phase := Lettered e\<rparr>) (s\<lparr>store := db\<rparr>)"
    have "runs ?s1 i = Some (r\<lparr>run_phase := Lettered e\<rparr>)" by simp
    from step.report_final [OF this, of e W now]
    have "step W (Report i (job_txn_id (w_pg W) (run_job r)) now) ?s1
        (with_run i (r\<lparr>run_phase := Reported\<rparr>)
          (?s1\<lparr>store := reset_transaction (w_pg W) (run_job r) ''FAILED'' (error_message (w_text W) e) now db\<rparr>))" by simp
    from steps.more_steps [OF one [unfolded Inr sum.case] steps.more_steps [OF this steps.no_step]]
    show thesis by (rule that) (simp_all add: failed Inr)
  qed
qed

section \<open>A delivery can always be carried through\<close>

lemma steps_snoc: "steps W ls s s1 \<Longrightarrow> step W l s1 s2 \<Longrightarrow> steps W (ls @ [l]) s s2"
  by (induction rule: steps.induct) (auto intro: steps.intros)

lemma run_to_claim:
  assumes pg: "pg_laws (w_pg W)" and names: "job_names job tid" and inv: "sys_inv s" and new: "runs s i = None"
    and row: "getTransaction tid (store s) = Some r" "txn_status r = ''ACCEPTED''"
      "processing_timeline r = Some (JArr ts)"
    and timeline: "timeline = appendTimeline ts ''PROCESSING'' ms ''BullMQ worker started processing''"
  obtains s' where "steps W [Deliver i w job, Read i ms, Take i now] s s'"
    and "runs s' i = Some \<lparr>run_worker = w, run_job = job, run_txn = Some tid,
      run_phase = Working (job_data job) tid timeline, run_beat = \<lparr>timer_on = True, heartbeatRunning = False\<rparr>\<rparr>"
    and "store s' = snd (claim_txn (Some (JArr timeline)) (w_lease W) now tid w (store s))"
    and "holder (store s') tid = Some w"
proof -
  let ?off = "\<lparr>timer_on = False, heartbeatRunning = False\<rparr>"
  let ?r0 = "\<lparr>run_worker = w, run_job = job, run_txn = None, run_phase = Reading, run_beat = ?off\<rparr>"
  let ?s1 = "with_run i ?r0 s"
  let ?r1 = "?r0\<lparr>run_txn := Some tid, run_phase := Planned (job_data job) tid timeline\<rparr>"
  let ?s2 = "with_run i ?r1 ?s1"
  let ?d = "snd (claim_txn (Some (JArr timeline)) (w_lease W) now tid w (store s))"
  let ?r2 = "?r1\<lparr>run_phase := Working (job_data job) tid timeline, run_beat := \<lparr>timer_on = True, heartbeatRunning = False\<rparr>\<rparr>"
  let ?s3 = "with_run i ?r2 (?s2\<lparr>store := ?d\<rparr>)"
  have unique: "unique_txn_ids (store s)" using inv store_inv_unique by (simp add: sys_inv_def)
  have free: "claimable (store s) tid" using row by (simp add: claimable_def)
  have "fst (claim_txn (Some (JArr timeline)) (w_lease W) now tid w (store s))"
    using txn_lease.claim_wins [OF unique] free by simp
  then have take: "claim_step (w_lease W) w now tid timeline (store s) = (True, ?d)"
    by (simp add: claim_step_txn prod_eq_iff)
  have "step W (Deliver i w job) s ?s1" using new by (rule step.deliver)
  moreover have "step W (Read i ms) ?s1 ?s2"
    using read_step_claim [OF pg names row] timeline by (intro step.read_plan) simp_all
  moreover have "step W (Take i now) ?s2 ?s3"
    using take by (intro step.take_won) simp_all
  ultimately have "steps W [Deliver i w job, Read i ms, Take i now] s ?s3" by (blast intro: steps.intros)
  then show thesis
    using txn_lease.claim_holds [OF unique free] by (intro that [of ?s3]) simp_all
qed

lemma run_to_completion:
  assumes pg: "pg_laws (w_pg W)" and names: "job_names job tid" and inv: "sys_inv s" and new: "runs s i = None"
    and row: "getTransaction tid (store s) = Some r" "txn_status r = ''ACCEPTED''"
      "processing_timeline r = Some (JArr ts)"
    and settled: "settlement (appendTimeline ts ''PROCESSING'' ms ''BullMQ worker started processing'') ms ms
      (decide (config_of (w_env W)) (job_data job)) = Inr (u, st)"
  obtains s' where "steps W [Deliver i w job, Read i ms, Take i now, Settle i (ms, ms) now] s s'"
    and "finished_run_of s' tid i st"
    and "\<exists>row. getTransaction tid (store s') = Some row \<and> txn_status row = st \<and> lease_columns row"
proof -
  define timeline where "timeline = appendTimeline ts ''PROCESSING'' ms ''BullMQ worker started processing''"
  have unique: "unique_txn_ids (store s)" using inv store_inv_unique by (simp add: sys_inv_def)
  have free: "claimable (store s) tid" using row by (simp add: claimable_def)
  obtain s3 where run: "steps W [Deliver i w job, Read i ms, Take i now] s s3"
    and at3: "runs s3 i = Some \<lparr>run_worker = w, run_job = job, run_txn = Some tid,
      run_phase = Working (job_data job) tid timeline, run_beat = \<lparr>timer_on = True, heartbeatRunning = False\<rparr>\<rparr>" (is "_ = Some ?r")
    and d: "store s3 = snd (claim_txn (Some (JArr timeline)) (w_lease W) now tid w (store s))"
    and held: "holder (store s3) tid = Some w"
    by (rule run_to_claim [OF pg names inv new row timeline_def])
  let ?e = "snd (finish_txn u now tid w (store s3))"
  let ?s4 = "with_run i (?r\<lparr>run_phase := Ended (Finished st)\<rparr>) (s3\<lparr>store := ?e\<rparr>)"
  have fin: "fst (finish_txn u now tid w (store s3))"
    using txn_lease.release_iff [OF txn_lease.claim_ok [OF unique]] held unfolding d by blast
  have "settle_step (config_of (w_env W)) w (ms, ms) now (job_data job) tid timeline (store s3) = (Inr (Finished st), ?e)"
    using settle_step_finish [of timeline "(ms, ms)" "config_of (w_env W)" "job_data job" u st w now tid "store s3"] settled fin
    by (simp add: timeline_def)
  then have "step W (Settle i (ms, ms) now) s3 ?s4" using at3 by (intro step.settle) simp_all
  from steps_snoc [OF run this] have all: "steps W [Deliver i w job, Read i ms, Take i now, Settle i (ms, ms) now] s ?s4"
    by simp
  obtain q where q: "getTransaction tid (store s3) = Some q" "owns w q"
    using held by (auto simp: holder_def owns_def split: option.splits if_splits)
  let ?row = "clear_processing (apply_updates u now q)"
  have "getTransaction tid ?e = Some ?row" using q by (simp add: finish_txn_get)
  moreover have "txn_status ?row = st" "st \<in> set FINAL_STATUSES"
    using settlement_finishing [OF settled]
    by (auto simp: clear_processing_def apply_updates_def non_empty_def coalesce_val_def FINAL_STATUSES_def)
  moreover from this have "lease_columns ?row"
    by (auto simp: lease_columns_def clear_processing_def FINAL_STATUSES_def)
  ultimately show thesis
    using all by (intro that [of ?s4]) (simp_all add: finished_run_of_def)
qed

section \<open>Transactions nobody takes\<close>

text \<open>A run that was never started is not there.\<close>

lemma unstarted_step:
  assumes "step W l s s'" and "runs s j = None" and "\<nexists>w job. l = Deliver j w job"
  shows "runs s' j = None"
  using assms(1) by cases (use assms(2,3) in auto)

lemma unstarted_steps:
  assumes "steps W ls s s'" and "runs s j = None" and "\<And>w job. Deliver j w job \<notin> set ls"
  shows "runs s' j = None"
  using steps_invariant [OF assms(1), of "\<lambda>s. runs s j = None"] assms(2,3) unstarted_step by metis

text \<open>The run works on another transaction.\<close>

definition foreign_run :: "string \<Rightarrow> run \<Rightarrow> bool" where
  "foreign_run tid r \<longleftrightarrow> (\<exists>t. t \<noteq> tid \<and> job_names (run_job r) t \<and> phase_txn (run_phase r) \<in> {None, Some t})"

text \<open>The run has made its claim or never will.\<close>

fun past_claim :: "phase \<Rightarrow> bool" where
  "past_claim Reading = False"
| "past_claim (Planned txn tid timeline) = False"
| "past_claim _ = True"

definition nobody_claims :: "string \<Rightarrow> sys \<Rightarrow> bool" where
  "nobody_claims tid s \<longleftrightarrow> (\<forall>i r. runs s i = Some r \<longrightarrow> foreign_run tid r \<or> past_claim (run_phase r))"

lemma read_step_txn:
  assumes "pg_laws pg" and "job_names job t" and "read_step hmac env pg ms job db = Inr (Claim txn tid timeline)"
  shows "tid = t"
proof -
  from assms obtain r where "getTransaction t db = Some r" "txn_id r = tid"
    using job_names_sanitized [OF assms(2), of hmac env]
    by (auto simp: read_step_def job_names_def get_by_value_JStr and_then_Inr_iff split: option.splits if_splits)
  then show ?thesis using getTransaction_id by blast
qed

lemma past_claim_buried [simp]: "past_claim (case res of Inl x \<Rightarrow> Reported | Inr y \<Rightarrow> Lettered e)"
  by (cases res) simp_all

lemma nobody_claims_step:
  assumes "step W l s s'" and "nobody_claims tid s" and "pg_laws (w_pg W)"
    and "\<And>i w job. l = Deliver i w job \<Longrightarrow> \<exists>t. t \<noteq> tid \<and> job_names job t"
  shows "nobody_claims tid s'"
  using assms(1)
proof cases
  case (deliver i w job)
  then show ?thesis using assms(2,4) by (auto simp: nobody_claims_def foreign_run_def)
next
  case (read_plan i r ms txn t timeline)
  have "\<not> past_claim (run_phase r)" using read_plan(4) by simp
  then have "foreign_run tid r" using assms(2) read_plan(3) unfolding nobody_claims_def by blast
  then obtain u where u: "u \<noteq> tid" "job_names (run_job r) u" unfolding foreign_run_def by blast
  have "t = u" using read_step_txn [OF assms(3) u(2) read_plan(5)] .
  with u have "foreign_run tid (r\<lparr>run_txn := Some t, run_phase := Planned txn t timeline\<rparr>)"
    by (auto simp: foreign_run_def)
  with assms(2) show ?thesis by (simp add: read_plan(2) nobody_claims_def)
next
  case (beat i r txn t timeline h now fault h' db)
  then show ?thesis using assms(2) by (auto simp: nobody_claims_def)
next
  case (beat_unknown i r txn t timeline h now h' db m)
  then show ?thesis using assms(2) by (auto simp: nobody_claims_def)
qed (use assms(2) in \<open>auto simp: nobody_claims_def\<close>)

lemma filter_key_single: "distinct (map key xs) \<Longrightarrow> x \<in> set xs \<Longrightarrow> filter (\<lambda>y. key y = key x) xs = [x]"
  by (induction xs) (auto simp: image_iff filter_empty_conv)

lemma update_outbox_keeps: "e \<in> set (outbox_events db) \<Longrightarrow> \<not> p e \<Longrightarrow> e \<in> set (outbox_events (update_outbox p f db))"
  by (force simp: update_outbox_def update_where_def image_iff)

lemma claim_keeps_event:
  assumes "store_inv db" and "e \<in> set (outbox_events db)" and "ob_status e \<noteq> ''PENDING''"
  shows "e \<in> set (outbox_events (snd (claimOutboxEvents n p ids locked now db)))"
proof -
  have "distinct (map ob_id (outbox_events db))"
    using assms(1) strict_sorted_iff by (auto simp: store_inv_def)
  then have "ob_id e \<notin> ob_id ` set (take n (pending_events ids locked db))"
    using assms(2,3) by (auto simp: pending_events_def distinct_map dest!: in_set_takeD dest: inj_onD)
  then show ?thesis
    using assms(2) by (auto simp: claimOutboxEvents_def Let_def intro!: update_outbox_keeps)
qed

lemma request_keeps_event:
  assumes "e \<in> set (outbox_events db)"
  shows "e \<in> set (outbox_events (request_db W txnId ms now hdr body db))"
proof (rule request_db_pay [of W txnId ms now hdr body db])
  fix client answer
  assume "pay (w_hmac W) (w_sha256 W) (w_env W) (w_pg W) txnId ms now client hdr body db =
      (answer, request_db W txnId ms now hdr body db)"
  then show ?thesis
  proof (cases rule: pay_cases)
    case refused
    with assms show ?thesis by (simp add: same_tables_def)
  next
    case (accepted key fullTxn row payload)
    with assms show ?thesis using accepted_tables(3) [OF accepted(9)] by blast
  qed
qed (use assms in simp)

lemma update_one_events: "outbox_events (snd (update_one t g f db)) = outbox_events db"
  by (simp add: update_one_def update_transactions_def)

lemma untouched_step:
  assumes "step W l s s'" and "nobody_claims tid s" and "sys_inv s"
    and row: "getTransaction tid (store s) = Some r" "txn_status r = ''ACCEPTED''"
    and event: "e \<in> set (outbox_events (store s))" "ob_status e = ''SENT''"
    and "\<And>h. l \<noteq> SettleEvent (ob_id e) h" and "\<And>i now. l \<noteq> Report i (Some tid) now"
  shows "getTransaction tid (store s') = Some r \<and> e \<in> set (outbox_events (store s'))"
proof -
  have store: "store_inv (store s)" using assms(3) by (simp add: sys_inv_def)
  have free: "\<not> owns w r" for w using row(2) by (simp add: owns_def)
  from step_effect [OF assms(1)] show ?thesis
  proof cases
    case (claims i q txn t plan w timeline now)
    then have "t \<noteq> tid" using assms(2) by (fastforce simp: nobody_claims_def foreign_run_def)
    with claims show ?thesis using row event by (simp add: as_update_one update_one_get update_one_events)
  next
    case (resets i q st now message)
    with assms(9) have "job_txn_id (w_pg W) (run_job q) \<noteq> Some tid" by auto
    with resets show ?thesis using row event by (simp add: reset_other frame_others(1) [OF frame_reset_transaction])
  next
    case (recovers now)
    have "outbox_events (snd (recoverStaleProcessingTransactions (w_stale W) now (store s))) = outbox_events (store s)"
      using frame_others(1) [OF frame_lifecycle(4)] .
    with recovers show ?thesis using row event by (simp add: recover_get expired_def)
  next
    case (recovers_events now)
    have "\<not> stale_event (w_event_stale W) None now e" using event(2) by (simp add: stale_event_def)
    with recovers_events show ?thesis
      using row event event_frame_get [OF event_frame_ops(1)]
      by (simp add: recoverStaleOutboxEvents_def Let_def update_outbox_keeps)
  next
    case (settles_event i h)
    then have "i \<noteq> ob_id e" using assms(8) by blast
    then show ?thesis
      using settles_event row event event_frame_get [OF event_frame_settled] by (simp add: update_outbox_keeps)
  qed (use row event free in \<open>simp_all add: request_keeps_rows request_keeps_event as_update_one dead_letter_get
      update_one_get_unmet update_one_events claim_keeps_event [OF store] event_frame_get [OF event_frame_ops(2)]\<close>)
qed

section \<open>Properties\<close>

text \<open>Processes that have just been started on existing tables.\<close>

definition started :: "sys \<Rightarrow> bool" where
  "started s \<longleftrightarrow> sys_inv s \<and> runs s = (\<lambda>_. None)"

lemma started_initial: "started initial"
  using sys_inv_initial by (simp add: started_def) (simp add: initial_def)

text \<open>C9: In every state the processes can reach together, in any interleaving of their statements
  and with any faults, the tables are consistent: transaction ids and event ids are unique, no
  idempotency key is held twice, every transaction has its outbox event, and the lease columns
  are set exactly while a transaction is being processed.\<close>

theorem system_invariant:
  assumes "steps W ls s0 s" and "sys_inv s0" and "pg_laws (w_pg W)"
  shows "store_inv (store s) \<and> lease_inv (store s)"
proof -
  have "sys_inv s" using sys_inv_steps [OF assms] .
  then show ?thesis by (simp add: sys_inv_def)
qed

definition sample_world :: world where
  "sample_world = \<lparr>w_hmac = (\<lambda>secret digits. ''f''), w_sha256 = (\<lambda>text. ''hash''), w_env = sample_env,
     w_pg = sample_pg, w_text = (\<lambda>_. ''error''), w_lease = 1000, w_stale = 1000, w_event_stale = 1000,
     w_max_recoveries = 3\<rparr>"

lemma sample_world_simps [simp]:
  "w_pg sample_world = sample_pg" "w_env sample_world = sample_env" "pg_laws (w_pg sample_world)"
  by (simp_all add: sample_world_def sample_pg_laws)

text \<open>A request that is accepted, and whose transaction a worker then takes.\<close>

definition paying_headers :: headers where
  "paying_headers = (key_header ''k'')(''x-api-key'' := Some ''dev-api-key'')"

lemma paid_db:
  obtains r ts where "getTransaction ''t'' (request_db sample_world ''t'' 0 0 paying_headers plain_body empty_db) = Some r"
    and "txn_status r = ''ACCEPTED''" and "processing_timeline r = Some (JArr ts)"
proof -
  have "case getTransaction ''t'' (request_db sample_world ''t'' 0 0 paying_headers plain_body empty_db) of
      Some r \<Rightarrow> txn_status r = ''ACCEPTED'' \<and> (case processing_timeline r of Some (JArr ts) \<Rightarrow> True | _ \<Rightarrow> False)
    | None \<Rightarrow> False"
    by code_simp
  then show thesis using that by (auto split: option.splits jsval.splits)
qed

theorem system_invariant_witness:
  "\<exists>s. steps sample_world [Request ''t'' 0 0 paying_headers plain_body,
       Deliver 0 ''w'' (queued_sample (JNum (Fin 5))), Read 0 5, Take 0 6] initial s \<and>
     holder (store s) ''t'' = Some ''w'' \<and> store_inv (store s) \<and> lease_inv (store s)"
proof -
  let ?job = "queued_sample (JNum (Fin 5))"
  let ?s1 = "initial\<lparr>store := request_db sample_world ''t'' 0 0 paying_headers plain_body (store initial)\<rparr>"
  have names: "job_names ?job ''t''" by (rule queued_sample_names) simp_all
  have pay: "step sample_world (Request ''t'' 0 0 paying_headers plain_body) initial ?s1" by (rule step.request)
  then have inv: "sys_inv ?s1" using sys_inv_step sys_inv_initial sample_world_simps(3) by blast
  have new: "runs ?s1 0 = None" by (simp add: initial_def)
  obtain r ts where row: "getTransaction ''t'' (store ?s1) = Some r" "txn_status r = ''ACCEPTED''"
      "processing_timeline r = Some (JArr ts)"
    using paid_db by (auto simp: initial_def)
  obtain s where run: "steps sample_world [Deliver 0 ''w'' ?job, Read 0 5, Take 0 6] ?s1 s"
    and held: "holder (store s) ''t'' = Some ''w''"
    by (rule run_to_claim [OF sample_world_simps(3) names inv new row refl])
  note all = steps.more_steps [OF pay run]
  from system_invariant [OF all sys_inv_initial sample_world_simps(3)] held all show ?thesis by blast
qed

text \<open>C5: The program refines the abstract life of a transaction: absent, waiting, taken by a worker,
  done. Every step of any process is a move of that machine for every transaction; the one
  exception is the report of a failed job of this transaction, which may put an existing
  transaction back to waiting, or give it up, from any state.\<close>

theorem lifecycle_refinement:
  assumes "step W l s s'" and "pg_laws (w_pg W)"
  shows "moves (stage_of tid (store s)) (stage_of tid (store s')) \<or>
    (\<exists>i now. l = Report i (Some tid) now) \<and> stage_of tid (store s) \<noteq> Absent \<and>
    stage_of tid (store s') \<in> {Waiting, Done ''FAILED''}"
proof (cases "\<exists>i now. l = Report i (Some tid) now")
  case False
  then show ?thesis using step_moves [OF assms] by blast
next
  case True
  then obtain i now where l: "l = Report i (Some tid) now" by blast
  from assms(1) [unfolded l] show ?thesis
  proof cases
    case (report_retry r e)
    with reset_stage [of "''ACCEPTED''" tid "w_pg W" "run_job r" "error_message (w_text W) e" now "store s"] l
    show ?thesis by (auto simp: moves.stay)
  next
    case (report_final r e)
    with reset_stage [of "''FAILED''" tid "w_pg W" "run_job r" "error_message (w_text W) e" now "store s"] l
    show ?thesis by (auto simp: moves.stay)
  qed
qed

theorem lifecycle_refinement_witness:
  "moves (stage_of ''t'' (sample_db [held_row ''t'' ''w'' 100]))
    (stage_of ''t'' (snd (runTransactionRecoveryOnce 1000 200 (sample_db [held_row ''t'' ''w'' 100]))))"
proof -
  let ?s = "initial\<lparr>store := sample_db [held_row ''t'' ''w'' 100]\<rparr>"
  have "step sample_world (Recover 200) ?s
      (?s\<lparr>store := snd (runTransactionRecoveryOnce (w_stale sample_world) 200 (store ?s))\<rparr>)"
    by (rule step.recover)
  from lifecycle_refinement [OF this, of "''t''"] show ?thesis by (simp add: sample_world_def sample_pg_laws)
qed

text \<open>C4: What is final stays final: once a transaction is \<open>COMPLETED\<close>, \<open>DECLINED\<close> or \<open>FAILED\<close>, no
  sequence of requests, deliveries, claims, heartbeats, outcomes and recoveries changes any
  column of its row, unless a failed job of this very transaction is reported.\<close>

theorem final_stays_final:
  assumes "steps W ls s s'" and "getTransaction tid (store s) = Some r" and "txn_status r \<in> set FINAL_STATUSES"
    and "\<And>i now. Report i (Some tid) now \<notin> set ls"
  shows "getTransaction tid (store s') = Some r"
proof (rule steps_invariant [OF assms(1), of "\<lambda>s. getTransaction tid (store s) = Some r"])
  show "getTransaction tid (store s2) = Some r"
    if "l \<in> set ls" "step W l s1 s2" "getTransaction tid (store s1) = Some r" for l s1 s2
    using that assms(3,4) by (intro final_step [OF that(2,3)]) (auto simp: final_row_def)
qed (rule assms(2))

theorem final_stays_final_witness:
  "getTransaction ''t'' (snd (runTransactionRecoveryOnce 1000 200 (sample_db [sample_row ''t'' ''DECLINED'']))) =
    Some (sample_row ''t'' ''DECLINED'')"
proof -
  let ?s = "initial\<lparr>store := sample_db [sample_row ''t'' ''DECLINED'']\<rparr>"
  have "steps sample_world [Recover 200] ?s
      (?s\<lparr>store := snd (runTransactionRecoveryOnce (w_stale sample_world) 200 (store ?s))\<rparr>)"
    by (rule more_steps [OF step.recover no_step])
  from final_stays_final [OF this, of "''t''" "sample_row ''t'' ''DECLINED''"] show ?thesis
    by (simp add: sample_db_row FINAL_STATUSES_def) (simp add: sample_world_def)
qed

text \<open>C3: Exactly-once effect. However often the queue delivers jobs, to however many workers, and
  however their statements interleave with recoveries and requests, at most one run ever
  reports an outcome for a transaction, and the row holds exactly that outcome; this as long
  as no failed job of the transaction is reported.\<close>

theorem one_run_finishes:
  assumes "steps W ls s0 s" and "started s0" and "pg_laws (w_pg W)"
    and "\<And>i now. Report i (Some tid) now \<notin> set ls" and "finished_run_of s tid i st"
  shows "(\<forall>j st'. finished_run_of s tid j st' \<longrightarrow> j = i \<and> st' = st) \<and>
    (\<exists>r. getTransaction tid (store s) = Some r \<and> txn_status r = st \<and> st \<in> set FINAL_STATUSES)"
proof -
  let ?P = "\<lambda>s. once tid s \<and> run_ok s \<and> sys_inv s"
  have "?P s0" using assms(2) by (simp add: started_def once_def run_ok_def finished_run_of_def)
  moreover have "?P s2" if "l \<in> set ls" "step W l s1 s2" "?P s1" for l s1 s2
    using that once_step [OF that(2)] run_ok_step [OF that(2)] sys_inv_step [OF that(2)] assms(3,4) by blast
  ultimately have once: "once tid s" using steps_invariant [OF assms(1), of ?P] by blast
  have "j = i \<and> st' = st" if "finished_run_of s tid j st'" for j st'
  proof -
    have "j = i" using once assms(5) that unfolding once_def by blast
    then show ?thesis using that assms(5) by (auto simp: finished_run_of_def split: option.splits)
  qed
  then show ?thesis using once assms(5) unfolding once_def final_row_def by blast
qed

definition sample_sys :: sys where
  "sample_sys = \<lparr>store = (sample_db [sample_row ''t'' ''ACCEPTED''])\<lparr>outbox_events := [sample_event 0 ''SENT''], outbox_seq := 1\<rparr>,
     runs = (\<lambda>_. None)\<rparr>"

lemma sample_sys_started: "started sample_sys"
  by (simp add: started_def sample_sys_def sys_inv_def store_inv_def lease_inv_def sample_db_def txn_ids_def
      lease_columns_def) (simp add: sample_row_def sample_event_def)

lemma sample_sys_row: "getTransaction ''t'' (store sample_sys) = Some (sample_row ''t'' ''ACCEPTED'')"
  by (simp add: sample_sys_def getTransaction_def sample_db_def) (simp add: sample_row_def)

lemma sample_settlement:
  obtains u where "settlement timeline ms ms' (decide cfg (job_data (queued_sample (JNum (Fin 5))))) = Inr (u, ''COMPLETED'')"
  by (simp add: sample_decisions settlement_def)

theorem one_run_finishes_witness:
  "\<exists>s. (\<exists>ls. steps sample_world ls sample_sys s) \<and>
    {(j, st). finished_run_of s ''t'' j st} = {(0, ''COMPLETED'')}"
proof -
  let ?job = "queued_sample (JNum (Fin 5))"
  have names: "job_names ?job ''t''" by (rule queued_sample_names) simp_all
  have inv: "sys_inv sample_sys" "runs sample_sys 0 = None" using sample_sys_started by (simp_all add: started_def)
  obtain u where "settlement (appendTimeline [] ''PROCESSING'' 5 ''BullMQ worker started processing'') 5 5
      (decide (config_of (w_env sample_world)) (job_data ?job)) = Inr (u, ''COMPLETED'')"
    by (rule sample_settlement)
  then obtain s where run: "steps sample_world [Deliver 0 ''w'' ?job, Read 0 5, Take 0 6, Settle 0 (5, 5) 6] sample_sys s"
    and fin: "finished_run_of s ''t'' 0 ''COMPLETED''"
    by (rule run_to_completion [OF sample_world_simps(3) names inv sample_sys_row sample_db_row(3,4), where w = "''w''" and now = 6])
  have "\<And>i now. Report i (Some ''t'') now \<notin> set [Deliver 0 ''w'' ?job, Read 0 5, Take 0 6, Settle 0 (5, 5) 6]" by simp
  from one_run_finishes [OF run sample_sys_started sample_world_simps(3) this fin]
  have "\<And>j st. finished_run_of s ''t'' j st \<Longrightarrow> (j, st) = (0, ''COMPLETED'')" by blast
  with fin have "{(j, st). finished_run_of s ''t'' j st} = {(0, ''COMPLETED'')}" by blast
  with run show ?thesis by blast
qed

text \<open>A waiting transaction can always be carried through. In any consistent state, whatever the
  other runs are doing, a fresh delivery of a job for a transaction that waits, and whose
  processing does not fail, can be executed to its end in four steps, and then the transaction
  has the decided status and no lease.\<close>

lemma delivery_completes:
  assumes "pg_laws (w_pg W)" and "job_names job tid" and "sys_inv s" and "runs s i = None"
    and "getTransaction tid (store s) = Some r" and "txn_status r = ''ACCEPTED''"
    and "processing_timeline r = Some (JArr ts)"
    and "\<And>e. decide (config_of (w_env W)) (job_data job) \<noteq> Throw e"
  shows "\<exists>s' st. steps W [Deliver i w job, Read i ms, Take i now, Settle i (ms, ms) now] s s' \<and>
    finished_run_of s' tid i st \<and> st \<in> {''COMPLETED'', ''DECLINED''} \<and>
    (\<exists>row. getTransaction tid (store s') = Some row \<and> txn_status row = st \<and> lease_columns row)"
proof -
  obtain u st where
    u: "settlement (appendTimeline ts ''PROCESSING'' ms ''BullMQ worker started processing'') ms ms
      (decide (config_of (w_env W)) (job_data job)) = Inr (u, st)" "st \<in> {''COMPLETED'', ''DECLINED''}"
    using assms(8) by (cases "decide (config_of (w_env W)) (job_data job)") (auto simp: settlement_def)
  show ?thesis
    by (rule run_to_completion [OF assms(1-7) u(1), of w now]) (use u(2) in blast)
qed

text \<open>C8: A transaction that recovery has taken back from a silent worker, and whose event is \<open>SENT\<close>, is
  not handed to the queue again: no sequence of requests, recoveries, claims of events and other
  runs changes the row recovery left, and its only event stays \<open>SENT\<close>. This is so as long as no
  new delivery of a job of it comes (only jobs of other transactions are delivered, and its runs
  so far are past their claim, like the silent worker's, whose late heartbeats and outcomes are
  covered), no outbox processor marks its event late (its marks are unguarded), and no failed job of it is reported.\<close>

theorem recovered_waits:
  assumes "steps W (Recover now # ls) s0 s" and "sys_inv s0" and "pg_laws (w_pg W)"
    and "getTransaction tid (store s0) = Some r" and "expired (w_stale W) now r"
    and "e \<in> set (outbox_events (store s0))" and "ob_txn_id e = tid" and "ob_status e = ''SENT''"
    and "nobody_claims tid s0"
    and "\<And>i w job. Deliver i w job \<in> set ls \<Longrightarrow> \<exists>t. t \<noteq> tid \<and> job_names job t"
    and "\<And>h. SettleEvent (ob_id e) h \<notin> set ls" and "\<And>i now. Report i (Some tid) now \<notin> set ls"
  shows "getTransaction tid (store s) = Some (recovered_row now r) \<and>
    filter (\<lambda>e. ob_txn_id e = tid) (outbox_events (store s)) = [e]"
proof -
  let ?r = "recovered_row now r"
  have st: "txn_status ?r = ''ACCEPTED''" by (simp add: recovered_row_def clear_processing_def)
  from assms(1) obtain s1 where one: "step W (Recover now) s0 s1" and rest: "steps W ls s1 s"
    by (auto elim: steps_ConsE)
  from one have s1: "s1 = s0\<lparr>store := snd (runTransactionRecoveryOnce (w_stale W) now (store s0))\<rparr>" by cases
  let ?P = "\<lambda>s. sys_inv s \<and> nobody_claims tid s \<and> getTransaction tid (store s) = Some ?r \<and>
    e \<in> set (outbox_events (store s))"
  have "getTransaction tid (store s1) = Some ?r"
    using assms(4,5) by (simp add: s1 runTransactionRecoveryOnce_def recover_get)
  moreover have "e \<in> set (outbox_events (store s1))"
    using assms(6) by (simp add: s1 runTransactionRecoveryOnce_def frame_others(1) [OF frame_lifecycle(4)])
  ultimately have first: "?P s1"
    using sys_inv_step [OF one assms(2,3)] assms(9) by (simp add: s1 nobody_claims_def)
  have "?P s3" if "l \<in> set ls" "step W l s2 s3" "?P s2" for l s2 s3
  proof -
    have "nobody_claims tid s3"
      by (rule nobody_claims_step [OF that(2) _ assms(3)]) (use that(1,3) assms(10) in blast)+
    moreover have "getTransaction tid (store s3) = Some ?r \<and> e \<in> set (outbox_events (store s3))"
      by (rule untouched_step [OF that(2) _ _ _ st _ assms(8)]) (use that(1,3) assms(11,12) in blast)+
    ultimately show ?thesis using sys_inv_step [OF that(2) _ assms(3)] that(3) by blast
  qed
  then have "?P s" using steps_invariant [OF rest, of ?P] first by blast
  moreover from this have "distinct (map ob_txn_id (outbox_events (store s)))"
    by (simp add: sys_inv_def store_inv_def)
  ultimately show ?thesis using assms(7) filter_key_single [of ob_txn_id "outbox_events (store s)" e] by blast
qed

text \<open>The worker goes silent, recovery takes its transaction back, its late outcome is refused and
  the outbox finds nothing to send.\<close>

theorem recovered_waits_witness:
  "\<exists>s0 s row. steps sample_world [Deliver 0 ''w'' (queued_sample (JNum (Fin 5))), Read 0 5, Take 0 6] sample_sys s0 \<and>
     holder (store s0) ''t'' = Some ''w'' \<and>
     steps sample_world [Recover 9000000, Settle 0 (5, 5) 9000001, ClaimEvents 10 ''p'' (\<lambda>_. False) 9000002] s0 s \<and>
     getTransaction ''t'' (store s) = Some row \<and> txn_status row = ''ACCEPTED'' \<and>
     filter (\<lambda>e. ob_txn_id e = ''t'') (outbox_events (store s)) = [sample_event 0 ''SENT'']"
proof -
  let ?job = "queued_sample (JNum (Fin 5))"
  define timeline where "timeline = appendTimeline [] ''PROCESSING'' 5 ''BullMQ worker started processing''"
  have names: "job_names ?job ''t''" by (rule queued_sample_names) simp_all
  have inv: "sys_inv sample_sys" "runs sample_sys 0 = None" using sample_sys_started by (simp_all add: started_def)
  let ?claimed = "claim_txn (Some (JArr timeline)) (w_lease sample_world) 6 ''t'' ''w'' (store sample_sys)"
  obtain s0 where run: "steps sample_world [Deliver 0 ''w'' ?job, Read 0 5, Take 0 6] sample_sys s0"
    and r0: "runs s0 0 = Some \<lparr>run_worker = ''w'', run_job = ?job, run_txn = Some ''t'',
      run_phase = Working (job_data ?job) ''t'' timeline, run_beat = \<lparr>timer_on = True, heartbeatRunning = False\<rparr>\<rparr>" (is "_ = Some ?run")
    and d: "store s0 = snd ?claimed" and held: "holder (store s0) ''t'' = Some ''w''"
    by (rule run_to_claim [OF sample_world_simps(3) names inv sample_sys_row sample_db_row(3,4) timeline_def])
  let ?row = "set_processing ''w'' (Some (JArr timeline)) (w_lease sample_world) 6 (sample_row ''t'' ''ACCEPTED'')"
  have row: "getTransaction ''t'' (store s0) = Some ?row"
    using sample_sys_row sample_db_row(3) [of "''ACCEPTED''"]
    by (simp add: d claim_txn_def as_update_one case_prod_beta update_one_get)
  have over: "expired (w_stale sample_world) 9000000 ?row"
    by (simp add: expired_def set_processing_def coalesce_def sample_world_def millis_def)
  have "lifecycle_frame (store sample_sys) (store s0)"
    by (simp add: d claim_txn_def case_prod_beta frame_lifecycle)
  then have "outbox_events (store s0) = [sample_event 0 ''SENT'']"
    by (simp add: frame_others(1)) (simp add: sample_sys_def)
  then have event: "sample_event 0 ''SENT'' \<in> set (outbox_events (store s0))"
    "ob_txn_id (sample_event 0 ''SENT'') = ''t''" "ob_status (sample_event 0 ''SENT'') = ''SENT''"
    by (simp_all add: sample_event_def)
  have others: "runs s0 j = None" if "j \<noteq> 0" for j
    by (rule unstarted_steps [OF run]) (use that in \<open>simp_all add: sample_sys_def\<close>)
  have past: "nobody_claims ''t'' s0"
    unfolding nobody_claims_def
  proof (intro allI impI)
    fix i r assume "runs s0 i = Some r"
    then show "foreign_run ''t'' r \<or> past_claim (run_phase r)" using r0 others by (cases "i = 0") auto
  qed
  let ?s1 = "s0\<lparr>store := snd (runTransactionRecoveryOnce (w_stale sample_world) 9000000 (store s0))\<rparr>"
  obtain u where "settlement timeline 5 5 (decide (config_of (w_env sample_world)) (job_data ?job)) = Inr (u, ''COMPLETED'')"
    by (rule sample_settlement)
  then obtain res db where settled: "settle_step (config_of (w_env sample_world)) ''w'' (5, 5) 9000001 (job_data ?job) ''t'' timeline
      (store ?s1) = (Inr res, db)"
    by (simp add: settle_step_def case_prod_beta)
  let ?s2 = "with_run 0 (?run\<lparr>run_phase := Ended res\<rparr>) (?s1\<lparr>store := db\<rparr>)"
  have "step sample_world (Settle 0 (5, 5) 9000001) ?s1 ?s2"
    using r0 settled by (intro step.settle) simp_all
  then obtain s where steps: "steps sample_world
      [Recover 9000000, Settle 0 (5, 5) 9000001, ClaimEvents 10 ''p'' (\<lambda>_. False) 9000002] s0 s"
    using steps.more_steps [OF step.recover steps.more_steps [OF _ steps.more_steps [OF step.claim_events steps.no_step]]]
    by blast
  from recovered_waits [OF steps inv(1) [THEN sys_inv_steps [OF run _ sample_world_simps(3)]] sample_world_simps(3) row over event past]
  have "getTransaction ''t'' (store s) = Some (recovered_row 9000000 ?row) \<and>
      filter (\<lambda>e. ob_txn_id e = ''t'') (outbox_events (store s)) = [sample_event 0 ''SENT'']" by simp
  then show ?thesis using run held steps
    by (intro exI [of _ s0] exI [of _ s] exI [of _ "recovered_row 9000000 ?row"])
      (simp add: recovered_row_def clear_processing_def)
qed

text \<open>C7: An outcome can be lost after it was stored. If the statement that stores it is executed but
  its answer never arrives, the run fails although the transaction is done, and unless it was
  the last attempt the listener puts the transaction back to waiting: it will be processed a
  second time.\<close>

theorem stored_outcome_reopened:
  assumes "step W (SettleUnknown i ms now m) s s1" and "step W (Report i (Some tid) now') s1 s2"
    and "pg_laws (w_pg W)" and "runs s i = Some r" and "run_phase r = Working txn tid timeline"
    and "job_names (run_job r) tid" and "job_remaining (run_job r)"
    and "getTransaction tid (store s) = Some row" and "owns (run_worker r) row"
  shows "stage_of tid (store s1) \<in> {Done ''COMPLETED'', Done ''DECLINED''} \<and> stage_of tid (store s2) = Waiting"
proof -
  let ?r = "r\<lparr>run_phase := Thrown (DbError m)\<rparr>"
  from assms(1) obtain res db where
    settled: "settle_step (config_of (w_env W)) (run_worker r) ms now txn tid timeline (store s) = (Inr res, db)"
    and s1: "s1 = with_run i ?r (s\<lparr>store := db\<rparr>)"
    by cases (use assms(4,5) in auto)
  from settled obtain u st where
    u: "settlement timeline (fst ms) (snd ms) (decide (config_of (w_env W)) txn) = Inr (u, st)"
    and db: "db = snd (update_one tid (owns (run_worker r)) (\<lambda>r. clear_processing (apply_updates u now r)) (store s))"
    by (rule settle_stepE)
  let ?row = "clear_processing (apply_updates u now row)"
  have row: "getTransaction tid db = Some ?row" using assms(8,9) by (simp add: db update_one_get)
  have st: "st \<in> {''COMPLETED'', ''DECLINED''}" "txn_status ?row = st"
    using u by (auto simp: settlement_def clear_processing_def apply_updates_def non_empty_def coalesce_val_def
        split: decision.splits)
  then have one: "stage_of tid (store s1) = Done st" using row by (auto simp: s1 stage_of_def row_stage_def)
  from assms(2) obtain message where
    "store s2 = reset_transaction (w_pg W) (run_job r) ''ACCEPTED'' message now' db"
    by cases (use s1 in auto)
  then have "getTransaction tid (store s2) =
      Some (reset_row ''ACCEPTED'' (redact message) (job_attemptsMade (run_job r)) now' ?row)"
    using row by (simp add: reset_transaction_get [OF assms(3,6)])
  then show ?thesis using one st(1) by (simp add: stage_of_def row_stage_def)
qed

theorem stored_outcome_reopened_witness:
  "\<exists>s0 s1 s2. steps sample_world [Deliver 0 ''w'' (queued_sample (JNum (Fin 5))), Read 0 5, Take 0 6] sample_sys s0 \<and>
    step sample_world (SettleUnknown 0 (5, 5) 6 ''gone'') s0 s1 \<and> step sample_world (Report 0 (Some ''t'') 7) s1 s2 \<and>
    stage_of ''t'' (store s2) = Waiting"
proof -
  let ?job = "queued_sample (JNum (Fin 5))"
  define timeline where "timeline = appendTimeline [] ''PROCESSING'' 5 ''BullMQ worker started processing''"
  have names: "job_names ?job ''t''" by (rule queued_sample_names) simp_all
  have inv: "sys_inv sample_sys" "runs sample_sys 0 = None" using sample_sys_started by (simp_all add: started_def)
  obtain s0 where run: "steps sample_world [Deliver 0 ''w'' ?job, Read 0 5, Take 0 6] sample_sys s0"
    and r0: "runs s0 0 = Some \<lparr>run_worker = ''w'', run_job = ?job, run_txn = Some ''t'',
      run_phase = Working (job_data ?job) ''t'' timeline, run_beat = \<lparr>timer_on = True, heartbeatRunning = False\<rparr>\<rparr>" (is "_ = Some ?r")
    and held: "holder (store s0) ''t'' = Some ''w''"
    by (rule run_to_claim [OF sample_world_simps(3) names inv sample_sys_row sample_db_row(3,4) timeline_def])
  obtain row where row: "getTransaction ''t'' (store s0) = Some row" "owns ''w'' row"
    using held by (auto simp: holder_def owns_def split: option.splits if_splits)
  obtain u where u: "settlement timeline 5 5 (decide (config_of (w_env sample_world)) (job_data ?job)) = Inr (u, ''COMPLETED'')"
    by (rule sample_settlement)
  then obtain res db where "settle_step (config_of (w_env sample_world)) ''w'' (5, 5) 6 (job_data ?job) ''t'' timeline (store s0) = (Inr res, db)"
    by (simp add: settle_step_def case_prod_beta)
  then have one: "step sample_world (SettleUnknown 0 (5, 5) 6 ''gone'') s0
      (with_run 0 (?r\<lparr>run_phase := Thrown (DbError ''gone'')\<rparr>) (s0\<lparr>store := db\<rparr>))" (is "step _ _ _ ?s1")
    using r0 by (intro step.settle_unknown) simp_all
  have job: "job_txn_id sample_pg ?job = Some ''t''" using job_names_txn [OF sample_pg_laws names] .
  have "runs ?s1 0 = Some (?r\<lparr>run_phase := Thrown (DbError ''gone'')\<rparr>)" by simp
  have "job_remaining ?job" by (simp add: job_remaining_def queued_sample_def)
  with step.report_retry [OF \<open>runs ?s1 0 = _\<close>, of "DbError ''gone''" sample_world 7] obtain s2
    where two: "step sample_world (Report 0 (Some ''t'') 7) ?s1 s2" by (auto simp: job)
  with \<open>job_remaining ?job\<close> stored_outcome_reopened [OF one two sample_world_simps(3) r0 _ _ _ row(1)] names row(2)
  have "stage_of ''t'' (store s2) = Waiting" by simp
  with run one two show ?thesis by blast
qed

end
