(* ===== verification/EndToEnd.thy ===== *)
theory EndToEnd
  imports System
begin

text \<open>
  One payment on its way through the whole program, when nothing fails and nobody
  interferes: accepted by the API, handed over by the outbox, processed by a worker.
\<close>

section \<open>The event of an accepted payment\<close>

text \<open>A pass of the outbox processor over one pending event after any number of sent ones.\<close>

definition all_sent :: "outbox_row list \<Rightarrow> bool" where
  "all_sent es \<longleftrightarrow> (\<forall>e \<in> set es. ob_status e = ''SENT'')"

lemma update_outbox_none: "(\<And>e. e \<in> set (outbox_events db) \<Longrightarrow> \<not> p e) \<Longrightarrow> update_outbox p f db = db"
  by (simp add: update_outbox_def update_where_none)

lemma pending_one:
  assumes "all_sent es" and "outbox_events db = es @ [e]" and "ob_status e = ''PENDING''"
  shows "pending_events None (\<lambda>_. False) db = [e]"
proof -
  have "filter (\<lambda>e. ob_status e = ''PENDING'' \<and> eligible None e) es = []"
    using assms(1) by (auto simp: all_sent_def filter_empty_conv)
  with assms show ?thesis by (simp add: pending_events_def eligible_def)
qed

lemma process_one_event:
  assumes "all_sent es" and "outbox_events db = es @ [e]" and "ob_status e = ''PENDING''"
  shows "processOutboxEvents (\<lambda>j q. q @ [j]) (\<lambda>_. smooth t) stale m p (\<lambda>_. False) clock (q, db) =
    (None, q @ [queued_job e],
     update_outbox (\<lambda>r. ob_id r = ob_id e) (settled (smooth t))
       (update_outbox (\<lambda>r. ob_id r \<in> {ob_id e}) (claim_event p (snd clock)) db))"
proof -
  have none: "\<not> stale_event stale None (fst clock) d" if "d \<in> set (outbox_events db)" for d
    using that assms by (auto simp: stale_event_def all_sent_def)
  have "snd (recoverStaleOutboxEvents stale m None (fst clock) db) = db"
    by (simp add: recoverStaleOutboxEvents_def Let_def update_outbox_none none)
  moreover have "claimOutboxEvents 10 p None (\<lambda>_. False) (snd clock) db =
      ([e], update_outbox (\<lambda>r. ob_id r \<in> {ob_id e}) (claim_event p (snd clock)) db)"
    by (simp add: claimOutboxEvents_def pending_one [OF assms] Let_def)
  ultimately show ?thesis
    by (simp add: processOutboxEvents_def send_event_settles smooth_def added_def)
qed

section \<open>The data the worker sees\<close>

lemma payload_field:
  assumes "sanitizeTransactionForPersistence hmac env (full_transaction txnId client key hash v ms) = Inr safe"
    and "to_json safe = Some payload"
    and "field (full_transaction txnId client key hash v ms) k = w" "is_json w" "removeSensitiveFields w = w"
    and "\<not> derived_key k" "\<not> sensitive_key k" "k \<noteq> ''__proto__''"
  shows "field payload k = w"
proof -
  obtain ps where safe: "safe = JObj ps" "ordered_props ps" using assms(1) by (rule full_saved_object)
  have "prop_of ps k = w" using saved_field [OF assms(1,3,6-8)] assms(5) safe by simp
  with assms(2,4) safe show ?thesis
    by (auto simp: prop_of_json_props ordered_distinct to_json_id)
qed

lemma payload_object:
  assumes "sanitizeTransactionForPersistence hmac env (full_transaction txnId client key hash v ms) = Inr safe"
    and "to_json safe = Some payload"
  shows "is_object payload" "clean payload" "well_ordered payload"
proof -
  obtain ps where safe: "safe = JObj ps" using assms(1) by (rule full_saved_object)
  with assms(2) show "is_object payload" by auto
  show "clean payload" using clean_to_json [OF assms(2) sanitized_clean(1) [OF assms(1)]] .
  show "well_ordered payload" using well_ordered_to_json [OF assms(2) sanitized_clean(2) [OF assms(1)]] .
qed

text \<open>A validated payment has a numeric amount, a known type, a known channel and a route.\<close>

lemma validated_fields:
  assumes "validateTransaction (config_of env) txn = Inr (Valid v)" and "distinct (map fst (own_props txn))"
  obtains a ty where "field v ''amount'' = JNum a" "is_finite a" "field v ''type'' = JStr ty"
    and "field v ''issuerType'' = JStr ''INTERNAL'' \<or>
      field v ''issuerType'' = JStr ''EXTERNAL'' \<and>
      (\<exists>n \<in> {''EXTERNAL_PROCESSOR'', ''CARD_NETWORK''}. field v ''network'' = JStr n)"
    and "distinct (map fst (own_props v))" "\<And>k. prop_of (own_props v) k = field v k"
    and "ty \<in> {''PURCHASE'', ''CASH_WITHDRAWAL'', ''BALANCE_INQUIRY'', ''REVERSAL''}"
    and "ty = ''BALANCE_INQUIRY'' \<or> \<not> a \<le> Fin 0" and "\<not> transactionLimit (config_of env) < a"
    and "\<exists>c \<in> {''DOMESTIC_ATM'', ''INTERNATIONAL_ATM'', ''DOMESTIC_POS'', ''INTERNATIONAL_POS'', ''ECOM''}.
      field v ''channel'' = JStr c"
proof -
  obtain a where ok: "acceptable (config_of env) txn a"
    and v: "v = JObj (spread [] (own_props txn @ [(''amount'', JNum a), (''type'', field txn ''type'')]))"
    using assms(1) by (rule validated_props)
  obtain ps where ps: "txn = JObj ps" using ok by (rule acceptable_is_object)
  have get: "field v k = (if k = ''type'' then field txn ''type'' else if k = ''amount'' then JNum a
      else field txn k)" for k
    using map_of_object_literal [of "ps @ [(''amount'', JNum a), (''type'', field txn ''type'')]"] assms(2)
    by (simp add: v ps prop_of_def object_literal_def map_of_rev_distinct)
  have "own_props v = spread [] (own_props txn @ [(''amount'', JNum a), (''type'', field txn ''type'')])"
    by (simp add: v)
  have own_field: "prop_of (own_props v) k = field v k" for k by (simp add: v)
  from \<open>own_props v = _\<close> have own: "distinct (map fst (own_props v))" by (simp only:) (simp add: distinct_spread)
  have "js_includes (supportedTransactionTypes (config_of env)) (field txn ''type'')"
    using ok by (simp only: acceptable_def)
  then obtain ty where ty: "field txn ''type'' = JStr ty"
    "ty \<in> {''PURCHASE'', ''CASH_WITHDRAWAL'', ''BALANCE_INQUIRY'', ''REVERSAL''}"
    by (auto simp: js_includes_iff)
  have issuer: "field txn ''issuerType'' = JStr ''INTERNAL'' \<or>
      field txn ''issuerType'' = JStr ''EXTERNAL'' \<and>
      (\<exists>n \<in> {''EXTERNAL_PROCESSOR'', ''CARD_NETWORK''}. field txn ''network'' = JStr n)"
    using ok by (auto simp: acceptable_def js_includes_iff split: if_splits)
  have fin: "is_finite a" and pos: "ty = ''BALANCE_INQUIRY'' \<or> \<not> a \<le> Fin 0"
    using ok ty by (auto simp: acceptable_def)
  have limit: "\<not> transactionLimit (config_of env) < a" using ok by (auto simp: acceptable_def)
  have channel: "\<exists>c \<in> {''DOMESTIC_ATM'', ''INTERNATIONAL_ATM'', ''DOMESTIC_POS'', ''INTERNATIONAL_POS'', ''ECOM''}.
      field txn ''channel'' = JStr c"
    using ok by (auto simp: acceptable_def js_includes_iff)
  show thesis
    by (rule that [of a ty]) (use own issuer ty fin pos limit channel in \<open>simp_all add: own_field get\<close>)
qed

lemma issuer_cases:
  assumes "field v ''issuerType'' = JStr ''INTERNAL'' \<or>
      field v ''issuerType'' = JStr ''EXTERNAL'' \<and>
      (\<exists>n \<in> {''EXTERNAL_PROCESSOR'', ''CARD_NETWORK''}. field v ''network'' = JStr n)"
    and "field v ''amount'' = JNum a" and "field v ''type'' = JStr ty"
  shows "decide cfg v = decision_table cfg a ty (field v ''pinVerified'' = JBool True) (issuer_network v)"
proof (cases "field v ''issuerType'' = JStr ''INTERNAL''")
  case True
  with decide_internal [OF assms(2,3) True] show ?thesis by (simp add: issuer_network_def)
next
  case False
  with assms(1) obtain n where "field v ''issuerType'' = JStr ''EXTERNAL''" "field v ''network'' = JStr n"
    "n \<in> {''EXTERNAL_PROCESSOR'', ''CARD_NETWORK''}" by blast
  with decide_external [OF assms(2,3)] show ?thesis by (simp add: issuer_network_def)
qed

text \<open>The decision on the stored payload is the table's, on the fields of the request.\<close>

definition pin_ok :: "jsval \<Rightarrow> bool" where
  "pin_ok v \<longleftrightarrow> (field v ''issuerType'' = JStr ''INTERNAL'' \<and> field v ''type'' \<noteq> JStr ''BALANCE_INQUIRY'' \<longrightarrow>
     field v ''pin'' = JStr ''TEST_PIN'')"

lemma payload_decision:
  assumes "validateTransaction (config_of env) txn = Inr (Valid v)" and "distinct (map fst (own_props txn))"
    and safe: "sanitizeTransactionForPersistence hmac env (full_transaction txnId client key hash v ms) = Inr safe"
      "to_json safe = Some payload"
    and "field v ''amount'' = JNum a" and "field v ''type'' = JStr ty"
  shows "decide cfg payload = decision_table cfg a ty (pin_ok v) (issuer_network v)"
proof -
  obtain a' ty' where fields: "field v ''amount'' = JNum a'" "is_finite a'" "field v ''type'' = JStr ty'"
    and issuer: "field v ''issuerType'' = JStr ''INTERNAL'' \<or>
      field v ''issuerType'' = JStr ''EXTERNAL'' \<and>
      (\<exists>n \<in> {''EXTERNAL_PROCESSOR'', ''CARD_NETWORK''}. field v ''network'' = JStr n)"
    and own: "distinct (map fst (own_props v))" "\<And>k. prop_of (own_props v) k = field v k"
    by (rule validated_fields [OF assms(1,2)]) blast
  have a: "is_finite a" using fields assms(5) by simp
  have kept: "field payload k = w"
    if "k \<in> {''amount'', ''type'', ''issuerType'', ''network''}" "field v k = w" "is_json w" "removeSensitiveFields w = w"
    for k w
  proof (rule payload_field [OF safe])
    show "field (full_transaction txnId client key hash v ms) k = w"
      using that own by (auto simp: full_other_field reserved_keys_def server_keys_def)
  qed (use that in \<open>auto simp: derived_key_def sensitive_key_def\<close>)
  have pin: "field payload ''pinVerified'' = JBool (pin_ok v)"
    by (rule payload_field [OF safe])
      (simp_all add: full_pinVerified pin_ok_def derived_key_def sensitive_key_def)
  have num: "field payload ''amount'' = JNum a" "field payload ''type'' = JStr ty"
    using assms(5,6) a by (simp_all add: kept)
  have route: "field payload ''issuerType'' = JStr ''INTERNAL'' \<or>
      field payload ''issuerType'' = JStr ''EXTERNAL'' \<and>
      (\<exists>n \<in> {''EXTERNAL_PROCESSOR'', ''CARD_NETWORK''}. field payload ''network'' = JStr n)"
    and same: "issuer_network payload = issuer_network v"
    using issuer kept [of "''issuerType''"] kept [of "''network''"] by (auto simp: issuer_network_def)
  show ?thesis
    using issuer_cases [OF route num, of cfg] pin same by simp
qed

section \<open>From the request to the final row\<close>

definition outcome_status :: "decision \<Rightarrow> string" where
  "outcome_status d = (case d of Complete _ _ \<Rightarrow> ''COMPLETED'' | Throw _ \<Rightarrow> ''FAILED'' | _ \<Rightarrow> ''DECLINED'')"

lemma settlement_of:
  assumes "\<And>e. d \<noteq> Throw e"
  obtains u where "settlement timeline ms ms' d = Inr (u, outcome_status d)"
  using assms by (cases d) (auto simp: settlement_def outcome_status_def)

lemma outbox_transactions:
  "getTransaction tid (update_outbox p f db) = getTransaction tid db"
  by (simp add: getTransaction_def update_outbox_def)

lemma update_outbox_unique: "unique_txn_ids (update_outbox p f db) = unique_txn_ids db"
  by (simp add: unique_txn_ids_def update_outbox_def)

lemma accepted_payment_runs:
  assumes pg: "pg_laws pg" and inv: "store_inv db" "all_sent (outbox_events db)"
      "txnId \<notin> ob_txn_id ` set (outbox_events db)" "txnId \<noteq> []"
    and body: "unreserved txn" "distinct (map fst (own_props txn))" "client \<noteq> []" "\<And>t. sha256 t \<noteq> []"
    and valid: "validateTransaction (config_of env) txn = Inr (Valid v)"
      "field v ''amount'' = JNum a" "field v ''type'' = JStr ty"
    and calm_decision: "\<And>e. decision_table (config_of env) a ty (pin_ok v) (issuer_network v) \<noteq> Throw e"
    and paid: "pay hmac sha256 env pg txnId ms now client hdr txn db = (accepted_answer txnId, db1)"
  obtains job db2 db3 r where
    "processOutboxEvents (\<lambda>j q. q @ [j]) (\<lambda>_. smooth t) stale m p (\<lambda>_. False) clock ([], db1) = (None, [job], db2)"
    "job_id job = txnId"
    "handleTransactionJob hmac env pg leaseMs w (calm ms' now') job db2 =
      (Inr (Finished (outcome_status (decision_table (config_of env) a ty (pin_ok v) (issuer_network v)))), db3)"
    "getTransaction txnId db3 = Some r"
    "txn_status r = outcome_status (decision_table (config_of env) a ty (pin_ok v) (issuer_network v))"
    "processor_instance_id r = None" "lease_expires_at r = None" "client_id r = Some client"
proof -
  from paid show thesis
  proof (cases rule: pay_cases)
    case refused
    then show thesis by simp
  next
    case (accepted key fullTxn row payload)
    obtain hash v' where v': "validateTransaction (config_of env) txn = Inr (Valid v')"
      and safe: "sanitizeTransactionForPersistence hmac env (full_transaction txnId client key hash v' ms) = Inr fullTxn"
      using accepted(3) by (rule check_payment_saved)
    have "v' = v" using v' valid(1) by simp
    note safe = safe [unfolded this]
    have ids: "txn_id row = txnId" "client_id row = Some client"
      using accepted_row_identity [OF accepted(3,5) pg body(1,3) accepted(2) body(4)] by metis+
    note fresh = accepted_row [OF accepted(3,5) pg]
    let ?e = "new_event (outbox_seq db) now txnId payload"
    have events: "outbox_events db1 = outbox_events db @ [?e]"
      using inv(3) outbox_insert_new [of txnId "db\<lparr>transactions := transactions db @ [row], txn_seq := txn_seq db + 1\<rparr>"]
      by (simp add: accepted(9) ids)
    define db2 where "db2 = update_outbox (\<lambda>r. ob_id r = ob_id ?e) (settled (smooth t))
       (update_outbox (\<lambda>r. ob_id r \<in> {ob_id ?e}) (claim_event p (snd clock)) db1)"
    have run: "processOutboxEvents (\<lambda>j q. q @ [j]) (\<lambda>_. smooth t) stale m p (\<lambda>_. False) clock ([], db1) =
        (None, [queued_job ?e], db2)"
      unfolding db2_def using process_one_event [OF inv(2) events] by simp
    have names: "job_names (queued_job ?e) txnId"
    proof -
      have "field payload ''id'' = JStr txnId"
        by (rule payload_field [OF safe accepted(8)])
          (simp_all add: full_reserved_fields [OF validated_unreserved [OF valid(1) body(1)]]
            derived_key_def sensitive_key_def)
      moreover obtain ps where "payload = JObj ps"
        using full_saved_object [OF safe] accepted(8) by (metis option.inject to_json_JObj)
      ultimately show ?thesis
        using payload_object [OF safe accepted(8)] inv(4) by (simp add: job_names_def queued_job_def)
    qed
    have tables: "transactions db1 = transactions db @ [row]" using accepted_tables(1) [OF accepted(9)] .
    have "store_inv db1" using pay_store_inv [OF inv(1)] paid by (metis snd_conv)
    then have unique: "unique_txn_ids db2"
      by (simp add: db2_def update_outbox_unique store_inv_unique)
    have "find_row txn_id txnId (transactions db) = None"
      using accepted(7) ids(1) by (simp add: find_row_None txn_ids_def)
    then have "getTransaction txnId db1 = Some row"
      using ids(1) tables by (simp add: getTransaction_def find_row_append)
    then have get: "getTransaction txnId db2 = Some row"
      by (simp add: db2_def outbox_transactions)
    let ?d = "decision_table (config_of env) a ty (pin_ok v) (issuer_network v)"
    let ?tl = "appendTimeline [timeline_entry ''ACCEPTED'' ms ''Transaction accepted by API'']
      ''PROCESSING'' ms' ''BullMQ worker started processing''"
    obtain u where u: "settlement ?tl ms' ms' ?d = Inr (u, outcome_status ?d)"
      using settlement_of calm_decision by blast
    have "decide (config_of env) (job_data (queued_job ?e)) = ?d"
      using payload_decision [OF valid(1) body(2) safe accepted(8) valid(2,3)] by (simp add: queued_job_def)
    with u have settle: "settlement ?tl ms' ms' (decide (config_of env) (job_data (queued_job ?e))) =
        Inr (u, outcome_status ?d)" by simp
    note calm = calm_run [OF pg names unique get fresh(1) fresh(5) settle, where hmac = hmac and leaseMs = leaseMs and w = w and now = now']
    let ?db3 = "snd (handleTransactionJob hmac env pg leaseMs w (calm ms' now') (queued_job ?e) db2)"
    let ?r = "clear_processing (apply_updates u now' (set_processing w (Some (JArr ?tl)) leaseMs now' row))"
    have "u_status u = Some (outcome_status ?d)" "outcome_status ?d \<in> set FINAL_STATUSES"
      using settlement_finishing [OF u] by auto
    then have st: "txn_status ?r = outcome_status ?d"
      by (auto simp: clear_processing_def apply_updates_def non_empty_def coalesce_val_def FINAL_STATUSES_def)
    have cl: "client_id ?r = Some client" "processor_instance_id ?r = None" "lease_expires_at ?r = None"
      using ids by (simp_all add: clear_processing_def apply_updates_def set_processing_def)
    show thesis
    proof (rule that [OF run])
      show "job_id (queued_job ?e) = txnId" by (simp add: queued_job_def)
      show "handleTransactionJob hmac env pg leaseMs w (calm ms' now') (queued_job ?e) db2 =
        (Inr (Finished (outcome_status ?d)), ?db3)" using calm(1) by (simp add: prod_eq_iff)
      show "getTransaction txnId ?db3 = Some ?r" using calm(2) [of txnId] by simp
    qed (use st cl in auto)
  qed
qed

section \<open>Properties\<close>

text \<open>C21: For every payment the validator accepts, whatever the worker decides on the stored and
  queued payload, after card data and PIN have been removed from it, is what the table of the
  simulator says for the amount, the type, the PIN and the network of the original request;
  and the issuer is internal or one of the two supported networks.\<close>

theorem validated_payment_decided:
  assumes "validateTransaction (config_of env) txn = Inr (Valid v)" and "distinct (map fst (own_props txn))"
    and "sanitizeTransactionForPersistence hmac env (full_transaction txnId client key hash v ms) = Inr safe"
    and "to_json safe = Some payload"
  shows "\<exists>a ty. field v ''amount'' = JNum a \<and> field v ''type'' = JStr ty \<and>
    decide cfg payload = decision_table cfg a ty (pin_ok v) (issuer_network v) \<and>
    issuer_network v \<in> {None, Some ''EXTERNAL_PROCESSOR'', Some ''CARD_NETWORK''}"
proof -
  obtain a ty where fields: "field v ''amount'' = JNum a" "field v ''type'' = JStr ty"
    and issuer: "field v ''issuerType'' = JStr ''INTERNAL'' \<or>
      field v ''issuerType'' = JStr ''EXTERNAL'' \<and>
      (\<exists>n \<in> {''EXTERNAL_PROCESSOR'', ''CARD_NETWORK''}. field v ''network'' = JStr n)"
    by (rule validated_fields [OF assms(1,2)]) blast
  have "issuer_network v \<in> {None, Some ''EXTERNAL_PROCESSOR'', Some ''CARD_NETWORK''}"
    using issuer by (auto simp: issuer_network_def)
  with payload_decision [OF assms fields] fields show ?thesis by blast
qed

lemma plain_body_distinct: "distinct (map fst (own_props plain_body))"
  by (simp add: plain_body_def)

theorem validated_payment_decided_witness:
  "\<exists>v payload a ty. decide (config_of sample_env) payload =
     decision_table (config_of sample_env) a ty (pin_ok v) (issuer_network v)"
proof -
  obtain fullTxn where "check_payment (\<lambda>s d. ''f'') (\<lambda>t. ''h2'') sample_env ''id2'' 0 ''client'' ''k'' plain_body =
      Inr (Inr fullTxn)"
    using plain_body_checked by blast
  then obtain hash v where v: "validateTransaction (config_of sample_env) plain_body = Inr (Valid v)"
    and safe: "sanitizeTransactionForPersistence (\<lambda>s d. ''f'') sample_env
      (full_transaction ''id2'' ''client'' ''k'' hash v 0) = Inr fullTxn"
    by (rule check_payment_saved)
  obtain payload where "to_json fullTxn = Some payload"
    using full_saved_object [OF safe] by (metis to_json_JObj)
  from validated_payment_decided [OF v plain_body_distinct safe this, of "config_of sample_env"] show ?thesis by blast
qed

text \<open>C1: One payment through the whole program, when nothing fails and nobody interferes. When a
  payment is accepted on consistent tables whose earlier events have all been sent, one pass of
  the outbox hands exactly one job, with the answered id, to the queue, and a worker that then
  runs this job stores the outcome of the decision table for the request: the transaction ends
  in that status and without a lease. The body must name none of the members the server sets
  itself (\<open>unreserved\<close>; otherwise the body may name another owner): then the row is under the client
  that paid. Payments whose processing throws (the simulated failure of amount 999) are excluded.\<close>

theorem payment_end_to_end:
  assumes "pg_laws pg" and "store_inv db" and "all_sent (outbox_events db)"
    and "txnId \<notin> ob_txn_id ` set (outbox_events db)" and "txnId \<noteq> []"
    and "unreserved txn" and "distinct (map fst (own_props txn))" and "client \<noteq> []" and "\<And>t. sha256 t \<noteq> []"
    and "validateTransaction (config_of env) txn = Inr (Valid v)"
    and "field v ''amount'' = JNum a" and "field v ''type'' = JStr ty"
    and "\<And>e. decision_table (config_of env) a ty (pin_ok v) (issuer_network v) \<noteq> Throw e"
    and "pay hmac sha256 env pg txnId ms now client hdr txn db = (accepted_answer txnId, db1)"
  shows "\<exists>job db2 db3 r.
    processOutboxEvents (\<lambda>j q. q @ [j]) (\<lambda>_. smooth t) stale m p (\<lambda>_. False) clock ([], db1) = (None, [job], db2) \<and>
    job_id job = txnId \<and>
    handleTransactionJob hmac env pg leaseMs w (calm ms' now') job db2 =
      (Inr (Finished (outcome_status (decision_table (config_of env) a ty (pin_ok v) (issuer_network v)))), db3) \<and>
    getTransaction txnId db3 = Some r \<and>
    txn_status r = outcome_status (decision_table (config_of env) a ty (pin_ok v) (issuer_network v)) \<and>
    processor_instance_id r = None \<and> lease_expires_at r = None \<and> client_id r = Some client"
  by (rule accepted_payment_runs [where t = t and stale = stale and m = m and p = p and clock = clock and
      leaseMs = leaseMs and w = w and ms' = ms' and now' = now', OF assms]) blast

lemma plain_body_valid:
  obtains v where "validateTransaction (config_of sample_env) plain_body = Inr (Valid v)"
    and "field v ''amount'' = JNum (Fin 5)" and "field v ''type'' = JStr ''PURCHASE''"
    and "issuer_network v = None" and "\<not> pin_ok v"
proof -
  have "case validateTransaction (config_of sample_env) plain_body of
      Inr (Valid v) \<Rightarrow> field v ''amount'' = JNum (Fin 5) \<and> field v ''type'' = JStr ''PURCHASE'' \<and>
        issuer_network v = None \<and> \<not> pin_ok v | _ \<Rightarrow> False"
    by code_simp
  then show thesis using that by (auto split: sum.splits validation.splits)
qed

lemma plain_pay_accepted:
  "fst (pay (\<lambda>s d. ''f'') (\<lambda>t. ''h'') sample_env sample_pg ''id'' 0 0 ''client'' (key_header ''k'') plain_body empty_db) =
    accepted_answer ''id''"
  by code_simp

theorem payment_end_to_end_witness:
  "\<exists>job db2 db3 r. handleTransactionJob (\<lambda>s d. ''f'') sample_env sample_pg 1000 ''w'' (calm 9 9) job db2 =
      (Inr (Finished ''DECLINED''), db3) \<and> getTransaction ''id'' db3 = Some r \<and> txn_status r = ''DECLINED''"
proof -
  obtain v where v: "validateTransaction (config_of sample_env) plain_body = Inr (Valid v)"
    "field v ''amount'' = JNum (Fin 5)" "field v ''type'' = JStr ''PURCHASE''"
    and out: "issuer_network v = None" "\<not> pin_ok v"
    by (rule plain_body_valid)
  have table: "decision_table (config_of sample_env) (Fin 5) ''PURCHASE'' (pin_ok v) (issuer_network v) =
      Decline ''INTERNAL'' ''Invalid PIN''"
    using out by (simp add: decision_table_def)
  have paid: "pay (\<lambda>s d. ''f'') (\<lambda>t. ''h'') sample_env sample_pg ''id'' 0 0 ''client'' (key_header ''k'') plain_body empty_db =
      (accepted_answer ''id'', snd (pay (\<lambda>s d. ''f'') (\<lambda>t. ''h'') sample_env sample_pg ''id'' 0 0 ''client''
        (key_header ''k'') plain_body empty_db))"
    using plain_pay_accepted by (simp add: prod_eq_iff)
  have empty: "all_sent (outbox_events empty_db)" "''id'' \<notin> ob_txn_id ` set (outbox_events empty_db)"
    by (simp_all add: all_sent_def empty_db_def)
  have body: "unreserved plain_body" by (simp add: unreserved_def reserved_keys_def plain_body_def keys_def)
  have calm: "\<And>e. decision_table (config_of sample_env) (Fin 5) ''PURCHASE'' (pin_ok v) (issuer_network v) \<noteq> Throw e"
    by (simp add: table)
  have status: "outcome_status (Decline ''INTERNAL'' ''Invalid PIN'') = ''DECLINED''" by (simp add: outcome_status_def)
  have strings: "''id'' \<noteq> []" "''client'' \<noteq> []" "\<And>t :: string. ''h'' \<noteq> []" by simp_all
  from payment_end_to_end [where leaseMs = 1000 and w = "''w''" and ms' = 9 and now' = 9,
      OF sample_pg_laws store_inv_empty empty strings(1) body plain_body_distinct strings(2,3) v calm paid]
  show ?thesis unfolding table status by blast
qed

text \<open>C22: What the validator returns is typed: the amount is a finite number, not above the limit and
  positive unless the payment is a balance inquiry, its type is one of the four, its channel one
  of the five, and the issuer is internal, or external with one of the two supported networks.\<close>

theorem validated_types:
  assumes "validateTransaction (config_of env) txn = Inr (Valid v)" and "distinct (map fst (own_props txn))"
  shows "\<exists>a ty. field v ''amount'' = JNum a \<and> is_finite a \<and> a \<le> transactionLimit (config_of env) \<and>
    field v ''type'' = JStr ty \<and>
    ty \<in> {''PURCHASE'', ''CASH_WITHDRAWAL'', ''BALANCE_INQUIRY'', ''REVERSAL''} \<and>
    (ty = ''BALANCE_INQUIRY'' \<or> Fin 0 < a) \<and>
    (\<exists>c \<in> {''DOMESTIC_ATM'', ''INTERNATIONAL_ATM'', ''DOMESTIC_POS'', ''INTERNATIONAL_POS'', ''ECOM''}.
       field v ''channel'' = JStr c) \<and>
    (field v ''issuerType'' = JStr ''INTERNAL'' \<or>
     field v ''issuerType'' = JStr ''EXTERNAL'' \<and>
     (\<exists>n \<in> {''EXTERNAL_PROCESSOR'', ''CARD_NETWORK''}. field v ''network'' = JStr n))"
proof -
  obtain a ty where fields: "field v ''amount'' = JNum a" "is_finite a" "field v ''type'' = JStr ty"
    "field v ''issuerType'' = JStr ''INTERNAL'' \<or>
      field v ''issuerType'' = JStr ''EXTERNAL'' \<and>
      (\<exists>n \<in> {''EXTERNAL_PROCESSOR'', ''CARD_NETWORK''}. field v ''network'' = JStr n)"
    "ty \<in> {''PURCHASE'', ''CASH_WITHDRAWAL'', ''BALANCE_INQUIRY'', ''REVERSAL''}"
    and pos: "ty = ''BALANCE_INQUIRY'' \<or> \<not> a \<le> Fin 0" and limit: "\<not> transactionLimit (config_of env) < a"
    and channel: "\<exists>c \<in> {''DOMESTIC_ATM'', ''INTERNATIONAL_ATM'', ''DOMESTIC_POS'', ''INTERNATIONAL_POS'', ''ECOM''}.
      field v ''channel'' = JStr c"
    by (rule validated_fields [OF assms]) (rule that)
  obtain q where q: "a = Fin q" using fields(2) by (cases a) auto
  have "ty = ''BALANCE_INQUIRY'' \<or> Fin 0 < a" using pos by (auto simp: q)
  moreover have "a \<le> transactionLimit (config_of env)" using limit by (simp add: q limit_not_exceeded)
  ultimately show ?thesis using fields channel by (intro exI [of _ a] exI [of _ ty] conjI)
qed

theorem validated_types_witness:
  "\<exists>v a. validateTransaction (config_of sample_env) plain_body = Inr (Valid v) \<and> field v ''amount'' = JNum a \<and> is_finite a \<and>
    a \<le> transactionLimit (config_of sample_env)"
proof -
  obtain v where "validateTransaction (config_of sample_env) plain_body = Inr (Valid v)" by (rule plain_body_valid)
  with validated_types [OF this plain_body_distinct] show ?thesis by blast
qed

end
