(* ===== verification/NumberText.thy ===== *)
theory NumberText
  imports JsNumber
begin

text \<open>
  Printing a number and reading it back: \<open>Number(String(x))\<close> is \<open>x\<close> for every double. So the
  text of a number names the number, which the text of JSON data needs to name the data.
\<close>

section \<open>Powers\<close>

lemma pow10_power_int: "pow10 e = 10 powi e"
  by (simp add: pow10_def power_int_def power_one_over field_simps)

lemma pow2_power_int: "pow2 e = 2 powi e"
  by (simp add: pow2_def power_int_def power_one_over field_simps)

lemma pow10_add: "pow10 (a + b) = pow10 a * pow10 b"
  by (simp add: pow10_power_int power_int_add)

lemma pow10_pos [simp]: "0 < pow10 e"
  by (simp add: pow10_def)

lemma pow10_nat [simp]: "pow10 (int n) = 10 ^ n"
  by (simp add: pow10_def)

lemma pow10_diff: "pow10 (a - b) * pow10 b = pow10 a"
  by (simp flip: pow10_add)

section \<open>Digits\<close>

lemma read_int_append: "read_int (s @ t) = read_int s * 10 ^ length t + read_int t"
proof (induction t rule: rev_induct)
  case Nil
  then show ?case by (simp add: read_int_def)
next
  case (snoc c t)
  have "read_int (s @ t @ [c]) = read_int (s @ t) * 10 + int (digit_value c)"
    using read_int_snoc [of "s @ t" c] by simp
  then show ?case by (simp add: snoc read_int_snoc algebra_simps)
qed

lemma zero_digit: "digit_value CHR ''0'' = 0" "is_digit CHR ''0''"
  by (simp_all add: digit_value_def is_digit_def)

lemma read_int_zeros [simp]: "read_int (replicate n CHR ''0'') = 0"
proof (induction n)
  case 0
  then show ?case by (simp add: read_int_def)
next
  case (Suc n)
  then show ?case
    using read_int_append [of "[CHR ''0'']" "replicate n CHR ''0''"] by (simp add: read_int_def zero_digit)
qed

lemma read_int_less: "list_all is_digit s \<Longrightarrow> read_int s < 10 ^ length s"
proof (induction s rule: rev_induct)
  case Nil
  then show ?case by (simp add: read_int_def)
next
  case (snoc c s)
  then have "read_int s + 1 \<le> 10 ^ length s" "int (digit_value c) < 10"
    using digit_value_less [of c] by auto
  then show ?case by (simp add: read_int_snoc)
qed

lemma show_int_less: "0 \<le> m \<Longrightarrow> m < 10 ^ length (show_int m)"
  using read_int_less [OF show_int_digits, of m] by simp

lemma show_int_hd: "0 < m \<Longrightarrow> hd (show_int m) \<noteq> CHR ''0''"
proof (induction m rule: show_int.induct)
  case (1 n)
  show ?case
  proof (cases "n < 10")
    case True
    then have "digit_value (digit_char (nat n)) = nat n" by simp
    with 1(2) have "digit_char (nat n) \<noteq> CHR ''0''" using zero_digit(1) by force
    with True show ?thesis by (simp add: show_int.simps [of n])
  next
    case False
    with 1 show ?thesis by (simp add: show_int.simps [of n])
  qed
qed

text \<open>The digits of a number below \<open>10 ^ k\<close>, or of that power itself, cut after \<open>k\<close>.\<close>

lemma show_int_cut:
  assumes "0 < s" and "s \<le> 10 ^ k" and "0 < k"
  shows "read_int (take k (show_int s)) * 10 ^ (length (show_int s) - k) = s"
proof (cases "length (show_int s) \<le> k")
  case True
  with assms(1) show ?thesis by simp
next
  case False
  have "length (show_int s) \<le> Suc k" and "s = 10 ^ k"
  proof -
    have digits: "list_all is_digit (show_int s)" by (rule show_int_digits)
    obtain c cs where cs: "show_int s = c # cs" by (cases "show_int s") auto
    have c: "1 \<le> digit_value c"
      using show_int_hd [OF assms(1)] digits digit_value_zero [of c] by (simp add: cs)
    have "s = int (digit_value c) * 10 ^ length cs + read_int cs"
      using read_int_append [of "[c]" cs] read_show_int [of s] assms(1) cs by (simp add: read_int_def)
    moreover have "0 \<le> read_int cs" by (rule read_int_nonneg)
    moreover have "(10 :: int) ^ length cs \<le> int (digit_value c) * 10 ^ length cs" using c by simp
    ultimately have lower: "10 ^ length cs \<le> s" by linarith
    with assms(2) have "(10 :: int) ^ length cs \<le> 10 ^ k" by linarith
    then have "length cs \<le> k" by simp
    with False cs have len: "length cs = k" by simp
    with lower assms(2) show "s = 10 ^ k" by simp
    from len cs show "length (show_int s) \<le> Suc k" by simp
  qed
  with False have len: "length (show_int s) = Suc k" by simp
  let ?d = "drop k (show_int s)" and ?t = "take k (show_int s)"
  have "length ?d = Suc 0" using len by simp
  then obtain d where d: "?d = [d]" by (metis length_0_conv length_Suc_conv)
  have "list_all is_digit (show_int s)" by (rule show_int_digits)
  then have "is_digit d"
    using d by (metis list_all_iff in_set_dropD list.set_intros(1))
  then have small: "digit_value d < 10" by (rule digit_value_less)
  have "s = read_int ?t * 10 + int (digit_value d)"
  proof -
    have "read_int (?t @ ?d) = read_int ?t * 10 ^ length [d] + read_int [d]"
      unfolding d by (rule read_int_append)
    then show ?thesis using read_show_int [of s] assms(1) by (simp add: read_int_def [of "[d]"])
  qed
  moreover have "s mod 10 = 0" using \<open>s = 10 ^ k\<close> assms(3) by (cases k) simp_all
  ultimately have "int (digit_value d) mod 10 = 0" by (metis mod_mult_self3)
  with small have "digit_value d = 0" by simp
  with \<open>s = read_int ?t * 10 + int (digit_value d)\<close> len show ?thesis by simp
qed

section \<open>Reading back a layout\<close>

lemma digits_split:
  "list_all is_digit ds \<Longrightarrow> takeWhile is_digit (ds @ rest) = ds @ takeWhile is_digit rest"
  "list_all is_digit ds \<Longrightarrow> dropWhile is_digit (ds @ rest) = dropWhile is_digit rest"
  by (induction ds) auto

lemma all_digits:
  "list_all is_digit ds \<Longrightarrow> takeWhile is_digit ds = ds" "list_all is_digit ds \<Longrightarrow> dropWhile is_digit ds = []"
  by (auto simp: list_all_iff)

lemma not_digits [simp]:
  "\<not> is_digit CHR ''.''" "\<not> is_digit CHR ''e''" "\<not> is_digit CHR ''-''" "\<not> is_digit CHR ''+''"
  by (simp_all add: is_digit_def)

lemma zeros_digits [simp]: "list_all is_digit (replicate n CHR ''0'')"
  by (simp add: list_all_iff zero_digit)

lemma read_unsigned_plain:
  assumes "list_all is_digit ds" and "ds \<noteq> []"
  shows "read_unsigned ds = Some (of_int (read_int ds))"
  using assms(2) by (simp add: read_unsigned_def read_exponent_def pow10_def all_digits [OF assms(1)] Let_def)

lemma read_unsigned_point:
  assumes "list_all is_digit ds" and "list_all is_digit fs" and "ds @ fs \<noteq> []"
  shows "read_unsigned (ds @ CHR ''.'' # fs) = Some (of_int (read_int (ds @ fs)) * pow10 (- int (length fs)))"
  using assms(3) digits_split [OF assms(1), of "CHR ''.'' # fs"]
  by (simp add: read_unsigned_def read_exponent_def all_digits [OF assms(2)] Let_def)

lemma read_exponent_text:
  "read_exponent (''e'' @ (if 0 \<le> e then ''+'' else ''-'') @ show_int \<bar>e\<bar>) = Some e"
  using show_int_digits [of e] show_int_digits [of "- e"] by (cases "0 \<le> e") (simp_all add: read_exponent_def)

lemma read_unsigned_scientific:
  assumes "list_all is_digit ds" and "ds \<noteq> []"
  shows "read_unsigned (ds @ ''e'' @ (if 0 \<le> e then ''+'' else ''-'') @ show_int \<bar>e\<bar>) =
      Some (of_int (read_int ds) * pow10 e)"
    and "is_digit d \<Longrightarrow>
      read_unsigned (d # CHR ''.'' # ds @ ''e'' @ (if 0 \<le> e then ''+'' else ''-'') @ show_int \<bar>e\<bar>) =
      Some (of_int (read_int (d # ds)) * pow10 (e - int (length ds)))"
proof -
  let ?x = "''e'' @ (if 0 \<le> e then ''+'' else ''-'') @ show_int \<bar>e\<bar>"
  have x: "takeWhile is_digit ?x = []" "dropWhile is_digit ?x = ?x" by simp_all
  show "read_unsigned (ds @ ?x) = Some (of_int (read_int ds) * pow10 e)"
    using assms(2) digits_split [OF assms(1), of ?x] x read_exponent_text [of e]
    by (simp add: read_unsigned_def Let_def del: if_split)
  show "is_digit d \<Longrightarrow> read_unsigned (d # CHR ''.'' # ds @ ?x) =
      Some (of_int (read_int (d # ds)) * pow10 (e - int (length ds)))"
    using digits_split [OF assms(1), of ?x] x read_exponent_text [of e]
    by (simp add: read_unsigned_def Let_def del: if_split)
qed


lemma pow10_minus_nat: "pow10 (- int n) = 1 / 10 ^ n"
  by (cases n) (simp_all add: pow10_def nat_add_distrib)

lemma read_layout:
  assumes "list_all is_digit ds" and "ds \<noteq> []"
  shows "read_unsigned (layout_digits ds n) = Some (of_int (read_int ds) * pow10 (n - int (length ds)))"
proof -
  let ?k = "int (length ds)"
  consider (whole) "?k \<le> n" "n \<le> 21" | (inside) "0 < n" "n < ?k" "n \<le> 21" | (below) "- 6 < n" "n \<le> 0"
    | (far) "n \<le> - 6 \<or> 21 < n" by linarith
  then show ?thesis
  proof cases
    case whole
    then obtain z where z: "n = ?k + int z" using zle_iff_zadd by auto
    have "read_unsigned (ds @ replicate z CHR ''0'') = Some (of_int (read_int (ds @ replicate z CHR ''0'')))"
      using assms by (intro read_unsigned_plain) simp_all
    with whole show ?thesis by (simp add: layout_digits_def z read_int_append)
  next
    case inside
    define m where "m = nat n"
    with inside have n: "n = int m" "m < length ds" "0 < m" by simp_all
    have "list_all is_digit (take m ds)" "list_all is_digit (drop m ds)"
      using assms(1) by (auto simp: list_all_iff dest: in_set_takeD in_set_dropD)
    from read_unsigned_point [OF this] n assms(2)
    have "read_unsigned (take m ds @ CHR ''.'' # drop m ds) =
        Some (of_int (read_int ds) * pow10 (- int (length (drop m ds))))" by simp
    moreover have "- int (length (drop m ds)) = n - ?k" using n by simp
    moreover have "layout_digits ds n = take m ds @ CHR ''.'' # drop m ds"
      using inside n by (simp add: layout_digits_def)
    ultimately show ?thesis by simp
  next
    case below
    define m where "m = nat (- n)"
    with below have n: "n = - int m" by simp
    have "read_unsigned ([CHR ''0''] @ CHR ''.'' # (replicate m CHR ''0'' @ ds)) =
        Some (of_int (read_int ([CHR ''0''] @ replicate m CHR ''0'' @ ds)) *
          pow10 (- int (length (replicate m CHR ''0'' @ ds))))"
      using assms by (intro read_unsigned_point) (simp_all add: zero_digit)
    moreover have "read_int ([CHR ''0''] @ replicate m CHR ''0'' @ ds) = read_int ds"
      using read_int_append [of "replicate (Suc m) CHR ''0''" ds] read_int_zeros [of "Suc m"] by simp
    moreover have "\<not> ?k \<le> - int m" using assms(2) by (cases ds) auto
    then have "layout_digits ds n = [CHR ''0''] @ CHR ''.'' # (replicate m CHR ''0'' @ ds)"
      using below assms(2) by (simp add: layout_digits_def Let_def n)
    ultimately show ?thesis by (simp add: n)
  next
    case far
    show ?thesis
    proof (cases "length ds = 1")
      case True
      have "layout_digits ds n = ds @ ''e'' @ (if 0 \<le> n - 1 then ''+'' else ''-'') @ show_int \<bar>n - 1\<bar>"
        using far True by (auto simp: layout_digits_def Let_def)
      then show ?thesis using read_unsigned_scientific(1) [OF assms, of "n - 1"] True by (simp del: if_split)
    next
      case False
      then obtain d es where ds: "ds = d # es" "es \<noteq> []" using assms(2) by (cases ds) auto
      have "layout_digits ds n = d # CHR ''.'' # es @ ''e'' @ (if 0 \<le> n - 1 then ''+'' else ''-'') @ show_int \<bar>n - 1\<bar>"
        using far ds by (auto simp: layout_digits_def Let_def)
      then show ?thesis
        using read_unsigned_scientific(2) [of es d "n - 1"] assms(1) ds by (simp add: algebra_simps del: if_split)
    qed
  qed
qed

text \<open>No layout looks like anything but a decimal number.\<close>

definition number_char :: "char \<Rightarrow> bool" where
  "number_char c \<longleftrightarrow> is_digit c \<or> c \<in> {CHR ''.'', CHR ''e'', CHR ''+'', CHR ''-''}"

lemma digits_number_chars: "list_all is_digit s \<Longrightarrow> list_all number_char s"
  by (auto simp: list_all_iff number_char_def)

lemma layout_chars:
  assumes "list_all is_digit ds" and "ds \<noteq> []"
  shows "list_all number_char (layout_digits ds n)" and "layout_digits ds n \<noteq> []"
    and "is_digit (hd (layout_digits ds n))"
proof -
  note digits = digits_number_chars [OF show_int_digits]
  have cut: "list_all number_char (take m ds)" "list_all number_char (drop m ds)" for m
    using digits_number_chars [OF assms(1)] by (auto simp: list_all_iff dest: in_set_takeD in_set_dropD)
  show "list_all number_char (layout_digits ds n)"
    using digits_number_chars [OF assms(1)] cut digits digits_number_chars [OF zeros_digits]
    by (simp add: layout_digits_def Let_def number_char_def zero_digit)
  obtain d es where ds: "ds = d # es" using assms(2) by (cases ds) auto
  with assms(1) show "layout_digits ds n \<noteq> []" "is_digit (hd (layout_digits ds n))"
    by (auto simp: layout_digits_def Let_def zero_digit take_Cons')
qed

lemma number_char_not_space: "number_char c \<Longrightarrow> \<not> is_space c"
  by (auto simp: number_char_def is_space_def is_digit_def)

lemma trim_id: "list_all (\<lambda>c. \<not> is_space c) s \<Longrightarrow> trim s = s"
proof -
  assume s: "list_all (\<lambda>c. \<not> is_space c) s"
  have "dropWhile is_space xs = xs" if "list_all (\<lambda>c. \<not> is_space c) xs" for xs
    using that by (cases xs) auto
  with s show ?thesis by (simp add: trim_def list_all_rev)
qed

lemma string_to_num_decimal:
  assumes "list_all number_char s" and "s \<noteq> []" and "is_digit (hd s)" and "read_unsigned s = Some q"
  shows "string_to_num s = to_double q" and "string_to_num (CHR ''-'' # s) = to_double (- q)"
proof -
  have out: "CHR ''x'' \<notin> set s" "CHR ''X'' \<notin> set s" "CHR ''o'' \<notin> set s" "CHR ''O'' \<notin> set s"
    "CHR ''b'' \<notin> set s" "CHR ''B'' \<notin> set s" "CHR ''I'' \<notin> set s"
    using assms(1) by (auto simp: list_all_iff number_char_def is_digit_def)
  have prefix: "take 2 u \<noteq> [CHR ''0'', c]" if "c \<notin> set u" for c and u :: string
    using that set_take_subset [of 2 u] by (metis in_mono list.set_intros(1,2))
  have trim: "trim s = s" "trim (CHR ''-'' # s) = CHR ''-'' # s"
  proof -
    have "list_all (\<lambda>c. \<not> is_space c) s" using assms(1) by (simp add: list_all_iff number_char_not_space)
    then show "trim s = s" "trim (CHR ''-'' # s) = CHR ''-'' # s"
      by (simp_all add: trim_id number_char_not_space number_char_def)
  qed
  have inf: "s \<noteq> ''Infinity''" using out(7) by auto
  obtain c r where s: "s = c # r" "is_digit c" using assms(2,3) by (cases s) auto
  then have sign: "c \<noteq> CHR ''-''" "c \<noteq> CHR ''+''" using not_digits by auto
  have radix: "take 2 s \<notin> {''0x'', ''0X''}" "take 2 s \<notin> {''0o'', ''0O''}" "take 2 s \<notin> {''0b'', ''0B''}"
    using prefix out by auto
  have "(case s of c # r \<Rightarrow> if c = CHR ''-'' then (True, r) else if c = CHR ''+'' then (False, r) else (False, s)
      | [] \<Rightarrow> (False, s)) = (False, s)"
    using s(1) sign by simp
  then show "string_to_num s = to_double q"
    using radix inf assms(2,4) by (simp add: string_to_num_def trim Let_def)
  show "string_to_num (CHR ''-'' # s) = to_double (- q)"
    using inf assms(2,4) by (simp add: string_to_num_def trim Let_def)
qed


section \<open>The digits of a double\<close>

definition double :: "rat \<Rightarrow> bool" where
  "double q \<longleftrightarrow> to_double q = Fin q"

text \<open>The point: every positive number that is not tiny is below \<open>10 ^ n\<close>.\<close>

lemma leading_zeros_above: "q < 1 \<Longrightarrow> q < pow10 (- int (leading_zeros f q))"
proof (induction f arbitrary: q)
  case 0
  then show ?case by (simp add: pow10_def)
next
  case (Suc f)
  show ?case
  proof (cases "1 \<le> 10 * q")
    case True
    with Suc.prems show ?thesis by (simp add: pow10_def)
  next
    case False
    then have "10 * q < pow10 (- int (leading_zeros f (10 * q)))" using Suc.IH [of "10 * q"] by simp
    then have "q < 1 / 10 ^ Suc (leading_zeros f (10 * q))" by (simp add: pow10_minus_nat)
    moreover have "leading_zeros (Suc f) q = Suc (leading_zeros f (10 * q))" using False by simp
    ultimately show ?thesis by (simp only: pow10_minus_nat)
  qed
qed

lemma leading_zeros_fuel: "leading_zeros f q \<le> f"
  by (induction f arbitrary: q) auto

lemma decimal_point_above:
  assumes "0 < q"
  shows "q < pow10 (decimal_point q)" and "- 400 \<le> decimal_point q"
proof -
  show "q < pow10 (decimal_point q)"
  proof (cases "1 \<le> q")
    case True
    then have "0 \<le> \<lfloor>q\<rfloor>" by simp
    then have "\<lfloor>q\<rfloor> < 10 ^ length (show_int \<lfloor>q\<rfloor>)" by (rule show_int_less)
    then have "q < of_int (10 ^ length (show_int \<lfloor>q\<rfloor>))" by (simp add: floor_less_iff)
    with True show ?thesis by (simp add: decimal_point_def)
  next
    case False
    then show ?thesis using leading_zeros_above [of q 400] by (simp add: decimal_point_def)
  qed
  show "- 400 \<le> decimal_point q"
    using leading_zeros_fuel [of 400 q] by (auto simp: decimal_point_def)
qed

text \<open>A double is a whole multiple of \<open>2 ^ (-1074)\<close>.\<close>

lemma double_dyadic:
  assumes "double q"
  obtains m e :: int where "q = of_int m * pow2 e" and "- 1074 \<le> e"
proof (cases "q = 0")
  case True
  then show thesis by (intro that [of 0 0]) simp_all
next
  case False
  define a where "a = \<bar>q\<bar>"
  define e where "e = max (binary_exponent a) (- 1022) - 52"
  define r where "r = round_half_even (a / pow2 e)"
  have "q = (if 0 < q then of_int r * pow2 e else - (of_int r * pow2 e))"
    using assms False
    by (auto simp: double_def to_double_def Let_def a_def e_def r_def split: if_splits)
  then have "q = of_int (if 0 < q then r else - r) * pow2 e" by (simp split: if_splits)
  moreover have "- 1074 \<le> e" by (simp add: e_def)
  ultimately show thesis by (rule that)
qed

lemma pow2_pow10:
  assumes "- int N \<le> e"
  obtains m :: int where "pow2 e * 10 ^ N = of_int m"
proof -
  define j where "j = nat (e + int N)"
  have "pow2 e * 2 ^ N = (2 :: rat) powi e * 2 powi int N" by (simp add: pow2_power_int)
  also have "\<dots> = 2 powi (e + int N)" by (simp add: power_int_add)
  also have "\<dots> = 2 ^ j" using assms by (simp add: j_def power_int_def)
  finally have two: "pow2 e * 2 ^ N = 2 ^ j" .
  have "(10 :: rat) ^ N = 2 ^ N * 5 ^ N" by (simp flip: power_mult_distrib)
  then have "pow2 e * 10 ^ N = (pow2 e * 2 ^ N) * 5 ^ N" by (simp only: mult.assoc)
  also have "\<dots> = of_int (2 ^ j * 5 ^ N)" unfolding two by simp
  finally show thesis by (rule that)
qed

text \<open>What the search finds reads back as the number, and has at most \<open>k\<close> digits, or is \<open>10 ^ k\<close>.\<close>

lemma find_SomeD: "find P xs = Some x \<Longrightarrow> x \<in> set xs \<and> P x"
  by (induction xs) (auto split: if_splits)

lemma floor_digits:
  assumes "0 < q" and "q < pow10 n"
  shows "0 \<le> \<lfloor>q / pow10 (n - int k)\<rfloor>" and "\<lfloor>q / pow10 (n - int k)\<rfloor> < 10 ^ k"
proof -
  have pos: "0 < pow10 (n - int k)" by simp
  then show "0 \<le> \<lfloor>q / pow10 (n - int k)\<rfloor>"
    unfolding zero_le_floor using assms(1) by (intro divide_nonneg_pos) simp_all
  have "q < 10 ^ k * pow10 (n - int k)" using assms(2) pow10_diff [of n "int k"] by (simp add: mult.commute)
  then have "q / pow10 (n - int k) < of_int (10 ^ k)" using pos by (simp add: pos_divide_less_eq)
  then show "\<lfloor>q / pow10 (n - int k)\<rfloor> < 10 ^ k" by (simp only: floor_less_iff)
qed

lemma digits_found:
  assumes "digits_of_length q n k = Some s" and "0 < q" and "q < pow10 n"
  shows "to_double (of_int s * pow10 (n - int k)) = Fin q" and "0 \<le> s" and "s \<le> 10 ^ k"
proof -
  define lo where "lo = \<lfloor>q / pow10 (n - int k)\<rfloor>"
  have "s \<in> set [lo, lo + 1] \<and> to_double (of_int s * pow10 (n - int k)) = Fin q"
    using assms(1) by (auto simp: digits_of_length_def Let_def lo_def dest!: find_SomeD split: if_splits)
  with floor_digits [OF assms(2,3), of k]
  show "to_double (of_int s * pow10 (n - int k)) = Fin q" "0 \<le> s" "s \<le> 10 ^ k"
    by (auto simp: lo_def)
qed

lemma shortest_digits_read:
  assumes "shortest_digits f k q n = (k', s)" and "0 < q" and "q < pow10 n" and "double q"
    and "n - int (k + f) \<le> - 1074"
  shows "to_double (of_int s * pow10 (n - int k')) = Fin q \<and> 0 \<le> s \<and> s \<le> 10 ^ k' \<and> k \<le> k'"
  using assms(1,5)
proof (induction f arbitrary: k)
  case 0
  then have k': "k' = k" and s: "s = \<lfloor>q / pow10 (n - int k)\<rfloor>" by auto
  define N where "N = nat (int k - n)"
  from 0(2) have N: "n - int k = - int N" "1074 \<le> int N" by (simp_all add: N_def)
  obtain m e where q: "q = of_int m * pow2 e" "- 1074 \<le> e" using assms(4) by (rule double_dyadic)
  have "- int N \<le> e" using q(2) N(2) by linarith
  then obtain j where "pow2 e * 10 ^ N = of_int j" by (rule pow2_pow10)
  then have whole: "q / pow10 (n - int k) = of_int (m * j)"
    by (simp add: N(1) pow10_minus_nat q(1) mult.assoc)
  then have "of_int s * pow10 (n - int k) = q"
    using pow10_pos [of "n - int k"] unfolding s by (simp add: nonzero_divide_eq_eq)
  then show ?case
    using assms(4) floor_digits [OF assms(2,3), of k] by (simp add: k' double_def) (simp add: s)
next
  case (Suc f)
  show ?case
  proof (cases "digits_of_length q n k")
    case None
    with Suc.prems have "shortest_digits f (Suc k) q n = (k', s)" "n - int (Suc k + f) \<le> - 1074" by simp_all
    from Suc.IH [OF this] show ?thesis by simp
  next
    case (Some t)
    with Suc.prems have "k' = k" "s = t" by auto
    then show ?thesis using digits_found [OF Some assms(2,3)] by simp
  qed
qed


lemma to_double_zero [simp]: "to_double 0 = Fin 0"
  by (simp add: to_double_def)

lemma double_minus: "double (- q) \<longleftrightarrow> double q"
  by (auto simp: double_def to_double_def Let_def split: if_splits)

lemma show_positive_reads:
  assumes "0 < q" and "double q"
  shows "list_all number_char (show_positive q)" "show_positive q \<noteq> []" "is_digit (hd (show_positive q))"
    and "\<exists>v. read_unsigned (show_positive q) = Some v \<and> to_double v = Fin q"
    and "\<exists>ds n. show_positive q = layout_digits ds n \<and> list_all is_digit ds \<and> ds \<noteq> [] \<and> hd ds \<noteq> CHR ''0''"
proof -
  define n where "n = decimal_point q"
  obtain k s where ks: "shortest_digits (nat (n + 1075)) 1 q n = (k, s)" by fastforce
  have above: "q < pow10 n" "- 400 \<le> n" using decimal_point_above [OF assms(1)] by (simp_all add: n_def)
  then have "n - int (1 + nat (n + 1075)) \<le> - 1074" by simp
  from shortest_digits_read [OF ks assms(1) above(1) assms(2) this]
  have ok: "to_double (of_int s * pow10 (n - int k)) = Fin q" "0 \<le> s" "s \<le> 10 ^ k" "0 < k" by simp_all
  have "s \<noteq> 0" using ok(1) assms(1) by auto
  with ok(2) have pos: "0 < s" by simp
  define ds where "ds = take k (show_int s)"
  have digits: "list_all is_digit ds" "ds \<noteq> []"
    using show_int_digits [of s] ok(4) by (auto simp: ds_def list_all_iff dest: in_set_takeD)
  let ?l = "length (show_int s)"
  have layout: "show_positive q = layout_digits ds (n + int ?l - int k)"
    using ks by (simp add: show_positive_def Let_def ds_def flip: n_def)
  show "list_all number_char (show_positive q)" "show_positive q \<noteq> []" "is_digit (hd (show_positive q))"
    unfolding layout by (rule layout_chars [OF digits])+
  have "hd ds \<noteq> CHR ''0''" using show_int_hd [OF pos] ok(4) by (simp add: ds_def hd_take)
  with digits layout
  show "\<exists>ds n. show_positive q = layout_digits ds n \<and> list_all is_digit ds \<and> ds \<noteq> [] \<and> hd ds \<noteq> CHR ''0''" by blast
  have "read_unsigned (show_positive q) = Some (of_int (read_int ds) * pow10 (n + int ?l - int k - int (length ds)))"
    unfolding layout by (rule read_layout [OF digits])
  moreover have point: "n + int ?l - int k - int (length ds) = int (?l - k) + (n - int k)"
    by (auto simp: ds_def)
  have "of_int (read_int ds) * pow10 (n + int ?l - int k - int (length ds)) =
      of_int (read_int ds * 10 ^ (?l - k)) * pow10 (n - int k)"
    unfolding point pow10_add by simp
  ultimately show "\<exists>v. read_unsigned (show_positive q) = Some v \<and> to_double v = Fin q"
    using show_int_cut [OF pos ok(3,4)] ok(1) by (simp add: ds_def)
qed

definition is_double :: "jsnum \<Rightarrow> bool" where
  "is_double x = (case x of Fin q \<Rightarrow> double q | _ \<Rightarrow> True)"

text \<open>\<open>Number(String(x))\<close> is \<open>x\<close>.\<close>

lemma string_to_num_num_to_string:
  assumes "is_double x"
  shows "string_to_num (num_to_string x) = x"
proof (cases x)
  case (Fin q)
  with assms have q: "double q" by (simp add: is_double_def)
  consider "q = 0" | "0 < q" | "q < 0" by linarith
  then show ?thesis
  proof cases
    case 1
    have "string_to_num ''0'' = Fin 0" by code_simp
    with 1 Fin show ?thesis by simp
  next
    case 2
    note shown = show_positive_reads [OF 2 q]
    from shown(4) obtain v where v: "read_unsigned (show_positive q) = Some v" "to_double v = Fin q" by blast
    show ?thesis using string_to_num_decimal(1) [OF shown(1-3) v(1)] v(2) 2 Fin by simp
  next
    case 3
    then have pos: "0 < - q" "double (- q)" using q by (simp_all add: double_minus)
    note shown = show_positive_reads [OF pos]
    from shown(4) obtain v where v: "read_unsigned (show_positive (- q)) = Some v" "to_double v = Fin (- q)" by blast
    have "to_double (- v) = Fin q"
      using v(2) 3 by (auto simp: to_double_def Let_def split: if_splits)
    then show ?thesis using string_to_num_decimal(2) [OF shown(1-3) v(1)] 3 Fin by simp
  qed
next
  case NaN
  have "string_to_num ''NaN'' = NaN" by code_simp
  with NaN show ?thesis by simp
next
  case PosInf
  have "string_to_num ''Infinity'' = PosInf" by code_simp
  with PosInf show ?thesis by simp
next
  case NegInf
  have "string_to_num ''-Infinity'' = NegInf" by code_simp
  with NegInf show ?thesis by simp
qed

interpretation number_text: codec num_to_string "\<lambda>s. Some (string_to_num s)" is_double
  by unfold_locales (simp add: string_to_num_num_to_string)

text \<open>The text of a finite double.\<close>

lemma num_text_chars:
  assumes "double q"
  shows "list_all number_char (num_to_string (Fin q))" "num_to_string (Fin q) \<noteq> []"
  using assms show_positive_reads(1,2) [of q] show_positive_reads(1,2) [of "- q"]
  by (auto simp: double_minus number_char_def zero_digit not_less)

end
