(* ===== verification/JsonParse.thy ===== *)
theory JsonParse
  imports RequestHash NumberText
begin

text \<open>
  \<open>JSON.parse\<close>, and that it reads back what \<open>JSON.stringify\<close> writes: so the text of JSON data
  names the data. Strings hold code units below 256 only; an escape of another one is refused.
\<close>

section \<open>The grammar\<close>

definition json_space :: "char \<Rightarrow> bool" where
  "json_space c = ((of_char c :: nat) \<in> {9, 10, 13, 32})"

definition skip :: "string \<Rightarrow> string" where
  "skip s = dropWhile json_space s"

definition hex_value :: "char \<Rightarrow> nat option" where
  "hex_value c =
     (let n = of_char c :: nat in
      if 48 \<le> n \<and> n \<le> 57 then Some (n - 48)
      else if 97 \<le> n \<and> n \<le> 102 then Some (n - 87)
      else if 65 \<le> n \<and> n \<le> 70 then Some (n - 55) else None)"

definition escape_value :: "char \<Rightarrow> char option" where
  "escape_value c =
     (if c \<in> {CHR 0x22, CHR 0x5C, CHR ''/''} then Some c
      else if c = CHR ''b'' then Some (CHR 0x08)
      else if c = CHR ''f'' then Some (CHR 0x0C)
      else if c = CHR ''n'' then Some (CHR 0x0A)
      else if c = CHR ''r'' then Some (CHR 0x0D)
      else if c = CHR ''t'' then Some (CHR 0x09) else None)"

definition hex4 :: "string \<Rightarrow> char option" where
  "hex4 s =
     (if length s < 4 then None
      else case those (map hex_value (take 4 s)) of
        None \<Rightarrow> None
      | Some ds \<Rightarrow> let n = foldl (\<lambda>acc d. 16 * acc + d) 0 ds in
          if n < 256 then Some (char_of n) else None)"

definition add_char :: "char \<Rightarrow> (string \<times> string) option \<Rightarrow> (string \<times> string) option" where
  "add_char c r = map_option (\<lambda>(s, rest). (c # s, rest)) r"

text \<open>A string up to its closing quote, and what follows.\<close>

function unquote :: "string \<Rightarrow> (string \<times> string) option" where
  "unquote s =
     (case s of
        [] \<Rightarrow> None
      | c # cs \<Rightarrow>
          if c = CHR 0x22 then Some ([], cs)
          else if c = CHR 0x5C then
            (case cs of
               [] \<Rightarrow> None
             | d # ds \<Rightarrow>
                 if d = CHR ''u'' then
                   (case hex4 ds of Some e \<Rightarrow> add_char e (unquote (drop 4 ds)) | None \<Rightarrow> None)
                 else (case escape_value d of Some e \<Rightarrow> add_char e (unquote ds) | None \<Rightarrow> None))
          else if (of_char c :: nat) < 32 then None
          else add_char c (unquote cs))"
  by pat_completeness auto
termination by (relation "measure length") auto

declare unquote.simps [simp del]

text \<open>A number has no leading zero, and digits on both sides of its point.\<close>

definition json_unsigned :: "string \<Rightarrow> bool" where
  "json_unsigned s =
     (let whole = takeWhile is_digit s;
          rest = dropWhile is_digit s;
          (ok, tail) =
            (case rest of
               c # r \<Rightarrow> if c = CHR ''.'' then (takeWhile is_digit r \<noteq> [], dropWhile is_digit r) else (True, rest)
             | [] \<Rightarrow> (True, rest))
      in whole \<noteq> [] \<and> (hd whole = CHR ''0'' \<longrightarrow> whole = ''0'') \<and> ok \<and> read_exponent tail \<noteq> None)"

definition json_number :: "string \<Rightarrow> bool" where
  "json_number s =
     (case s of [] \<Rightarrow> False | c # r \<Rightarrow> if c = CHR ''-'' then json_unsigned r else json_unsigned s)"

definition literal :: "string \<Rightarrow> jsval \<Rightarrow> string \<Rightarrow> (jsval \<times> string) option" where
  "literal word v s = (if take (length word) s = word then Some (v, drop (length word) s) else None)"

definition number_part :: "char \<Rightarrow> bool" where
  "number_part c \<longleftrightarrow> number_char c \<or> c = CHR ''E''"

definition parse_number :: "string \<Rightarrow> (jsval \<times> string) option" where
  "parse_number s =
     (let t = takeWhile number_part s in
      if json_number t then Some (JNum (string_to_num t), dropWhile number_part s) else None)"

text \<open>
  Values, the items of an array after its bracket and the members of an object after its
  brace, with fuel for each step into or along a value. A member is defined as an own
  property, so a later one of the same name replaces it and array-index names come first.
\<close>

fun parse_value :: "nat \<Rightarrow> string \<Rightarrow> (jsval \<times> string) option"
and parse_items :: "nat \<Rightarrow> string \<Rightarrow> (jsval list \<times> string) option"
and parse_members :: "nat \<Rightarrow> string \<Rightarrow> (props \<times> string) option" where
  "parse_value 0 s = None"
| "parse_value (Suc f) s =
     (case skip s of
        [] \<Rightarrow> None
      | c # r \<Rightarrow>
          if c = CHR 0x22 then map_option (\<lambda>(t, r). (JStr t, r)) (unquote r)
          else if c = CHR ''['' then
            (case skip r of
               [] \<Rightarrow> None
             | d # q \<Rightarrow> if d = CHR '']'' then Some (JArr [], q)
                 else map_option (\<lambda>(vs, r). (JArr vs, r)) (parse_items f (d # q)))
          else if c = CHR ''{'' then
            (case skip r of
               [] \<Rightarrow> None
             | d # q \<Rightarrow> if d = CHR ''}'' then Some (JObj [], q)
                 else map_option (\<lambda>(ps, r). (JObj (object_literal ps), r)) (parse_members f (d # q)))
          else if c = CHR ''t'' then literal ''true'' (JBool True) (c # r)
          else if c = CHR ''f'' then literal ''false'' (JBool False) (c # r)
          else if c = CHR ''n'' then literal ''null'' JNull (c # r)
          else parse_number (c # r))"
| "parse_items 0 s = None"
| "parse_items (Suc f) s =
     (case parse_value f s of
        None \<Rightarrow> None
      | Some (v, r) \<Rightarrow>
          (case skip r of
             [] \<Rightarrow> None
           | c # q \<Rightarrow>
               if c = CHR '','' then map_option (\<lambda>(vs, r). (v # vs, r)) (parse_items f q)
               else if c = CHR '']'' then Some ([v], q) else None))"
| "parse_members 0 s = None"
| "parse_members (Suc f) s =
     (case skip s of
        [] \<Rightarrow> None
      | c # r \<Rightarrow>
          if c \<noteq> CHR 0x22 then None
          else (case unquote r of
             None \<Rightarrow> None
           | Some (k, r) \<Rightarrow>
               (case skip r of
                  [] \<Rightarrow> None
                | c # q \<Rightarrow>
                    if c \<noteq> CHR '':'' then None
                    else (case parse_value f q of
                       None \<Rightarrow> None
                     | Some (v, r) \<Rightarrow>
                         (case skip r of
                            [] \<Rightarrow> None
                          | c # q \<Rightarrow>
                              if c = CHR '','' then map_option (\<lambda>(ps, r). ((k, v) # ps, r)) (parse_members f q)
                              else if c = CHR ''}'' then Some ([(k, v)], q) else None)))))"

definition json_parse :: "string \<Rightarrow> jsval option" where
  "json_parse s =
     (case parse_value (2 * length s + 1) s of
        Some (v, r) \<Rightarrow> if skip r = [] then Some v else None
      | None \<Rightarrow> None)"


section \<open>Reading back strings\<close>

lemma hex_digits: "n < 16 \<Longrightarrow> hex_value (hex_digit n) = Some n"
  by (cases "n < 10") (simp_all add: hex_value_def hex_digit_def Let_def)

text \<open>What \<open>JSON.stringify\<close> writes for a character is read back.\<close>

lemma unquote_end: "unquote (CHR 0x22 # s) = Some ([], s)"
  by (subst unquote.simps) simp

lemma unquote_plain:
  "c \<noteq> CHR 0x22 \<Longrightarrow> c \<noteq> CHR 0x5C \<Longrightarrow> 32 \<le> (of_char c :: nat) \<Longrightarrow> unquote (c # s) = add_char c (unquote s)"
  by (subst unquote.simps) simp

lemma unquote_escape:
  "escape_value d = Some e \<Longrightarrow> unquote (CHR 0x5C # d # s) = add_char e (unquote s)"
  by (subst unquote.simps) (auto simp: escape_value_def split: if_splits)

lemma unquote_u:
  "hex4 [a, b, c, d] = Some e \<Longrightarrow>
    unquote (CHR 0x5C # CHR ''u'' # a # b # c # d # s) = add_char e (unquote s)"
  by (subst unquote.simps) (simp add: hex4_def)

lemma control_chars:
  "char_of (8 :: nat) = CHR 0x08" "char_of (9 :: nat) = CHR 0x09" "char_of (10 :: nat) = CHR 0x0A"
  "char_of (12 :: nat) = CHR 0x0C" "char_of (13 :: nat) = CHR 0x0D"
  "char_of (34 :: nat) = CHR 0x22" "char_of (92 :: nat) = CHR 0x5C"
  by (simp_all add: char_of_eq_iff take_bit_nat_eq_self)

lemma char_from_code: "(of_char c :: nat) = n \<Longrightarrow> c = char_of n"
  by auto

lemma hex4_control:
  assumes "n < 32"
  shows "hex4 [CHR ''0'', CHR ''0'', hex_digit (n div 16), hex_digit (n mod 16)] = Some (char_of n)"
proof -
  have "n div 16 < 16" "n mod 16 < 16" "16 * (n div 16) + n mod 16 = n" using assms by auto
  moreover have "hex_value (CHR ''0'') = Some 0" by (simp add: hex_value_def)
  ultimately show ?thesis using assms by (simp add: hex4_def hex_digits Let_def)
qed

lemma unquote_char: "unquote (json_char c @ s) = add_char c (unquote s)"
proof -
  define n :: nat where "n = of_char c"
  then have c: "c = char_of n" by simp
  consider "n \<in> {8, 9, 10, 12, 13}" | "n \<in> {34, 92}" | "n < 32" "n \<notin> {8, 9, 10, 12, 13}"
    | "32 \<le> n" "n \<notin> {34, 92}" by force
  then show ?thesis
  proof cases
    case 1
    then show ?thesis
      using c by (auto simp: control_chars json_char_def Let_def escape_value_def intro!: unquote_escape)
  next
    case 2
    then show ?thesis
      using c by (auto simp: control_chars json_char_def Let_def escape_value_def intro!: unquote_escape)
  next
    case 3
    then have "json_char c = [CHR 0x5C, CHR ''u'', CHR ''0'', CHR ''0'', hex_digit (n div 16), hex_digit (n mod 16)]"
      by (simp add: json_char_def Let_def flip: n_def)
    with unquote_u [OF hex4_control [OF 3(1)]] c show ?thesis by simp
  next
    case 4
    then have "c \<noteq> CHR 0x22" "c \<noteq> CHR 0x5C" by (auto simp: n_def)
    moreover have "json_char c = [c]" using 4 by (simp add: json_char_def Let_def flip: n_def)
    ultimately show ?thesis using unquote_plain [of c s] 4(1) by (simp add: n_def)
  qed
qed

lemma unquote_quoted:
  "unquote (concat (map json_char t) @ CHR 0x22 # s) = Some (t, s)"
  by (induction t) (simp_all add: unquote_end unquote_char add_char_def)

section \<open>Reading back numbers\<close>

lemma json_unsigned_digits:
  assumes "list_all is_digit ds" and "ds \<noteq> []" and "hd ds \<noteq> CHR ''0''"
  shows "json_unsigned (ds @ replicate z CHR ''0'')"
    and "list_all is_digit fs \<Longrightarrow> fs \<noteq> [] \<Longrightarrow> json_unsigned (ds @ CHR ''.'' # fs)"
    and "json_unsigned (ds @ ''e'' @ (if 0 \<le> e then ''+'' else ''-'') @ show_int \<bar>e\<bar>)"
    and "list_all is_digit fs \<Longrightarrow> fs \<noteq> [] \<Longrightarrow>
      json_unsigned (ds @ CHR ''.'' # fs @ ''e'' @ (if 0 \<le> e then ''+'' else ''-'') @ show_int \<bar>e\<bar>)"
proof -
  have all: "list_all is_digit (ds @ replicate z CHR ''0'')" using assms(1) by simp
  show "json_unsigned (ds @ replicate z CHR ''0'')"
    unfolding json_unsigned_def all_digits [OF all] Let_def using assms(2,3) by (simp add: read_exponent_def)
  show "json_unsigned (ds @ CHR ''.'' # fs)" if "list_all is_digit fs" "fs \<noteq> []"
    using that(2) assms(2,3) digits_split [OF assms(1), of "CHR ''.'' # fs"]
    by (simp add: json_unsigned_def Let_def all_digits [OF that(1)] read_exponent_def)
  let ?x = "''e'' @ (if 0 \<le> e then ''+'' else ''-'') @ show_int \<bar>e\<bar>"
  have x: "takeWhile is_digit ?x = []" "dropWhile is_digit ?x = ?x" by simp_all
  show "json_unsigned (ds @ ?x)"
    using assms(2,3) digits_split [OF assms(1), of ?x] x read_exponent_text [of e]
    by (simp add: json_unsigned_def Let_def del: if_split)
  show "json_unsigned (ds @ CHR ''.'' # fs @ ?x)" if "list_all is_digit fs" "fs \<noteq> []"
    using that(2) assms(2,3) digits_split [OF assms(1), of "CHR ''.'' # fs @ ?x"] digits_split [OF that(1), of ?x] x
      read_exponent_text [of e]
    by (simp add: json_unsigned_def Let_def del: if_split)
qed

lemma json_unsigned_layout:
  assumes "list_all is_digit ds" and "ds \<noteq> []" and "hd ds \<noteq> CHR ''0''"
  shows "json_unsigned (layout_digits ds n)"
proof -
  let ?k = "int (length ds)"
  consider (whole) "?k \<le> n" "n \<le> 21" | (inside) "0 < n" "n < ?k" "n \<le> 21" | (below) "- 6 < n" "n \<le> 0"
    | (far) "n \<le> - 6 \<or> 21 < n" by linarith
  then show ?thesis
  proof cases
    case whole
    then show ?thesis using json_unsigned_digits(1) [OF assms] by (simp add: layout_digits_def)
  next
    case inside
    define m where "m = nat n"
    with inside have n: "n = int m" "m < length ds" "0 < m" by simp_all
    have parts: "list_all is_digit (take m ds)" "list_all is_digit (drop m ds)"
      using assms(1) by (auto simp: list_all_iff dest: in_set_takeD in_set_dropD)
    have "json_unsigned (take m ds @ CHR ''.'' # drop m ds)"
      using json_unsigned_digits(2) [OF parts(1) _ _ parts(2)] assms(2,3) n by (simp add: hd_take)
    moreover have "layout_digits ds n = take m ds @ CHR ''.'' # drop m ds"
      using inside n by (simp add: layout_digits_def)
    ultimately show ?thesis by simp
  next
    case below
    define m where "m = nat (- n)"
    with below have n: "n = - int m" by simp
    have fs: "list_all is_digit (replicate m CHR ''0'' @ ds)" using assms(1) by simp
    have "\<not> ?k \<le> - int m" using assms(2) by (cases ds) auto
    then have "layout_digits ds n = [CHR ''0''] @ CHR ''.'' # (replicate m CHR ''0'' @ ds)"
      using below assms(2) by (simp add: layout_digits_def Let_def n)
    then have layout: "layout_digits ds n = CHR ''0'' # CHR ''.'' # (replicate m CHR ''0'' @ ds)" by simp
    show ?thesis
      unfolding layout json_unsigned_def Let_def using assms(2)
      by (simp add: zero_digit all_digits [OF fs] del: takeWhile_append dropWhile_append) (simp add: read_exponent_def)
  next
    case far
    show ?thesis
    proof (cases "length ds = 1")
      case True
      have "layout_digits ds n = ds @ ''e'' @ (if 0 \<le> n - 1 then ''+'' else ''-'') @ show_int \<bar>n - 1\<bar>"
        using far True by (auto simp: layout_digits_def Let_def)
      then show ?thesis by (simp only: json_unsigned_digits(3) [OF assms])
    next
      case False
      then obtain d es where ds: "ds = d # es" "es \<noteq> []" using assms(2) by (cases ds) auto
      have "layout_digits ds n = [d] @ CHR ''.'' # es @ ''e'' @ (if 0 \<le> n - 1 then ''+'' else ''-'') @ show_int \<bar>n - 1\<bar>"
        using far ds by (auto simp: layout_digits_def Let_def)
      then show ?thesis using json_unsigned_digits(4) [of "[d]" es "n - 1"] assms ds by simp
    qed
  qed
qed

lemma json_number_text:
  assumes "double q"
  shows "json_number (num_to_string (Fin q))"
proof -
  consider "q = 0" | "0 < q" | "q < 0" by linarith
  then show ?thesis
  proof cases
    case 1
    have "json_number ''0''" by code_simp
    with 1 show ?thesis by simp
  next
    case 2
    note shown = show_positive_reads [OF 2 assms]
    have "json_unsigned (show_positive q)" using shown(5) json_unsigned_layout by auto
    moreover obtain c r where "show_positive q = c # r" "c \<noteq> CHR ''-''"
      using shown(2,3) not_digits(3) by (metis list.exhaust_sel)
    ultimately show ?thesis using 2 by (simp add: json_number_def)
  next
    case 3
    then have pos: "0 < - q" "double (- q)" using assms by (simp_all add: double_minus)
    have "json_unsigned (show_positive (- q))"
      using show_positive_reads(5) [OF pos] json_unsigned_layout by auto
    then show ?thesis using 3 by (simp add: json_number_def)
  qed
qed


section \<open>Reading back data\<close>

text \<open>JSON data as the engine holds it: finite doubles, and objects in the engine's order.\<close>

fun json_data :: "jsval \<Rightarrow> bool" where
  "json_data (JNum n) = (is_finite n \<and> is_double n)"
| "json_data (JArr xs) = list_all json_data xs"
| "json_data (JObj ps) = (ordered_props ps \<and> list_all (\<lambda>(k, v). json_data v) ps)"
| "json_data JUndef = False"
| "json_data (JDate _ _ _) = False"
| "json_data _ = True"

fun need :: "jsval \<Rightarrow> nat" where
  "need (JArr xs) = Suc (\<Sum>x\<leftarrow>xs. Suc (need x))"
| "need (JObj ps) = Suc (\<Sum>(k, v)\<leftarrow>ps. Suc (need v))"
| "need _ = Suc 0"

definition stops :: "string \<Rightarrow> bool" where
  "stops r \<longleftrightarrow> (case r of [] \<Rightarrow> True | c # _ \<Rightarrow> \<not> number_part c)"

lemma stops_simps [simp]:
  "stops []" "stops (CHR '','' # r)" "stops (CHR '']'' # r)" "stops (CHR ''}'' # r)"
  by (simp_all add: stops_def number_part_def number_char_def is_digit_def)

lemma skip_simps [simp]:
  "skip (CHR 0x22 # r) = CHR 0x22 # r" "skip (CHR '','' # r) = CHR '','' # r" "skip (CHR '':'' # r) = CHR '':'' # r"
  "skip (CHR '']'' # r) = CHR '']'' # r" "skip (CHR ''}'' # r) = CHR ''}'' # r" "skip (CHR ''['' # r) = CHR ''['' # r"
  "skip (CHR ''{'' # r) = CHR ''{'' # r" "skip (CHR ''t'' # r) = CHR ''t'' # r" "skip (CHR ''f'' # r) = CHR ''f'' # r"
  "skip (CHR ''n'' # r) = CHR ''n'' # r" "skip [] = []"
  by (simp_all add: skip_def json_space_def)

lemma number_head:
  assumes "number_char c"
  shows "\<not> json_space c" "c \<notin> {CHR 0x22, CHR '','', CHR '']'', CHR ''}'', CHR ''['', CHR ''{'', CHR ''t'', CHR ''f'', CHR ''n''}"
  using assms by (auto simp: number_char_def json_space_def is_digit_def)

lemma json_text_head:
  assumes "json_data v"
  obtains c t where "json_text v = c # t" "\<not> json_space c" "c \<noteq> CHR '']''" "c \<noteq> CHR ''}''"
proof (cases v)
  case (JNum n)
  with assms obtain q where n: "n = Fin q" "double q" by (cases n) (auto simp: is_double_def)
  obtain c t where ct: "num_to_string (Fin q) = c # t" using num_text_chars(2) [OF n(2)] by (metis neq_Nil_conv)
  with num_text_chars(1) [OF n(2)] have "number_char c" by simp
  from number_head [OF this] show thesis using that [of c t] ct JNum n(1) by simp
next
  case (JBool b)
  then show thesis by (cases b) (auto simp: json_space_def intro: that)
qed (use assms in \<open>auto simp: json_quote_def json_space_def intro: that\<close>)

lemma parse_number_text:
  assumes "double q" and "stops r"
  shows "parse_value (Suc f) (num_to_string (Fin q) @ r) = Some (JNum (Fin q), r)"
proof -
  let ?t = "num_to_string (Fin q)"
  obtain c t where ct: "?t = c # t" using num_text_chars(2) [OF assms(1)] by (metis neq_Nil_conv)
  with num_text_chars(1) [OF assms(1)] have c: "number_char c" by simp
  have all: "\<forall>x \<in> set ?t. number_part x"
    using num_text_chars(1) [OF assms(1)] by (auto simp: list_all_iff number_part_def)
  have "takeWhile number_part (?t @ r) = ?t" "dropWhile number_part (?t @ r) = r"
    using all assms(2) by (simp_all add: stops_def del: num_to_string.simps split: list.splits)
  moreover have "string_to_num ?t = Fin q"
    using string_to_num_num_to_string [of "Fin q"] assms(1) by (simp add: is_double_def)
  ultimately have number: "parse_number (?t @ r) = Some (JNum (Fin q), r)"
    using json_number_text [OF assms(1)] by (simp add: parse_number_def del: num_to_string.simps)
  have "skip (c # t @ r) = c # t @ r" using number_head(1) [OF c] by (simp add: skip_def)
  then show ?thesis using number number_head(2) [OF c] unfolding ct by simp
qed

lemma parse_items_text:
  assumes "\<And>v f r. v \<in> set vs \<Longrightarrow> need v \<le> f \<Longrightarrow> stops r \<Longrightarrow> parse_value f (json_text v @ r) = Some (v, r)"
    and "vs \<noteq> []" and "(\<Sum>x\<leftarrow>vs. Suc (need x)) \<le> f"
  shows "parse_items f (join '','' (map json_text vs) @ CHR '']'' # r) = Some (vs, r)"
  using assms
proof (induction vs arbitrary: f)
  case Nil
  then show ?case by simp
next
  case (Cons v vs)
  then obtain g where f: "f = Suc g" "need v + (\<Sum>x\<leftarrow>vs. Suc (need x)) \<le> g"
    by (cases f) auto
  have first: "parse_value g (json_text v @ r) = Some (v, r)" if "stops r" for r
    using f(2) that by (intro Cons.prems(1)) auto
  show ?case
  proof (cases vs)
    case Nil
    then show ?thesis using first by (simp add: f)
  next
    case (Cons w ws)
    have "parse_items g (join '','' (map json_text vs) @ CHR '']'' # r) = Some (vs, r)"
      using Cons f(2) by (intro Cons.IH Cons.prems(1)) auto
    then show ?thesis using first Cons by (simp add: f)
  qed
qed


lemma parse_members_text:
  assumes "\<And>k v f r. (k, v) \<in> set ps \<Longrightarrow> need v \<le> f \<Longrightarrow> stops r \<Longrightarrow> parse_value f (json_text v @ r) = Some (v, r)"
    and "ps \<noteq> []" and "(\<Sum>(k, v)\<leftarrow>ps. Suc (need v)) \<le> f"
  shows "parse_members f (join '','' (map (\<lambda>(k, v). json_quote k @ '':'' @ json_text v) ps) @ CHR ''}'' # r) =
    Some (ps, r)"
  using assms
proof (induction ps arbitrary: f)
  case Nil
  then show ?case by simp
next
  case (Cons p ps)
  obtain k v where p: "p = (k, v)" by fastforce
  from Cons.prems(3) p obtain g where f: "f = Suc g" "need v + (\<Sum>(k, v)\<leftarrow>ps. Suc (need v)) \<le> g"
    by (cases f) auto
  have first: "parse_value g (json_text v @ r) = Some (v, r)" if "stops r" for r
    using f(2) that p by (intro Cons.prems(1) [of k]) auto
  show ?case
  proof (cases ps)
    case Nil
    then show ?thesis using first by (simp add: f p json_quote_def unquote_quoted)
  next
    case (Cons q qs)
    have "parse_members g (join '','' (map (\<lambda>(k, v). json_quote k @ '':'' @ json_text v) ps) @ CHR ''}'' # r) =
        Some (ps, r)"
      using Cons f(2) by (intro Cons.IH) (auto intro: Cons.prems(1))
    then show ?thesis using first Cons by (cases q) (simp add: f p json_quote_def unquote_quoted)
  qed
qed

lemma object_literal_ordered: "ordered_props ps \<Longrightarrow> object_literal ps = ps"
proof -
  have "spread qs ps = qs @ ps" if "ordered_props (qs @ ps)" for qs
    using that
  proof (induction ps arbitrary: qs)
    case (Cons p ps)
    obtain k v where p: "p = (k, v)" by fastforce
    have "define_prop k v qs = qs @ [(k, v)]"
      using Cons.prems p by (intro define_prop_last) (auto simp: ordered_props_append)
    with Cons p show ?case by simp
  qed simp
  from this [of "[]"] show "ordered_props ps \<Longrightarrow> object_literal ps = ps" by (simp add: object_literal_def)
qed

lemma parse_value_text:
  "json_data v \<Longrightarrow> need v \<le> f \<Longrightarrow> stops r \<Longrightarrow> parse_value f (json_text v @ r) = Some (v, r)"
proof (induction v arbitrary: f r rule: jsval_induct)
  case (Arr xs)
  then obtain g where f: "f = Suc g" "(\<Sum>x\<leftarrow>xs. Suc (need x)) \<le> g" by (cases f) auto
  show ?case
  proof (cases xs)
    case Nil
    then show ?thesis by (simp add: f)
  next
    case (Cons y ys)
    have items: "parse_items g (join '','' (map json_text xs) @ CHR '']'' # r) = Some (xs, r)"
      using Arr.prems(1) Cons f(2) by (intro parse_items_text Arr.IH) (auto simp: list_all_iff)
    have "json_data y" using Arr.prems(1) Cons by simp
    then obtain c t where c: "json_text y = c # t" "\<not> json_space c" "c \<noteq> CHR '']''" by (rule json_text_head)
    obtain t' where "join '','' (map json_text xs) = c # t'" using c(1) Cons by (cases ys) auto
    then show ?thesis using items c(2,3) by (simp add: f skip_def json_space_def)
  qed
next
  case (Obj ps)
  then obtain g where f: "f = Suc g" "(\<Sum>(k, v)\<leftarrow>ps. Suc (need v)) \<le> g" by (cases f) auto
  show ?case
  proof (cases ps)
    case Nil
    then show ?thesis by (simp add: f)
  next
    case (Cons y ys)
    let ?text = "join '','' (map (\<lambda>(k, v). json_quote k @ '':'' @ json_text v) ps)"
    have "parse_value f (json_text v @ r) = Some (v, r)"
      if "(k, v) \<in> set ps" "need v \<le> f" "stops r" for k v f r
      using Obj.IH [of k v f r] that Obj.prems(1) by (auto simp: list_all_iff)
    then have members: "parse_members g (?text @ CHR ''}'' # r) = Some (ps, r)"
      using Cons f(2) by (intro parse_members_text) auto
    obtain t' where "?text = CHR 0x22 # t'" using Cons by (cases ys; cases y) (auto simp: json_quote_def)
    then show ?thesis
      using members Obj.prems(1) by (simp add: f object_literal_ordered)
  qed
next
  case (Other v)
  show ?case
  proof (cases v)
    case (JNum n)
    with Other.prems obtain q where "n = Fin q" "double q" by (cases n) (auto simp: is_double_def)
    moreover obtain g where "f = Suc g" using Other.prems(2) JNum by (cases f) auto
    ultimately show ?thesis using parse_number_text [of q r g] Other.prems(3) JNum by (simp del: num_to_string.simps)
  next
    case (JStr s)
    with Other.prems show ?thesis by (cases f) (auto simp: json_quote_def unquote_quoted)
  next
    case (JBool b)
    with Other.prems show ?thesis by (cases f) (auto simp: literal_def)
  next
    case JNull
    with Other.prems show ?thesis by (cases f) (auto simp: literal_def)
  qed (use Other in auto)
qed


text \<open>The fuel of \<open>json_parse\<close> is enough for every text of data.\<close>

lemma length_join: "xs \<noteq> [] \<Longrightarrow> (\<Sum>x\<leftarrow>xs. length x) + length xs \<le> Suc (length (join '','' xs))"
  by (induction "'',''" xs rule: join.induct) auto

lemma sum_double: "(\<Sum>x\<leftarrow>xs. 2 * f x + 1) = 2 * (\<Sum>x\<leftarrow>xs. f x) + length xs" for f :: "'a \<Rightarrow> nat"
  by (induction xs) auto

lemma need_text: "json_data v \<Longrightarrow> need v \<le> 2 * length (json_text v)"
proof (induction v rule: jsval_induct)
  case (Arr xs)
  have "(\<Sum>x\<leftarrow>xs. Suc (need x)) \<le> (\<Sum>x\<leftarrow>xs. 2 * length (json_text x) + 1)"
    using Arr by (intro sum_list_mono) (auto simp: list_all_iff)
  also have "\<dots> = 2 * (\<Sum>x\<leftarrow>map json_text xs. length x) + length xs"
    unfolding sum_double by (simp add: comp_def)
  also have "\<dots> \<le> 2 * Suc (length (join '','' (map json_text xs)))"
    using length_join [of "map json_text xs"] by (cases "xs = []") auto
  finally show ?case by simp
next
  case (Obj ps)
  let ?text = "\<lambda>(k, v). json_quote k @ '':'' @ json_text v"
  have "(\<Sum>(k, v)\<leftarrow>ps. Suc (need v)) \<le> (\<Sum>p\<leftarrow>ps. 2 * length (?text p) + 1)"
    using Obj by (intro sum_list_mono) (fastforce simp: list_all_iff)
  also have "\<dots> = 2 * (\<Sum>x\<leftarrow>map ?text ps. length x) + length ps"
    unfolding sum_double by (simp add: comp_def)
  also have "\<dots> \<le> 2 * Suc (length (join '','' (map ?text ps)))"
    using length_join [of "map ?text ps"] by (cases "ps = []") auto
  finally show ?case by simp
next
  case (Other v)
  obtain c t where "json_text v = c # t" using Other.prems by (rule json_text_head)
  with Other show ?case by (cases v) auto
qed

lemma json_parse_text: "json_data v \<Longrightarrow> json_parse (json_text v) = Some v"
  using parse_value_text [of v "2 * length (json_text v) + 1" "[]"] need_text [of v] by (simp add: json_parse_def)

interpretation json: codec json_text json_parse json_data
  by unfold_locales (rule json_parse_text)

section \<open>The canonical text of a request body\<close>

lemma json_data_is_json: "json_data v \<Longrightarrow> is_json v"
proof (induction v rule: jsval_induct)
  case (Arr xs)
  then show ?case by (auto simp: list_all_iff)
next
  case (Obj ps)
  then show ?case by (fastforce simp: list_all_iff)
next
  case (Other v)
  then show ?case by (cases v) auto
qed

lemma json_data_sortValue: "json_data v \<Longrightarrow> json_data (sortValue v)"
proof (induction v rule: jsval_induct)
  case (Arr xs)
  then show ?case by (auto simp: list_all_iff)
next
  case (Obj ps)
  have "json_data u" if "(k, u) \<in> set (assign_all (sort_key fst (map (\<lambda>(k, v). (k, sortValue v)) ps)))" for k u
  proof -
    have "(k, u) \<in> set (map (\<lambda>(k, v). (k, sortValue v)) ps)"
      using subsetD [OF set_assign_all that] by simp
    then obtain v where "(k, v) \<in> set ps" "u = sortValue v" by auto
    with Obj show ?thesis by (auto simp: list_all_iff)
  qed
  then have "\<forall>(k, u) \<in> set (assign_all (sort_key fst (map (\<lambda>(k, v). (k, sortValue v)) ps))). json_data u"
    by (intro ballI, unfold split_paired_all prod.case) blast
  then show ?case
    unfolding sortValue.simps json_data.simps list_all_iff using ordered_assign_all by blast
next
  case (Other v)
  then show ?case by (cases v) auto
qed

section \<open>The members the canonical form sees\<close>

text \<open>
  \<open>JSON.parse\<close> makes members named \<open>__proto__\<close>, and the reducer of \<open>sortValue\<close> loses them: the
  value without them, at any depth.
\<close>

fun without_proto :: "jsval \<Rightarrow> jsval" where
  "without_proto (JArr xs) = JArr (map without_proto xs)"
| "without_proto (JObj ps) =
     JObj (filter (\<lambda>(k, v). k \<noteq> ''__proto__'') (map (\<lambda>(k, v). (k, without_proto v)) ps))"
| "without_proto v = v"

lemma assign_all_without_proto: "assign_all (filter (\<lambda>(k, v). k \<noteq> ''__proto__'') ps) = assign_all ps"
proof -
  have "fold (\<lambda>(k, v). assign_prop k v) (filter (\<lambda>(k, v). k \<noteq> ''__proto__'') ps) qs = fold (\<lambda>(k, v). assign_prop k v) ps qs" for qs
    by (induction ps arbitrary: qs) (auto simp: assign_prop_def)
  then show ?thesis by (simp add: assign_all_def)
qed

lemma sortValue_without_proto: "sortValue (without_proto v) = sortValue v"
proof (induction v rule: jsval_induct)
  case (Arr xs)
  then show ?case by simp
next
  case (Obj ps)
  let ?qs = "map (\<lambda>(k, v). (k, sortValue v)) ps"
  have "map (\<lambda>(k, v). (k, sortValue v)) (filter (\<lambda>(k, v). k \<noteq> ''__proto__'') (map (\<lambda>(k, v). (k, without_proto v)) ps)) =
      filter (\<lambda>(k, v). k \<noteq> ''__proto__'') ?qs"
    using Obj by (induction ps) auto
  moreover have "sort_key fst (filter (\<lambda>(k, v). k \<noteq> ''__proto__'') ?qs) =
      filter (\<lambda>(k, v). k \<noteq> ''__proto__'') (sort_key fst ?qs)"
    by (simp only: filter_sort)
  ultimately show ?case by (simp add: assign_all_without_proto)
next
  case (Other v)
  then show ?case by (cases v) auto
qed

lemma plain_without_proto: "json_data v \<Longrightarrow> plain (without_proto v)"
proof (induction v rule: jsval_induct)
  case (Arr xs)
  then show ?case by (auto simp: list_all_iff)
next
  case (Obj ps)
  let ?qs = "map (\<lambda>(k, v). (k, without_proto v)) ps"
  have "distinct (map fst ?qs)" using Obj.prems ordered_distinct by (simp only: fst_map_value json_data.simps)
  then have "distinct (map fst (filter (\<lambda>(k, v). k \<noteq> ''__proto__'') ?qs))" by (rule distinct_fst_filter)
  then show ?case using Obj by (auto simp: list_all_iff)
next
  case (Other v)
  then show ?case by (cases v) auto
qed

section \<open>Properties\<close>



end
