(* ===== verification/Metrics.thy ===== *)
theory Metrics
  imports JsonParse Lifecycle
begin

text \<open>
  \<open>observability/metrics.js\<close>: the counters of HTTP requests a process keeps, and the text
  \<open>GET /metrics\<close> answers, with the counts the database gives. A \<open>Map\<close> is the list of its
  entries in order of insertion.
\<close>

section \<open>Keys\<close>

definition metricKey :: "string \<Rightarrow> string \<Rightarrow> string \<Rightarrow> string" where
  "metricKey method route status = json_text (JArr [JStr method, JStr route, JStr status])"

text \<open>\<open>const [method, route, status] = JSON.parse(key)\<close>\<close>

definition parse_key :: "string \<Rightarrow> (string \<times> string \<times> string) option" where
  "parse_key s =
     (case json_parse s of
        Some (JArr [JStr method, JStr route, JStr status]) \<Rightarrow> Some (method, route, status)
      | _ \<Rightarrow> None)"

section \<open>Counters\<close>

record duration =
  d_count :: int
  d_sum :: jsnum

record metrics =
  requests :: "(string \<times> int) list"
  durations :: "(string \<times> duration) list"

text \<open>\<open>map.set(k, v)\<close>: in place, or at the end.\<close>

definition map_set :: "string \<Rightarrow> 'v \<Rightarrow> (string \<times> 'v) list \<Rightarrow> (string \<times> 'v) list" where
  "map_set k v ps =
     (if k \<in> fst ` set ps then map (\<lambda>(j, w). (j, if j = k then v else w)) ps else ps @ [(k, v)])"

text \<open>The sum of two doubles, when both are finite.\<close>

fun js_add :: "jsnum \<Rightarrow> jsnum \<Rightarrow> jsnum" where
  "js_add (Fin a) (Fin b) = to_double (a + b)"
| "js_add PosInf NegInf = NaN"
| "js_add NegInf PosInf = NaN"
| "js_add NaN b = NaN"
| "js_add a NaN = NaN"
| "js_add PosInf b = PosInf"
| "js_add NegInf b = NegInf"
| "js_add a PosInf = PosInf"
| "js_add a NegInf = NegInf"

text \<open>\<open>Number(nanoseconds) / 1e9\<close>\<close>

definition seconds_of :: "int \<Rightarrow> jsnum" where
  "seconds_of nanos =
     (case to_double (of_int nanos) of Fin n \<Rightarrow> to_double (n / 1000000000) | other \<Rightarrow> other)"

text \<open>
  What the listener of \<open>finish\<close> does with a finished request; \<open>route\<close> is \<open>None\<close> when no
  route matched.
\<close>

definition recordHttpMetrics :: "string \<Rightarrow> string option \<Rightarrow> int \<Rightarrow> int \<Rightarrow> metrics \<Rightarrow> metrics" where
  "recordHttpMetrics method route statusCode nanos m =
     (let key = metricKey method (case route of Some r \<Rightarrow> r | None \<Rightarrow> ''unmatched'') (show_int statusCode);
          currentDuration = (case map_of (durations m) key of Some d \<Rightarrow> d
            | None \<Rightarrow> \<lparr>d_count = 0, d_sum = Fin 0\<rparr>)
      in \<lparr>requests = map_set key ((case map_of (requests m) key of Some n \<Rightarrow> n | None \<Rightarrow> 0) + 1) (requests m),
          durations = map_set key
            \<lparr>d_count = d_count currentDuration + 1, d_sum = js_add (d_sum currentDuration) (seconds_of nanos)\<rparr>
            (durations m)\<rparr>)"

section \<open>The text\<close>

definition replace_char :: "char \<Rightarrow> string \<Rightarrow> string \<Rightarrow> string" where
  "replace_char c r s = concat (map (\<lambda>d. if d = c then r else [d]) s)"

definition quoted_label :: "string \<Rightarrow> string \<Rightarrow> string" where
  "quoted_label name value = name @ ''='' @ [CHR 0x22] @ value @ [CHR 0x22]"

definition labels :: "string \<Rightarrow> string" where
  "labels key =
     (case parse_key key of
        None \<Rightarrow> []
      | Some (method, route, status) \<Rightarrow>
          let safeRoute = replace_char CHR 0x22 [CHR 0x5C, CHR 0x22] (replace_char CHR 0x5C [CHR 0x5C, CHR 0x5C] route)
          in ''{'' @ quoted_label ''method'' method @ '','' @ quoted_label ''route'' safeRoute @ '','' @
             quoted_label ''status'' status @ ''}'')"

text \<open>\<open>GROUP BY status\<close>: the groups in the order the database gives them.\<close>

definition group_counts :: "(string list \<Rightarrow> string list) \<Rightarrow> string list \<Rightarrow> (string \<times> int) list" where
  "group_counts arrange xs = map (\<lambda>s. (s, int (count_list xs s))) (arrange (remdups xs))"

text \<open>Seconds from microseconds, rounded to an integer half away from zero, as a cast does.\<close>

definition to_seconds :: "int \<Rightarrow> int" where
  "to_seconds us = (if 0 \<le> us then (us + 500000) div 1000000 else - ((500000 - us) div 1000000))"

definition oldest_seconds :: "int \<Rightarrow> int list \<Rightarrow> int" where
  "oldest_seconds now ts = (if ts = [] then 0 else to_seconds (now - Min (set ts)))"

definition oldest_pending_seconds :: "int \<Rightarrow> db \<Rightarrow> int" where
  "oldest_pending_seconds now db =
     oldest_seconds now (map ob_created_at (filter (\<lambda>e. ob_status e = ''PENDING'') (outbox_events db)))"

definition oldest_processing_seconds :: "int \<Rightarrow> db \<Rightarrow> int" where
  "oldest_processing_seconds now db =
     oldest_seconds now (map the (filter (\<lambda>t. t \<noteq> None)
       (map ob_claimed_at (filter (\<lambda>e. ob_status e = ''PROCESSING'') (outbox_events db)))))"

definition expired_leases :: "int \<Rightarrow> db \<Rightarrow> int" where
  "expired_leases now db =
     int (length (filter (\<lambda>r. txn_status r = ''PROCESSING'' \<and>
       (case lease_expires_at r of Some t \<Rightarrow> t < now | None \<Rightarrow> False)) (transactions db)))"

definition show_signed :: "int \<Rightarrow> string" where
  "show_signed n = (if n < 0 then CHR ''-'' # show_int (- n) else show_int n)"

definition gauge :: "string \<Rightarrow> string \<Rightarrow> string \<Rightarrow> string list" where
  "gauge name what kind = [''# HELP '' @ name @ '' '' @ what, ''# TYPE '' @ name @ '' '' @ kind]"

definition labelled :: "string \<Rightarrow> string \<Rightarrow> string \<Rightarrow> int \<Rightarrow> string" where
  "labelled name label value n = name @ ''{'' @ quoted_label label value @ ''} '' @ show_signed n"

record pool_counts =
  totalCount :: int
  idleCount :: int
  waitingCount :: int

definition renderMetrics ::
  "(string list \<Rightarrow> string list) \<Rightarrow> int \<Rightarrow> int \<Rightarrow> pool_counts \<Rightarrow> metrics \<Rightarrow> db \<Rightarrow> string" where
  "renderMetrics arrange uptimeMs now pool m db =
     join [CHR 0x0A]
       (gauge ''payment_sim_uptime_seconds'' ''Process uptime in seconds.'' ''gauge'' @
        [''payment_sim_uptime_seconds '' @ show_signed (uptimeMs div 1000)] @
        gauge ''payment_sim_http_requests_total'' ''HTTP requests handled by the API.'' ''counter'' @
        map (\<lambda>(key, n). ''payment_sim_http_requests_total'' @ labels key @ '' '' @ show_signed n) (requests m) @
        gauge ''payment_sim_http_request_duration_seconds'' ''HTTP request duration.'' ''summary'' @
        concat (map (\<lambda>(key, d).
          [''payment_sim_http_request_duration_seconds_count'' @ labels key @ '' '' @ show_signed (d_count d),
           ''payment_sim_http_request_duration_seconds_sum'' @ labels key @ '' '' @ num_to_string (d_sum d)])
          (durations m)) @
        gauge ''payment_sim_db_pool_connections'' ''PostgreSQL pool connections.'' ''gauge'' @
        [labelled ''payment_sim_db_pool_connections'' ''state'' ''total'' (totalCount pool),
         labelled ''payment_sim_db_pool_connections'' ''state'' ''idle'' (idleCount pool),
         labelled ''payment_sim_db_pool_connections'' ''state'' ''waiting'' (waitingCount pool)] @
        gauge ''payment_sim_transactions'' ''Transactions by lifecycle status.'' ''gauge'' @
        map (\<lambda>(s, n). labelled ''payment_sim_transactions'' ''status'' s n)
          (group_counts arrange (map txn_status (transactions db))) @
        gauge ''payment_sim_outbox_events'' ''Outbox events by status.'' ''gauge'' @
        map (\<lambda>(s, n). labelled ''payment_sim_outbox_events'' ''status'' s n)
          (group_counts arrange (map ob_status (outbox_events db))) @
        gauge ''payment_sim_outbox_oldest_event_age_seconds''
          ''Oldest outbox event age by processing state.'' ''gauge'' @
        [labelled ''payment_sim_outbox_oldest_event_age_seconds'' ''state'' ''pending''
           (oldest_pending_seconds now db),
         labelled ''payment_sim_outbox_oldest_event_age_seconds'' ''state'' ''processing''
           (oldest_processing_seconds now db)] @
        gauge ''payment_sim_expired_processing_leases''
          ''Processing transactions whose worker lease has expired.'' ''gauge'' @
        [''payment_sim_expired_processing_leases '' @ show_signed (expired_leases now db)] @
        gauge ''payment_sim_dead_letter_jobs'' ''Durable dead-letter job count.'' ''gauge'' @
        [''payment_sim_dead_letter_jobs '' @ show_signed (int (length (dead_letter_jobs db)))]) @ [CHR 0x0A]"

section \<open>Facts\<close>

lemma map_of_map_set: "map_of (map_set k v ps) = (map_of ps)(k \<mapsto> v)"
proof (cases "k \<in> fst ` set ps")
  case True
  then obtain w where "map_of ps k = Some w" by (auto dest: weak_map_of_SomeI)
  moreover have "map_of (map (\<lambda>(j, w). (j, if j = k then v else w)) ps) i =
      map_option (\<lambda>w. if i = k then v else w) (map_of ps i)" for i
    by (induction ps) auto
  ultimately show ?thesis using True by (auto simp: map_set_def fun_eq_iff option.map_ident)
next
  case False
  then have "map_of ps k = None" by (simp add: map_of_eq_None_iff)
  with False show ?thesis by (simp add: map_set_def fun_eq_iff map_add_def split: option.split)
qed

lemma parse_metricKey: "parse_key (metricKey method route status) = Some (method, route, status)"
  using json.decode_encode [of "JArr [JStr method, JStr route, JStr status]"]
  by (simp add: parse_key_def metricKey_def)

interpretation counter_key: codec "\<lambda>(m, r, s). metricKey m r s" parse_key "\<lambda>_. True"
  by unfold_locales (auto simp: parse_metricKey)

lemma metricKey_inj:
  "metricKey m r s = metricKey m' r' s' \<longleftrightarrow> m = m' \<and> r = r' \<and> s = s'"
  using counter_key.encode_eq_iff [of "(m, r, s)" "(m', r', s')"] by simp

text \<open>The gauge of expired leases and the rows recovery takes.\<close>

lemma expired_by_lease:
  assumes "lease_inv db" and "r \<in> set (transactions db)"
  shows "expired stale now r \<longleftrightarrow> txn_status r = ''PROCESSING'' \<and>
    (case lease_expires_at r of Some t \<Rightarrow> t < now | None \<Rightarrow> False)"
  using assms by (auto simp: lease_inv_def lease_columns_def expired_def coalesce_def split: option.splits)

lemma expired_leases_recovered:
  assumes "lease_inv db"
  shows "expired_leases now db = int (length (fst (recoverStaleProcessingTransactions stale now db)))"
proof -
  have "filter (expired stale now) (transactions db) =
      filter (\<lambda>r. txn_status r = ''PROCESSING'' \<and>
        (case lease_expires_at r of Some t \<Rightarrow> t < now | None \<Rightarrow> False)) (transactions db)"
    using expired_by_lease [OF assms] by (intro filter_cong) auto
  then show ?thesis by (simp add: expired_leases_def recoverStaleProcessingTransactions_def)
qed

section \<open>Properties\<close>

text \<open>C39: Counter keys are read back as they were made, whatever characters method, route and
  status have: the label line shows the request's own route, and two requests share a counter
  exactly if they agree in all three.\<close>

theorem metric_key_roundtrip:
  "parse_key (metricKey method route status) = Some (method, route, status) \<and>
   (metricKey method route status = metricKey method' route' status' \<longleftrightarrow>
      method = method' \<and> route = route' \<and> status = status')"
  using parse_metricKey metricKey_inj by blast

text \<open>The gauge of expired leases counts exactly the transactions the next recovery would take
  back, as long as the lease columns are consistent.\<close>

lemma expired_lease_gauge:
  assumes "lease_inv db"
  shows "expired_leases now db = int (length (fst (recoverStaleProcessingTransactions stale now db)))"
  using assms by (rule expired_leases_recovered)

end
