(* ===== verification/Server.thy ===== *)
theory Server
  imports Api Metrics
begin

text \<open>
  \<open>app.js\<close> as a whole: the order of the middleware and the routes behind it. Which route a
  request matches, what the body parser makes of its body, the in-memory limiter used outside
  production and what Express answers to an error no handler catches are arguments: they are
  not code of the repository.
\<close>

section \<open>The routes\<close>

datatype route =
    Root
  | Live
  | Ready
  | MetricsPage
  | Info
  | StatusOf string
  | DeadLetters
  | Pay
  | Unmatched

text \<open>\<open>req.baseUrl + req.route.path\<close>\<close>

fun route_pattern :: "route \<Rightarrow> string option" where
  "route_pattern Root = Some ''/''"
| "route_pattern Live = Some ''/health/live''"
| "route_pattern Ready = Some ''/health/ready''"
| "route_pattern MetricsPage = Some ''/metrics''"
| "route_pattern Info = Some ''/info''"
| "route_pattern (StatusOf tid) = Some ''/status/:id''"
| "route_pattern DeadLetters = Some ''/dead-letter''"
| "route_pattern Pay = Some ''/pay''"
| "route_pattern Unmatched = None"

definition root_answer :: response where
  "root_answer = (200, JObj [(''status'', JStr ''UP''), (''service'', JStr ''payment-sim''),
     (''message'', JStr ''Payment simulator is running'')])"

definition live_answer :: response where
  "live_answer = (200, JObj [(''status'', JStr ''UP'')])"

definition features :: "string list" where
  "features = [''validation'', ''risk engine'', ''BullMQ queue'', ''Redis-backed worker processing'',
     ''PostgreSQL transaction lifecycle persistence'', ''retry logic'', ''dead letter queue'',
     ''structured logging'', ''internal systems'', ''external network routing'']"

definition get_info :: "env \<Rightarrow> headers \<Rightarrow> response" where
  "get_info env hdr =
     (case adminApiKeyAuth env hdr of
        Inl answer \<Rightarrow> answer
      | Inr _ \<Rightarrow> (200, JObj [(''service'', JStr ''payment-sim''),
          (''architecture'', JStr ''BullMQ-backed async payment processing simulator''),
          (''features'', JArr (map JStr features))]))"

text \<open>
  What surrounds a request: the functions of the model's parameters and the fixed settings of
  the process, and what happens while the request is served. \<open>st_loaded\<close> is the environment
  when \<open>rateLimiter.js\<close> was loaded, \<open>st_env\<close> the one requests are served in.
\<close>

record 'm setting =
  st_hmac :: "string \<Rightarrow> string \<Rightarrow> string"
  st_sha256 :: "string \<Rightarrow> string"
  st_env :: env
  st_loaded :: env
  st_pg :: pg
  st_unhandled :: "js_error \<Rightarrow> response"
  st_preflight :: response
  st_unmatched :: response
  st_arrange :: "string list \<Rightarrow> string list"
  st_memory :: "jsnum \<Rightarrow> jsnum \<Rightarrow> string \<Rightarrow> int \<Rightarrow> 'm \<Rightarrow> bool \<times> 'm"
  st_uptime :: "int \<Rightarrow> int"
  st_pool :: pool_counts

record request_in =
  rq_method :: string
  rq_route :: route
  rq_origin :: "string option"
  rq_ip :: string
  rq_headers :: headers
  rq_body :: "response + jsval"
  rq_id :: string
  rq_ms :: int
  rq_now :: int
  rq_nanos :: int
  rq_db_fault :: "string option"
  rq_redis_fault :: bool
  rq_pong :: "string option"

record 'm server =
  sv_db :: db
  sv_redis :: redis
  sv_memory :: 'm
  sv_metrics :: metrics

definition get_metrics :: "'m setting \<Rightarrow> request_in \<Rightarrow> 'm server \<Rightarrow> response" where
  "get_metrics S q s =
     (case adminApiKeyAuth (st_env S) (rq_headers q) of
        Inl answer \<Rightarrow> answer
      | Inr _ \<Rightarrow>
          (case rq_db_fault q of
             Some m \<Rightarrow> st_unhandled S (DbError m)
           | None \<Rightarrow> (200, JStr (renderMetrics (st_arrange S) (st_uptime S (rq_ms q)) (rq_now q) (st_pool S)
               (sv_metrics s) (sv_db s)))))"

definition status_route :: "'m setting \<Rightarrow> request_in \<Rightarrow> string \<Rightarrow> db \<Rightarrow> response" where
  "status_route S q tid db =
     (case (apiKeyOrAdminAuth (st_env S) (rq_headers q), rq_db_fault q) of
        (Inr _, Some m) \<Rightarrow> st_unhandled S (DbError m)
      | _ \<Rightarrow> (case get_status (st_env S) (st_pg S) (rq_headers q) tid db of
               Inr answer \<Rightarrow> answer | Inl e \<Rightarrow> st_unhandled S e))"

text \<open>
  \<open>POST /pay\<close> when the database fails: the checks before the transaction is saved need no
  database, and a transaction that cannot be saved is rolled back.
\<close>

definition needs_database :: "'m setting \<Rightarrow> request_in \<Rightarrow> jsval \<Rightarrow> bool" where
  "needs_database S q body =
     (case (apiKeyAuth (st_env S) (rq_headers q), rq_headers q ''x-idempotency-key'') of
        (Inr (Client client), Some key) \<Rightarrow>
          key \<noteq> [] \<and>
          (case check_payment (st_hmac S) (st_sha256 S) (st_env S) (rq_id q) (rq_ms q) client key body of
             Inr (Inr _) \<Rightarrow> True | _ \<Rightarrow> False)
      | _ \<Rightarrow> False)"

definition pay_route :: "'m setting \<Rightarrow> request_in \<Rightarrow> jsval \<Rightarrow> db \<Rightarrow> response \<times> db" where
  "pay_route S q body db =
     (if rq_db_fault q \<noteq> None \<and> needs_database S q body then (internal_error, db)
      else post_pay (st_hmac S) (st_sha256 S) (st_env S) (st_pg S) (rq_id q) (rq_ms q) (rq_now q)
        (rq_headers q) body db)"

fun dispatch :: "'m setting \<Rightarrow> request_in \<Rightarrow> jsval \<Rightarrow> route \<Rightarrow> 'm server \<Rightarrow> response \<times> db" where
  "dispatch S q body Root s = (root_answer, sv_db s)"
| "dispatch S q body Live s = (live_answer, sv_db s)"
| "dispatch S q body Ready s = (get_ready (st_env S) (rq_db_fault q = None) (rq_pong q), sv_db s)"
| "dispatch S q body MetricsPage s = (get_metrics S q s, sv_db s)"
| "dispatch S q body Info s = (get_info (st_env S) (rq_headers q), sv_db s)"
| "dispatch S q body (StatusOf tid) s = (status_route S q tid (sv_db s), sv_db s)"
| "dispatch S q body DeadLetters s =
     (get_dead_letter (st_env S) (st_pg S) (rq_headers q) (rq_db_fault q \<noteq> None) (sv_db s), sv_db s)"
| "dispatch S q body Pay s = pay_route S q body (sv_db s)"
| "dispatch S q body Unmatched s = (st_unmatched S, sv_db s)"

section \<open>The middleware\<close>

text \<open>
  \<open>apiRateLimiter\<close>: the answer of a refusal, if there is one. Which limiter it is and both its
  settings are decided by the environment at load time.
\<close>

definition apiRateLimiter :: "'m setting \<Rightarrow> request_in \<Rightarrow> 'm server \<Rightarrow> response option \<times> 'm server" where
  "apiRateLimiter S q s =
     (if is_production (st_loaded S) then
        (case createRedisRateLimiter (WINDOW_MS (st_loaded S)) (MAX_REQUESTS (st_loaded S))
            (rq_redis_fault q) (rq_ms q) (rq_ip q) (sv_redis s) of
           (answer, r) \<Rightarrow> (answer, s\<lparr>sv_redis := r\<rparr>))
      else
        (case st_memory S (WINDOW_MS (st_loaded S)) (MAX_REQUESTS (st_loaded S)) (rq_ip q) (rq_ms q) (sv_memory s) of
           (ok, mem) \<Rightarrow> (if ok then None else Some rateLimitResponse, s\<lparr>sv_memory := mem\<rparr>)))"

text \<open>
  A request: CORS (which answers a preflight itself), the body parser, the counters (whose
  listener runs when the answer is finished), the limiter, the route. What a refused request
  matched is not known to the counters.
\<close>

definition counted :: "request_in \<Rightarrow> string option \<Rightarrow> response \<Rightarrow> metrics \<Rightarrow> metrics" where
  "counted q pattern answer m = recordHttpMetrics (rq_method q) pattern (int (fst answer)) (rq_nanos q) m"

definition serve_request :: "'m setting \<Rightarrow> request_in \<Rightarrow> 'm server \<Rightarrow> response \<times> 'm server" where
  "serve_request S q s =
     (case buildCorsOptions (st_env S) (rq_origin q) of
        Inl e \<Rightarrow> (st_unhandled S e, s)
      | Inr _ \<Rightarrow>
          if rq_method q = ''OPTIONS'' then (st_preflight S, s)
          else
            (case rq_body q of
               Inl answer \<Rightarrow> (answer, s)
             | Inr body \<Rightarrow>
                 (case apiRateLimiter S q s of
                    (Some answer, s1) \<Rightarrow> (answer, s1\<lparr>sv_metrics := counted q None answer (sv_metrics s1)\<rparr>)
                  | (None, s1) \<Rightarrow>
                      let (answer, db) = dispatch S q body (rq_route q) s1 in
                      (answer, s1\<lparr>sv_db := db,
                         sv_metrics := counted q (route_pattern (rq_route q)) answer (sv_metrics s1)\<rparr>))))"

primrec serve_all :: "'m setting \<Rightarrow> request_in list \<Rightarrow> 'm server \<Rightarrow> response list \<times> 'm server" where
  "serve_all S [] s = ([], s)"
| "serve_all S (q # qs) s =
     (let (answer, s1) = serve_request S q s; (answers, s2) = serve_all S qs s1 in (answer # answers, s2))"

section \<open>Facts\<close>

text \<open>The requests the counters and the limiter see, and what they see of them.\<close>

definition enters :: "'m setting \<Rightarrow> request_in \<Rightarrow> bool" where
  "enters S q \<longleftrightarrow> isOriginAllowed (rq_origin q) (st_env S) \<and> rq_method q \<noteq> ''OPTIONS'' \<and>
     (case rq_body q of Inr _ \<Rightarrow> True | Inl _ \<Rightarrow> False)"

definition admitted :: "'m setting \<Rightarrow> request_in \<Rightarrow> 'm server \<Rightarrow> bool" where
  "admitted S q s \<longleftrightarrow> enters S q \<and> fst (apiRateLimiter S q s) = None"

lemma limiter_keeps [simp]:
  "sv_db (snd (apiRateLimiter S q s)) = sv_db s" "sv_metrics (snd (apiRateLimiter S q s)) = sv_metrics s"
  by (simp_all add: apiRateLimiter_def split: prod.splits limit_answer.splits)

lemma serve_outside: "\<not> enters S q \<Longrightarrow> snd (serve_request S q s) = s"
  by (auto simp: enters_def serve_request_def buildCorsOptions_def split: sum.splits)

lemma serve_refused:
  assumes "enters S q" and "fst (apiRateLimiter S q s) = Some answer"
  shows "serve_request S q s =
    (answer, (snd (apiRateLimiter S q s))\<lparr>sv_metrics := counted q None answer (sv_metrics s)\<rparr>)"
proof -
  obtain s1 where s1: "apiRateLimiter S q s = (Some answer, s1)" using assms(2) by (cases "apiRateLimiter S q s") auto
  with limiter_keeps(2) [of S q s] assms(1) show ?thesis
    by (auto simp: enters_def serve_request_def buildCorsOptions_def split: sum.splits)
qed

lemma serve_admitted:
  assumes "admitted S q s"
  obtains body where "rq_body q = Inr body"
    and "serve_request S q s = (let (answer, db) = dispatch S q body (rq_route q) (snd (apiRateLimiter S q s)) in
      (answer, (snd (apiRateLimiter S q s))\<lparr>sv_db := db,
         sv_metrics := counted q (route_pattern (rq_route q)) answer (sv_metrics s)\<rparr>))"
proof -
  from assms obtain body where body: "rq_body q = Inr body" and "enters S q" and "fst (apiRateLimiter S q s) = None"
    by (auto simp: admitted_def enters_def split: sum.splits)
  then obtain s1 where s1: "apiRateLimiter S q s = (None, s1)" by (cases "apiRateLimiter S q s") auto
  with limiter_keeps(2) [of S q s] \<open>enters S q\<close> body show thesis
    by (intro that [OF body]) (auto simp: enters_def serve_request_def buildCorsOptions_def split: prod.splits)
qed


lemma serve_admitted_answer:
  assumes "admitted S q s" and "rq_body q = Inr body"
  shows "fst (serve_request S q s) = fst (dispatch S q body (rq_route q) (snd (apiRateLimiter S q s)))"
proof -
  obtain body' where "rq_body q = Inr body'"
    and "serve_request S q s = (let (answer, db) = dispatch S q body' (rq_route q) (snd (apiRateLimiter S q s)) in
      (answer, (snd (apiRateLimiter S q s))\<lparr>sv_db := db,
         sv_metrics := counted q (route_pattern (rq_route q)) answer (sv_metrics s)\<rparr>))"
    using assms(1) by (rule serve_admitted)
  with assms(2) show ?thesis by (simp add: case_prod_beta Let_def)
qed

text \<open>The tables.\<close>

lemma post_pay_effect:
  "same_tables db (snd (post_pay hmac sha256 env pg i ms now hdr body db)) \<or>
   (\<exists>client row. apiKeyAuth env hdr = Inr (Client client) \<and>
      fst (post_pay hmac sha256 env pg i ms now hdr body db) = accepted_answer i \<and>
      transactions (snd (post_pay hmac sha256 env pg i ms now hdr body db)) = transactions db @ [row])"
proof (cases "\<exists>client. apiKeyAuth env hdr = Inr (Client client)")
  case True
  then obtain client where client: "apiKeyAuth env hdr = Inr (Client client)" by blast
  obtain answer db' where pay: "pay hmac sha256 env pg i ms now client hdr body db = (answer, db')" by fastforce
  then have eq: "post_pay hmac sha256 env pg i ms now hdr body db = (answer, db')"
    by (simp add: post_pay_def client)
  from pay show ?thesis
  proof (cases rule: pay_cases)
    case refused
    then show ?thesis by (simp add: eq)
  next
    case (accepted key fullTxn row payload)
    then have "transactions db' = transactions db @ [row]" using accepted_tables(1) [OF accepted(9)] by simp
    then show ?thesis using accepted(4) client by (simp add: eq)
  qed
next
  case False
  then show ?thesis by (auto simp: post_pay_def split: sum.splits auth.splits)
qed

lemma dispatch_tables:
  "r \<noteq> Pay \<Longrightarrow> snd (dispatch S q body r s) = sv_db s"
  by (cases r) simp_all

lemma serve_tables:
  "admitted S q s \<and> rq_route q = Pay \<and>
     (\<exists>body. rq_body q = Inr body \<and> fst (serve_request S q s) = fst (pay_route S q body (sv_db s)) \<and>
        sv_db (snd (serve_request S q s)) = snd (pay_route S q body (sv_db s))) \<or>
   sv_db (snd (serve_request S q s)) = sv_db s"
proof -
  consider (outside) "\<not> enters S q" | (refused) answer where "enters S q" "fst (apiRateLimiter S q s) = Some answer"
    | (admitted) "admitted S q s"
    by (cases "fst (apiRateLimiter S q s)") (auto simp: admitted_def)
  then show ?thesis
  proof cases
    case outside
    then show ?thesis by (simp add: serve_outside)
  next
    case refused
    then show ?thesis by (simp add: serve_refused)
  next
    case admitted
    then obtain body where body: "rq_body q = Inr body"
      and eq: "serve_request S q s = (let (answer, db) = dispatch S q body (rq_route q) (snd (apiRateLimiter S q s)) in
      (answer, (snd (apiRateLimiter S q s))\<lparr>sv_db := db,
         sv_metrics := counted q (route_pattern (rq_route q)) answer (sv_metrics s)\<rparr>))"
      by (rule serve_admitted)
    show ?thesis
    proof (cases "rq_route q = Pay")
      case True
      with body admitted show ?thesis by (simp add: eq case_prod_beta Let_def)
    next
      case False
      then show ?thesis by (simp add: eq case_prod_beta Let_def dispatch_tables)
    qed
  qed
qed

text \<open>The counters.\<close>

definition counter_of :: "string \<Rightarrow> metrics \<Rightarrow> int" where
  "counter_of key m = (case map_of (requests m) key of Some n \<Rightarrow> n | None \<Rightarrow> 0)"

definition metrics_ok :: "metrics \<Rightarrow> bool" where
  "metrics_ok m \<longleftrightarrow> map (\<lambda>(k, d). (k, d_count d)) (durations m) = requests m \<and>
     distinct (map fst (requests m)) \<and> (\<forall>(k, n) \<in> set (requests m). 1 \<le> n)"

definition total :: "metrics \<Rightarrow> int" where
  "total m = (\<Sum>(k, n)\<leftarrow>requests m. n)"

lemma map_set_map:
  "map (\<lambda>(k, d). (k, f d)) (map_set k v ps) = map_set k (f v) (map (\<lambda>(k, d). (k, f d)) ps)"
proof -
  have "fst ` set (map (\<lambda>(k, d). (k, f d)) ps) = fst ` set ps" by (force simp: image_iff)
  then show ?thesis by (auto simp: map_set_def)
qed

lemma map_of_map_count: "map_of (map (\<lambda>(k, d). (k, f d)) ps) k = map_option f (map_of ps k)"
  by (induction ps) auto

lemma map_set_keys: "distinct (map fst ps) \<Longrightarrow> distinct (map fst (map_set k v ps))"
  by (auto simp: map_set_def case_prod_beta comp_def image_iff)

lemma map_set_sum:
  assumes "distinct (map fst ps)"
  shows "(\<Sum>(k, n)\<leftarrow>map_set k v ps. n) =
    (\<Sum>(k, n)\<leftarrow>ps. n) - (case map_of ps k of Some n \<Rightarrow> n | None \<Rightarrow> 0) + (v :: int)"
proof (cases "k \<in> fst ` set ps")
  case True
  have "(\<Sum>(j, n)\<leftarrow>map (\<lambda>(j, w). (j, if j = k then v else w)) ps. n) =
      (\<Sum>(j, n)\<leftarrow>ps. n) - (case map_of ps k of Some n \<Rightarrow> n | None \<Rightarrow> v) + v"
    using assms
  proof (induction ps)
    case (Cons p ps)
    obtain j w where p: "p = (j, w)" by fastforce
    show ?case
    proof (cases "j = k")
      case True
      with Cons.prems p have "map (\<lambda>(j, w). (j, if j = k then v else w)) ps = ps"
        by (intro map_idI) (auto simp: image_iff)
      with True p show ?thesis by simp
    next
      case False
      with Cons p show ?thesis by simp
    qed
  qed simp
  with True show ?thesis by (auto simp: map_set_def map_of_eq_None_iff split: option.splits)
next
  case False
  then have "map_of ps k = None" by (simp add: map_of_eq_None_iff)
  with False show ?thesis by (simp add: map_set_def)
qed

lemma counter_recorded:
  "counter_of k (recordHttpMetrics method route status nanos m) =
    counter_of k m + (if k = metricKey method (case route of Some r \<Rightarrow> r | None \<Rightarrow> ''unmatched'') (show_int status)
      then 1 else 0)"
  by (simp add: counter_of_def recordHttpMetrics_def Let_def map_of_map_set)

lemma counter_of_nonneg: "metrics_ok m \<Longrightarrow> 0 \<le> counter_of k m"
  by (force simp: metrics_ok_def counter_of_def dest: map_of_SomeD split: option.split)

lemma metrics_ok_recorded:
  assumes "metrics_ok m"
  shows "metrics_ok (recordHttpMetrics method route status nanos m)"
    and "total (recordHttpMetrics method route status nanos m) = total m + 1"
proof -
  define key where "key = metricKey method (case route of Some r \<Rightarrow> r | None \<Rightarrow> ''unmatched'') (show_int status)"
  define n where "n = counter_of key m + 1"
  define d where "d = (case map_of (durations m) key of Some d \<Rightarrow> d | None \<Rightarrow> \<lparr>d_count = 0, d_sum = Fin 0\<rparr>)"
  have same: "map (\<lambda>(k, d). (k, d_count d)) (durations m) = requests m"
    and dist: "distinct (map fst (requests m))" and pos: "\<forall>(k, n) \<in> set (requests m). 1 \<le> n"
    using assms by (auto simp: metrics_ok_def)
  have eq: "recordHttpMetrics method route status nanos m =
      \<lparr>requests = map_set key n (requests m),
       durations = map_set key \<lparr>d_count = d_count d + 1, d_sum = js_add (d_sum d) (seconds_of nanos)\<rparr> (durations m)\<rparr>"
    by (simp add: recordHttpMetrics_def Let_def key_def n_def d_def counter_of_def)
  have "map_of (requests m) key = map_option d_count (map_of (durations m) key)"
    by (simp add: map_of_map_count flip: same)
  then have "d_count d + 1 = n" by (simp add: d_def n_def counter_of_def split: option.splits)
  then have "map (\<lambda>(k, d). (k, d_count d)) (durations (recordHttpMetrics method route status nanos m)) =
      requests (recordHttpMetrics method route status nanos m)"
    by (simp add: eq map_set_map same)
  moreover have "1 \<le> n" using counter_of_nonneg [OF assms] by (simp add: n_def)
  then have "\<forall>(k, i) \<in> set (map_set key n (requests m)). 1 \<le> i"
    using pos by (auto simp: map_set_def)
  ultimately show "metrics_ok (recordHttpMetrics method route status nanos m)"
    using dist by (simp add: metrics_ok_def eq map_set_keys)
  show "total (recordHttpMetrics method route status nanos m) = total m + 1"
    using map_set_sum [OF dist, of key n] by (simp add: total_def eq n_def counter_of_def)
qed


definition counted_key :: "'m setting \<Rightarrow> request_in \<Rightarrow> 'm server \<Rightarrow> string" where
  "counted_key S q s =
     metricKey (rq_method q)
       (if admitted S q s then case route_pattern (rq_route q) of Some r \<Rightarrow> r | None \<Rightarrow> ''unmatched'' else ''unmatched'')
       (show_int (int (fst (fst (serve_request S q s)))))"

lemma serve_metrics:
  assumes "enters S q"
  shows "sv_metrics (snd (serve_request S q s)) =
    counted q (if admitted S q s then route_pattern (rq_route q) else None) (fst (serve_request S q s)) (sv_metrics s)"
proof (cases "fst (apiRateLimiter S q s)")
  case None
  with assms have adm: "admitted S q s" by (simp add: admitted_def)
  then obtain body where "serve_request S q s =
      (let (answer, db) = dispatch S q body (rq_route q) (snd (apiRateLimiter S q s)) in
      (answer, (snd (apiRateLimiter S q s))\<lparr>sv_db := db,
         sv_metrics := counted q (route_pattern (rq_route q)) answer (sv_metrics s)\<rparr>))"
    by (rule serve_admitted)
  then show ?thesis using adm by (simp add: case_prod_beta Let_def)
next
  case (Some answer)
  with assms show ?thesis by (simp add: serve_refused admitted_def)
qed

text \<open>The keys that are counted while requests are served one after the other.\<close>

primrec counted_keys :: "'m setting \<Rightarrow> request_in list \<Rightarrow> 'm server \<Rightarrow> string list" where
  "counted_keys S [] s = []"
| "counted_keys S (q # qs) s =
     (if enters S q then [counted_key S q s] else []) @ counted_keys S qs (snd (serve_request S q s))"

lemma serve_all_counted:
  assumes "metrics_ok (sv_metrics s)"
  shows "metrics_ok (sv_metrics (snd (serve_all S qs s))) \<and>
    total (sv_metrics (snd (serve_all S qs s))) = total (sv_metrics s) + int (length (filter (enters S) qs)) \<and>
    counter_of key (sv_metrics (snd (serve_all S qs s))) =
      counter_of key (sv_metrics s) + int (count_list (counted_keys S qs s) key)"
  using assms
proof (induction qs arbitrary: s)
  case (Cons q qs)
  let ?s = "snd (serve_request S q s)"
  have rest: "snd (serve_all S (q # qs) s) = snd (serve_all S qs ?s)" by (simp add: case_prod_beta Let_def)
  have ok: "metrics_ok (sv_metrics ?s)"
    and total: "total (sv_metrics ?s) = total (sv_metrics s) + (if enters S q then 1 else 0)"
    using metrics_ok_recorded [OF Cons.prems]
    by (cases "enters S q"; simp add: serve_outside serve_metrics counted_def Cons.prems)+
  have counter: "counter_of key (sv_metrics ?s) =
      counter_of key (sv_metrics s) + (if enters S q \<and> key = counted_key S q s then 1 else 0)"
    by (cases "enters S q") (auto simp: serve_outside serve_metrics counted_def counter_recorded counted_key_def)
  show ?case unfolding rest using Cons.IH [OF ok] by (simp add: total counter)
qed simp

text \<open>The limiter in production, when its settings are whole numbers.\<close>

definition limits :: "'m setting \<Rightarrow> int \<Rightarrow> int \<Rightarrow> bool" where
  "limits S w m \<longleftrightarrow> is_production (st_loaded S) \<and>
     WINDOW_MS (st_loaded S) = Fin (of_int w) \<and> MAX_REQUESTS (st_loaded S) = Fin (of_int m)"

lemma limiter_production:
  assumes "limits S w m"
  shows "fst (apiRateLimiter S q s) = None \<longleftrightarrow>
      passed (fst (redisRateLimiter w m (rq_redis_fault q) (rq_ms q) (rq_ip q) (sv_redis s)))"
    and "sv_redis (snd (apiRateLimiter S q s)) =
      snd (redisRateLimiter w m (rq_redis_fault q) (rq_ms q) (rq_ip q) (sv_redis s))"
  using assms by (simp_all add: limits_def apiRateLimiter_def createRedisRateLimiter_whole refusal_None)

lemma serve_redis:
  "sv_redis (snd (serve_request S q s)) =
    (if enters S q then sv_redis (snd (apiRateLimiter S q s)) else sv_redis s)"
proof -
  consider (outside) "\<not> enters S q" | (refused) answer where "enters S q" "fst (apiRateLimiter S q s) = Some answer"
    | (admitted) "admitted S q s"
    by (cases "fst (apiRateLimiter S q s)") (auto simp: admitted_def)
  then show ?thesis
  proof cases
    case admitted
    then obtain body where "serve_request S q s =
        (let (answer, db) = dispatch S q body (rq_route q) (snd (apiRateLimiter S q s)) in
        (answer, (snd (apiRateLimiter S q s))\<lparr>sv_db := db,
           sv_metrics := counted q (route_pattern (rq_route q)) answer (sv_metrics s)\<rparr>))"
      by (rule serve_admitted)
    with admitted show ?thesis by (simp add: admitted_def case_prod_beta Let_def)
  qed (simp_all add: serve_outside serve_refused)
qed

text \<open>The requests of an address that the script counts, and whether they reach their route.\<close>

definition scripted :: "'m setting \<Rightarrow> string \<Rightarrow> request_in \<Rightarrow> bool" where
  "scripted S ip q \<longleftrightarrow> enters S q \<and> rq_ip q = ip \<and> \<not> rq_redis_fault q"

primrec admissions :: "'m setting \<Rightarrow> string \<Rightarrow> request_in list \<Rightarrow> 'm server \<Rightarrow> bool list" where
  "admissions S ip [] s = []"
| "admissions S ip (q # qs) s =
     (if rq_ip q = ip then [admitted S q s] else []) @ admissions S ip qs (snd (serve_request S q s))"

lemma admissions_serve:
  assumes "limits S w m" and "sv_redis s (ip_key ip) = r (ip_key ip)"
  shows "passes (admissions S ip qs s) =
    passes (fst (serve w m ip (map rq_ms (filter (scripted S ip) qs)) r))"
  using assms(2)
proof (induction qs arbitrary: s r)
  case (Cons q qs)
  let ?s = "snd (serve_request S q s)"
  let ?lim = "\<lambda>r. redisRateLimiter w m (rq_redis_fault q) (rq_ms q) (rq_ip q) r"
  note prod = limiter_production [OF assms(1), of q s]
  show ?case
  proof (cases "scripted S ip q")
    case True
    then have q: "enters S q" "rq_ip q = ip" "\<not> rq_redis_fault q" by (simp_all add: scripted_def)
    have "sv_redis ?s (ip_key ip) = snd (?lim r) (ip_key ip)"
      using limiter_local [where ip = ip and r = "sv_redis s" and r' = r, OF Cons.prems] q by (simp add: serve_redis prod)
    note IH = Cons.IH [where s = ?s and r = "snd (?lim r)", OF this]
    have "admitted S q s = passed (fst (?lim r))"
      using limiter_local [where ip = ip and r = "sv_redis s" and r' = r, OF Cons.prems] q by (simp add: admitted_def prod)
    then show ?thesis using True q IH by (simp add: case_prod_beta Let_def passes_def)
  next
    case False
    have "sv_redis ?s (ip_key ip) = r (ip_key ip)"
      using False Cons.prems limiter_other_address [of ip "rq_ip q"]
      by (cases "rq_redis_fault q") (auto simp: scripted_def serve_redis prod)
    note IH = Cons.IH [where s = ?s and r = r, OF this]
    have "\<not> admitted S q s" if "rq_ip q = ip"
      using False that by (cases "rq_redis_fault q") (auto simp: scripted_def admitted_def prod)
    then show ?thesis using False IH by (auto simp: passes_def)
  qed
qed (simp add: passes_def)

lemma counters_ok_serve:
  assumes "limits S w m" and "0 < w" and "counters_ok (sv_redis s)"
  shows "counters_ok (sv_redis (snd (serve_request S q s)))"
  using counters_ok_limiter [OF assms(3,2)] assms(3)
  by (simp add: serve_redis limiter_production(2) [OF assms(1)])

section \<open>Sample\<close>

definition sample_setting :: "unit setting" where
  "sample_setting = \<lparr>st_hmac = (\<lambda>s d. ''f''), st_sha256 = (\<lambda>t. ''h''), st_env = sample_env, st_loaded = sample_env,
     st_pg = sample_pg, st_unhandled = (\<lambda>e. (500, JStr ''Internal Server Error'')), st_preflight = (204, JUndef),
     st_unmatched = (404, JStr ''Cannot GET''), st_arrange = (\<lambda>xs. xs), st_memory = (\<lambda>window max ip t m. (True, m)),
     st_uptime = (\<lambda>t. t),
     st_pool = \<lparr>totalCount = 1, idleCount = 1, waitingCount = 0\<rparr>\<rparr>"

definition sample_request :: "string \<Rightarrow> route \<Rightarrow> string \<Rightarrow> int \<Rightarrow> request_in" where
  "sample_request method r ip ms = \<lparr>rq_method = method, rq_route = r, rq_origin = None, rq_ip = ip,
     rq_headers = key_header ''k'', rq_body = Inr sample_body, rq_id = ''id'', rq_ms = ms, rq_now = 1000 * ms,
     rq_nanos = 0, rq_db_fault = None, rq_redis_fault = False, rq_pong = Some ''PONG''\<rparr>"

definition sample_server :: "unit server" where
  "sample_server = \<lparr>sv_db = empty_db, sv_redis = (\<lambda>_. None), sv_memory = (),
     sv_metrics = \<lparr>requests = [], durations = []\<rparr>\<rparr>"


section \<open>Properties\<close>

text \<open>C6: A request changes the tables only if it is a \<open>POST /pay\<close> that CORS, the body parser and
  the limiter let through, that presents the key of a client and whose answer is
  \<open>202 ACCEPTED\<close>; then one transaction is added and those stored before are as they were. Every
  other request, whatever its route, headers and body, leaves all tables alone.\<close>

theorem only_accepted_payments_write:
  "same_tables (sv_db s) (sv_db (snd (serve_request S q s))) \<or>
   (admitted S q s \<and> rq_route q = Pay \<and> (\<exists>client. apiKeyAuth (st_env S) (rq_headers q) = Inr (Client client)) \<and>
    fst (serve_request S q s) = accepted_answer (rq_id q) \<and>
    (\<exists>row. transactions (sv_db (snd (serve_request S q s))) = transactions (sv_db s) @ [row]))"
proof -
  consider "sv_db (snd (serve_request S q s)) = sv_db s"
    | body where "admitted S q s" "rq_route q = Pay" "rq_body q = Inr body"
      "fst (serve_request S q s) = fst (pay_route S q body (sv_db s))"
      "sv_db (snd (serve_request S q s)) = snd (pay_route S q body (sv_db s))"
    using serve_tables [of S q s] by blast
  then show ?thesis
  proof cases
    case 2
    then show ?thesis
      using post_pay_effect [of "sv_db s" "st_hmac S" "st_sha256 S" "st_env S" "st_pg S" "rq_id q" "rq_ms q"
          "rq_now q" "rq_headers q" body]
      by (auto simp: pay_route_def split: if_splits)
  qed simp
qed

text \<open>C28: The answer to a request that presents neither the key of a client nor that of an
  administrator depends on nothing that is stored: not on the tables and not on the counters
  of the process. Such a request does not change the tables either.\<close>

theorem no_key_no_data:
  assumes "apiKeyAuth (st_env S) (rq_headers q) = Inl a" and "adminApiKeyAuth (st_env S) (rq_headers q) = Inl b"
  shows "fst (serve_request S q (s\<lparr>sv_db := db, sv_metrics := m\<rparr>)) = fst (serve_request S q s) \<and>
    sv_db (snd (serve_request S q s)) = sv_db s"
proof -
  obtain c where either: "apiKeyOrAdminAuth (st_env S) (rq_headers q) = Inl c"
    using assms by (auto simp: apiKeyOrAdminAuth_def apiKeyAuth_def adminApiKeyAuth_def split: if_splits option.splits)
  let ?s = "s\<lparr>sv_db := db, sv_metrics := m\<rparr>"
  have limiter: "fst (apiRateLimiter S q ?s) = fst (apiRateLimiter S q s)"
    by (simp add: apiRateLimiter_def split: prod.splits limit_answer.splits)
  have route: "fst (dispatch S q body r u) = fst (dispatch S q body r v) \<and> snd (dispatch S q body r v) = sv_db v"
    for body r u v
    using assms either
    by (cases r) (auto simp: get_metrics_def status_route_def get_status_def get_dead_letter_def pay_route_def
        post_pay_def needs_database_def)
  have db: "sv_db (snd (serve_request S q s)) = sv_db s"
    using serve_tables [of S q s] assms by (auto simp: pay_route_def post_pay_def needs_database_def)
  consider (outside) "\<not> enters S q" | (refused) answer where "enters S q" "fst (apiRateLimiter S q s) = Some answer"
    | (admitted) "admitted S q s"
    by (cases "fst (apiRateLimiter S q s)") (auto simp: admitted_def)
  then have "fst (serve_request S q ?s) = fst (serve_request S q s)"
  proof cases
    case outside
    then show ?thesis by (auto simp: enters_def serve_request_def buildCorsOptions_def split: sum.splits)
  next
    case refused
    then show ?thesis using limiter by (simp add: serve_refused)
  next
    case admitted
    then have admitted': "admitted S q ?s" using limiter by (simp add: admitted_def)
    obtain body where body: "rq_body q = Inr body" using admitted by (rule serve_admitted)
    show ?thesis
      using route unfolding serve_admitted_answer [OF admitted body] serve_admitted_answer [OF admitted' body] by blast
  qed
  with db show ?thesis by simp
qed

theorem no_key_no_data_witness:
  "fst (serve_request sample_setting (sample_request ''GET'' DeadLetters ''ip'' 0\<lparr>rq_headers := (\<lambda>_. None)\<rparr>)
     (sample_server\<lparr>sv_db := snd (sample_pay empty_db), sv_metrics := sv_metrics sample_server\<rparr>)) =
   rejection 401 ''Unauthorized admin API request''"
proof -
  let ?q = "sample_request ''GET'' DeadLetters ''ip'' 0\<lparr>rq_headers := (\<lambda>_. None)\<rparr>"
  have none: "apiKeyAuth (st_env sample_setting) (rq_headers ?q) = Inl (rejection 401 ''Unauthorized API request'')"
    "adminApiKeyAuth (st_env sample_setting) (rq_headers ?q) = Inl (rejection 401 ''Unauthorized admin API request'')"
    by (simp_all add: apiKeyAuth_def adminApiKeyAuth_def authenticateApiKey_def isValidAdminApiKey_def)
  have "fst (serve_request sample_setting ?q sample_server) = rejection 401 ''Unauthorized admin API request''"
    by (simp add: serve_request_def buildCorsOptions_def isOriginAllowed_def apiRateLimiter_def get_dead_letter_def
        sample_setting_def sample_request_def is_production_def sample_env_def sample_server_def
        adminApiKeyAuth_def isValidAdminApiKey_def)
  then show ?thesis
    using no_key_no_data [where s = sample_server and db = "snd (sample_pay empty_db)" and m = "sv_metrics sample_server", OF none] by simp
qed

text \<open>C36: Whatever requests are served one after the other, every one that CORS and the body parser
  let through is counted exactly once, under its own method, route and status (those the
  limiter refuses under \<open>unmatched\<close>), and the counts of requests and of durations agree.\<close>

theorem requests_counted:
  assumes "metrics_ok (sv_metrics s)"
  shows "metrics_ok (sv_metrics (snd (serve_all S qs s))) \<and>
    total (sv_metrics (snd (serve_all S qs s))) = total (sv_metrics s) + int (length (filter (enters S) qs)) \<and>
    counter_of key (sv_metrics (snd (serve_all S qs s))) =
      counter_of key (sv_metrics s) + int (count_list (counted_keys S qs s) key)"
  using assms by (rule serve_all_counted)

theorem requests_counted_witness:
  "total (sv_metrics (snd (serve_all sample_setting
     [sample_request ''GET'' Live ''ip'' 0, sample_request ''OPTIONS'' Live ''ip'' 1] sample_server))) = 1"
proof -
  have "metrics_ok (sv_metrics sample_server)" by (simp add: metrics_ok_def sample_server_def)
  from requests_counted [OF this, of sample_setting
      "[sample_request ''GET'' Live ''ip'' 0, sample_request ''OPTIONS'' Live ''ip'' 1]"]
  show ?thesis
    by (simp add: total_def sample_server_def enters_def sample_request_def isOriginAllowed_def)
qed

text \<open>C35: In production, with whole settings, of the requests of one address within a span as long as
  the window at most twice the maximum reach their route, whatever requests of other addresses
  come between them, and also while Redis fails.\<close>

theorem routes_protected_by_limiter:
  assumes "is_production (st_loaded S)"
    and "WINDOW_MS (st_loaded S) = Fin (of_int w)" and "MAX_REQUESTS (st_loaded S) = Fin (of_int m)"
    and "0 < w" and "counters_ok (sv_redis s)"
    and "sorted (map rq_ms qs)" and "qs \<noteq> [] \<longrightarrow> rq_ms (last qs) < rq_ms (hd qs) + w"
  shows "passes (admissions S ip qs s) \<le> 2 * nat m"
proof -
  define ts where "ts = map rq_ms (filter (scripted S ip) qs)"
  have limits: "limits S w m" using assms(1-3) by (simp add: limits_def)
  have sorted: "sorted ts" using assms(6) by (simp add: ts_def sorted_filter)
  have "last ts < hd ts + w" if "ts \<noteq> []"
  proof -
    have sub: "set ts \<subseteq> set (map rq_ms qs)" by (auto simp: ts_def)
    with that have "qs \<noteq> []" by (auto simp: ts_def)
    moreover from that sub have "last ts \<in> set (map rq_ms qs)" "hd ts \<in> set (map rq_ms qs)"
      by (metis last_in_set hd_in_set subsetD)+
    ultimately have "last ts \<le> rq_ms (last qs)" "rq_ms (hd qs) \<le> hd ts"
      using assms(6) sorted_le_last [of "map rq_ms qs"] by (auto simp: last_map, cases qs, auto)
    then show ?thesis using assms(7) \<open>qs \<noteq> []\<close> by simp
  qed
  then show ?thesis
    using serve_span [OF sorted _ assms(4,5), of m ip]
      admissions_serve [OF limits, where s = s and r = "sv_redis s" and ip = ip and qs = qs]
    by (simp add: ts_def)
qed

definition limited_env :: env where
  "limited_env = (\<lambda>_. None)(''NODE_ENV'' \<mapsto> ''production'', ''RATE_LIMIT_MAX_REQUESTS'' \<mapsto> ''1'')"

lemma limited_env_settings:
  "is_production limited_env" "WINDOW_MS limited_env = Fin (of_int 60000)" "MAX_REQUESTS limited_env = Fin (of_int 1)"
  by code_simp+

theorem routes_protected_by_limiter_witness:
  "passes (admissions (sample_setting\<lparr>st_loaded := limited_env\<rparr>) ''ip''
     [sample_request ''GET'' Live ''ip'' 0, sample_request ''GET'' Live ''other'' 1,
      sample_request ''GET'' Live ''ip'' 2, sample_request ''GET'' Live ''ip'' 3] sample_server) \<le> 2"
proof -
  let ?S = "sample_setting\<lparr>st_loaded := limited_env\<rparr>"
  let ?qs = "[sample_request ''GET'' Live ''ip'' 0, sample_request ''GET'' Live ''other'' 1,
      sample_request ''GET'' Live ''ip'' 2, sample_request ''GET'' Live ''ip'' 3]"
  have settings: "is_production (st_loaded ?S)" "WINDOW_MS (st_loaded ?S) = Fin (of_int 60000)"
    "MAX_REQUESTS (st_loaded ?S) = Fin (of_int 1)"
    using limited_env_settings by simp_all
  have "counters_ok (sv_redis sample_server)" by (simp add: counters_ok_def sample_server_def)
  moreover have "sorted (map rq_ms ?qs)" by (simp add: sample_request_def)
  moreover have "?qs \<noteq> [] \<longrightarrow> rq_ms (last ?qs) < rq_ms (hd ?qs) + 60000"
    by (simp add: sample_request_def)
  ultimately have "passes (admissions ?S ''ip'' ?qs sample_server) \<le> 2 * nat 1"
    by (intro routes_protected_by_limiter [OF settings]) simp_all
  then show ?thesis by simp
qed

end
