(* ===== verification/Migrations.thy ===== *)
theory Migrations
  imports JsNumber Prelude
begin

text \<open>
  \<open>db/migrate.js\<close>: which files are migrations, and applying those that are not in the log
  of the database yet. The hash function and what a migration's SQL does to the schema are
  arguments; the advisory lock makes the run the only one.
\<close>

section \<open>The files\<close>

definition name_char :: "char \<Rightarrow> bool" where
  "name_char c =
     (let n = of_char c :: nat in
      is_digit c \<or> (97 \<le> n \<and> n \<le> 122) \<or> c = CHR ''_'')"

text \<open>\<open>/^\d+_[a-z0-9_]+\.sql$/\<close>: the digits end where the first underscore stands.\<close>

definition is_migration :: "string \<Rightarrow> bool" where
  "is_migration fileName =
     (let digits = takeWhile is_digit fileName; rest = dropWhile is_digit fileName in
      digits \<noteq> [] \<and> rest \<noteq> [] \<and> hd rest = CHR ''_'' \<and>
      (let name = tl rest; n = length name - 4 in
       4 < length name \<and> drop n name = ''.sql'' \<and> list_all name_char (take n name)))"

type_synonym directory = "(string \<times> string) list"

definition listMigrations :: "directory \<Rightarrow> string list" where
  "listMigrations dir = sort (filter is_migration (map fst dir))"

section \<open>The run\<close>

record 'd migrated =
  schema :: 'd
  schema_migrations :: "(string \<times> string) list"

text \<open>
  One file. A migration that fails is rolled back, its log entry with it; so is one whose
  name does not fit the column of the log.
\<close>

definition migrate_one ::
  "(string \<Rightarrow> string) \<Rightarrow> (string \<Rightarrow> 'd \<Rightarrow> 'd result) \<Rightarrow> string \<times> string \<Rightarrow> 'd migrated \<Rightarrow> unit result \<times> 'd migrated" where
  "migrate_one sha256 execute file s =
     (let (version, sql) = file; migrationChecksum = sha256 sql in
      case map_of (schema_migrations s) version of
        Some applied \<Rightarrow>
          if applied \<noteq> migrationChecksum
          then (Inl (Error (''Applied migration was modified: '' @ version)), s)
          else (Inr (), s)
      | None \<Rightarrow>
          (case execute sql (schema s) of
             Inl e \<Rightarrow> (Inl e, s)
           | Inr d \<Rightarrow>
               if 255 < length version \<or> 64 < length migrationChecksum
               then (Inl (DbError ''value too long for type character varying''), s)
               else (Inr (), \<lparr>schema = d,
                      schema_migrations = schema_migrations s @ [(version, migrationChecksum)]\<rparr>)))"

fun migrate_files ::
  "(string \<Rightarrow> string) \<Rightarrow> (string \<Rightarrow> 'd \<Rightarrow> 'd result) \<Rightarrow> (string \<times> string) list \<Rightarrow> 'd migrated \<Rightarrow>
    unit result \<times> 'd migrated" where
  "migrate_files sha256 execute [] s = (Inr (), s)"
| "migrate_files sha256 execute (f # fs) s =
     (case migrate_one sha256 execute f s of
        (Inl e, s') \<Rightarrow> (Inl e, s')
      | (Inr _, s') \<Rightarrow> migrate_files sha256 execute fs s')"

definition migrate ::
  "(string \<Rightarrow> string) \<Rightarrow> (string \<Rightarrow> 'd \<Rightarrow> 'd result) \<Rightarrow> directory \<Rightarrow> 'd migrated \<Rightarrow> unit result \<times> 'd migrated" where
  "migrate sha256 execute dir s =
     migrate_files sha256 execute (map (\<lambda>v. (v, the (map_of dir v))) (listMigrations dir)) s"

section \<open>What a run leaves\<close>

definition logged :: "(string \<Rightarrow> string) \<Rightarrow> string \<times> string \<Rightarrow> 'd migrated \<Rightarrow> bool" where
  "logged sha256 f s \<longleftrightarrow> map_of (schema_migrations s) (fst f) = Some (sha256 (snd f))"

lemma migrate_one_logs:
  "migrate_one sha256 execute f s = (Inr (), s') \<Longrightarrow> logged sha256 f s'"
  by (auto simp: migrate_one_def logged_def Let_def map_add_def split: option.splits sum.splits if_splits prod.splits)

lemma migrate_one_keeps:
  "map_of (schema_migrations s) v = Some c \<Longrightarrow>
    map_of (schema_migrations (snd (migrate_one sha256 execute f s))) v = Some c"
  by (auto simp: migrate_one_def Let_def map_add_def split: option.splits sum.splits prod.splits)

lemma migrate_one_logged [simp]: "logged sha256 f s \<Longrightarrow> migrate_one sha256 execute f s = (Inr (), s)"
  by (auto simp: migrate_one_def logged_def Let_def split: prod.splits)

lemma migrate_files_keeps:
  "map_of (schema_migrations s) v = Some c \<Longrightarrow>
    map_of (schema_migrations (snd (migrate_files sha256 execute fs s))) v = Some c"
proof (induction fs arbitrary: s)
  case (Cons f fs)
  obtain r s1 where one: "migrate_one sha256 execute f s = (r, s1)" by (cases "migrate_one sha256 execute f s")
  then have "map_of (schema_migrations s1) v = Some c"
    using migrate_one_keeps [OF Cons.prems, of sha256 execute f] by simp
  then show ?case using one Cons.IH [of s1] by (cases r) simp_all
qed simp

lemma migrate_files_all_logged:
  "migrate_files sha256 execute fs s = (Inr (), s') \<Longrightarrow> f \<in> set fs \<Longrightarrow> logged sha256 f s'"
proof (induction fs arbitrary: s)
  case (Cons g fs)
  then obtain s1 where s1: "migrate_one sha256 execute g s = (Inr (), s1)"
    "migrate_files sha256 execute fs s1 = (Inr (), s')"
    by (auto split: prod.splits sum.splits)
  show ?case
  proof (cases "f = g")
    case True
    with migrate_one_logs [OF s1(1)] show ?thesis
      using migrate_files_keeps [of s1 "fst g" _ sha256 execute fs] s1(2) by (simp add: logged_def)
  next
    case False
    with Cons s1 show ?thesis by auto
  qed
qed simp

lemma migrate_files_logged:
  "\<forall>f \<in> set fs. logged sha256 f s \<Longrightarrow> migrate_files sha256 execute fs s = (Inr (), s)"
  by (induction fs) auto

text \<open>The schema after a run: the new migrations one after the other, each once.\<close>

fun execute_all :: "(string \<Rightarrow> 'd \<Rightarrow> 'd result) \<Rightarrow> string list \<Rightarrow> 'd \<Rightarrow> 'd result" where
  "execute_all execute [] d = Inr d"
| "execute_all execute (sql # sqls) d = and_then (execute sql d) (execute_all execute sqls)"

definition pending_files :: "(string \<times> string) list \<Rightarrow> 'd migrated \<Rightarrow> (string \<times> string) list" where
  "pending_files fs s = filter (\<lambda>f. map_of (schema_migrations s) (fst f) = None) fs"

lemma migrate_files_result:
  "migrate_files sha256 execute fs s = (Inr (), s') \<Longrightarrow> distinct (map fst fs) \<Longrightarrow>
    execute_all execute (map snd (pending_files fs s)) (schema s) = Inr (schema s') \<and>
    schema_migrations s' =
      schema_migrations s @ map (\<lambda>f. (fst f, sha256 (snd f))) (pending_files fs s)"
proof (induction fs arbitrary: s)
  case Nil
  then show ?case by (simp add: pending_files_def)
next
  case (Cons f fs)
  obtain v sql where f: "f = (v, sql)" by (cases f)
  from Cons.prems obtain s1 where one: "migrate_one sha256 execute f s = (Inr (), s1)"
    and rest: "migrate_files sha256 execute fs s1 = (Inr (), s')"
    by (auto split: prod.splits sum.splits)
  show ?case
  proof (cases "map_of (schema_migrations s) v")
    case None
    with one f obtain d where d: "execute sql (schema s) = Inr d"
      "s1 = \<lparr>schema = d, schema_migrations = schema_migrations s @ [(v, sha256 sql)]\<rparr>"
      by (auto simp: migrate_one_def Let_def split: sum.splits if_splits)
    have "pending_files fs s1 = pending_files fs s"
      unfolding pending_files_def using Cons.prems(2) d(2) f
      by (intro filter_cong) (force simp: map_add_def split: option.split)+
    with Cons.IH [OF rest] Cons.prems(2) None d f show ?thesis by (simp add: pending_files_def)
  next
    case (Some c)
    with one f have "s1 = s" by (auto simp: migrate_one_def Let_def split: if_splits)
    with Cons.IH [OF rest] Cons.prems(2) Some f show ?thesis by (simp add: pending_files_def)
  qed
qed

lemma distinct_listMigrations: "distinct (map fst dir) \<Longrightarrow> distinct (listMigrations dir)"
  by (simp add: listMigrations_def)

section \<open>Properties\<close>

text \<open>C40: A run of the migrations that ends without an error has executed exactly those migration
  files that were not in the log yet, each once, in the order of their names, and has logged
  them; running it again executes nothing and changes nothing.\<close>

theorem migrations_applied_once:
  assumes "distinct (map fst dir)" and "migrate sha256 execute dir s = (Inr (), s')"
  shows "let files = map (\<lambda>v. (v, the (map_of dir v))) (listMigrations dir) in
    sorted (map fst files) \<and>
    execute_all execute (map snd (pending_files files s)) (schema s) = Inr (schema s') \<and>
    schema_migrations s' = schema_migrations s @ map (\<lambda>f. (fst f, sha256 (snd f))) (pending_files files s) \<and>
    migrate sha256 execute dir s' = (Inr (), s')"
proof -
  let ?files = "map (\<lambda>v. (v, the (map_of dir v))) (listMigrations dir)"
  have names: "map fst ?files = listMigrations dir" by (simp add: comp_def)
  have "distinct (map fst ?files)" using distinct_listMigrations [OF assms(1)] by (simp only: names)
  moreover have "sorted (map fst ?files)" unfolding names by (simp add: listMigrations_def)
  moreover have "migrate_files sha256 execute ?files s = (Inr (), s')" using assms(2) by (simp add: migrate_def)
  ultimately show ?thesis
    using migrate_files_result [of sha256 execute ?files s s'] migrate_files_all_logged [of sha256 execute ?files s s']
      migrate_files_logged [of ?files sha256 s' execute]
    by (auto simp: Let_def migrate_def)
qed

theorem migrations_applied_once_witness:
  "migrate id (\<lambda>sql d. Inr (d @ [sql])) [(''002_b.sql'', ''B''), (''readme.md'', ''x''), (''001_a.sql'', ''A'')]
      \<lparr>schema = [''A'', ''B''], schema_migrations = [(''001_a.sql'', ''A''), (''002_b.sql'', ''B'')]\<rparr> =
    (Inr (), \<lparr>schema = [''A'', ''B''], schema_migrations = [(''001_a.sql'', ''A''), (''002_b.sql'', ''B'')]\<rparr>)"
proof -
  have "distinct (map fst [(''002_b.sql'', ''B''), (''readme.md'', ''x''), (''001_a.sql'', ''A'')])" by simp
  moreover have "migrate id (\<lambda>sql d. Inr (d @ [sql])) [(''002_b.sql'', ''B''), (''readme.md'', ''x''), (''001_a.sql'', ''A'')]
      \<lparr>schema = [], schema_migrations = []\<rparr> =
    (Inr (), \<lparr>schema = [''A'', ''B''], schema_migrations = [(''001_a.sql'', ''A''), (''002_b.sql'', ''B'')]\<rparr>)"
    by code_simp
  ultimately show ?thesis by (rule migrations_applied_once [unfolded Let_def, THEN conjunct2, THEN conjunct2, THEN conjunct2])
qed

end
