(* ===== verification/Process.thy ===== *)
theory Process
  imports Server Migrations
begin

text \<open>
  The processes \<open>api.js\<close>, \<open>worker.js\<close> and \<open>outbox.js\<close>: what each reads from its environment and
  when, the checks before it starts, how it closes what it holds, and the lines it logs; with
  the connection settings of \<open>transactionQueue.js\<close> and \<open>rateLimiter.js\<close> and the command line of
  \<open>migrate.js\<close>. The package \<open>dotenv\<close> is an argument: it maps the environment a process was
  started with to the one after its file was read.
\<close>

section \<open>Settings\<close>

definition env_or :: "env \<Rightarrow> string \<Rightarrow> string \<Rightarrow> string" where
  "env_or env name fallback = (case env_text env name of Some s \<Rightarrow> s | None \<Rightarrow> fallback)"

record queue_options =
  qo_host :: string
  qo_port :: jsnum
  qo_password :: "string option"

definition queue_connection :: "env \<Rightarrow> queue_options" where
  "queue_connection env = \<lparr>qo_host = env_or env ''REDIS_HOST'' ''127.0.0.1'',
     qo_port = env_number env ''REDIS_PORT'' 6379, qo_password = env_text env ''REDIS_PASSWORD''\<rparr>"

datatype redis_options = RedisUrl string | RedisAt string jsnum "string option"

definition createRedisClient :: "env \<Rightarrow> redis_options" where
  "createRedisClient env =
     (case env_text env ''REDIS_URL'' of
        Some url \<Rightarrow> RedisUrl url
      | None \<Rightarrow> RedisAt (env_or env ''REDIS_HOST'' ''127.0.0.1'') (env_number env ''REDIS_PORT'' 6379)
          (env_text env ''REDIS_PASSWORD''))"

text \<open>The client of the limiter is made when it is first needed, and again after it was closed.\<close>

definition getRedisClient :: "env \<Rightarrow> redis_options option \<Rightarrow> redis_options \<times> redis_options option" where
  "getRedisClient env redisClient =
     (case redisClient of
        None \<Rightarrow> (createRedisClient env, Some (createRedisClient env))
      | Some c \<Rightarrow> (c, Some c))"

definition closeRateLimiter :: "bool \<Rightarrow> redis_options option \<Rightarrow> unit result \<times> redis_options option" where
  "closeRateLimiter quitFails redisClient =
     (case redisClient of
        None \<Rightarrow> (Inr (), None)
      | Some c \<Rightarrow> if quitFails then (Inl (Error ''Connection is closed.''), Some c) else (Inr (), None))"

definition PROCESSING_LEASE_MS :: "env \<Rightarrow> jsnum" where
  "PROCESSING_LEASE_MS env = env_number env ''TRANSACTION_PROCESSING_LEASE_MS'' 120000"

definition PROCESSING_HEARTBEAT_INTERVAL_MS :: "env \<Rightarrow> jsnum" where
  "PROCESSING_HEARTBEAT_INTERVAL_MS env = env_number env ''TRANSACTION_HEARTBEAT_INTERVAL_MS'' 30000"

definition DEFAULT_RECOVERY_INTERVAL_MS :: "env \<Rightarrow> jsnum" where
  "DEFAULT_RECOVERY_INTERVAL_MS env = env_number env ''TRANSACTION_RECOVERY_INTERVAL_MS'' 30000"

definition DEFAULT_PROCESSING_STALE_TIMEOUT_MS :: "env \<Rightarrow> jsnum" where
  "DEFAULT_PROCESSING_STALE_TIMEOUT_MS env = env_number env ''TRANSACTION_PROCESSING_STALE_TIMEOUT_MS'' 120000"

definition DEFAULT_STALE_TIMEOUT_MS :: "env \<Rightarrow> jsnum" where
  "DEFAULT_STALE_TIMEOUT_MS env = env_number env ''OUTBOX_STALE_TIMEOUT_MS'' 60000"

definition DEFAULT_MAX_RECOVERIES :: "env \<Rightarrow> jsnum" where
  "DEFAULT_MAX_RECOVERIES env = env_number env ''OUTBOX_MAX_RECOVERIES'' 3"

definition PROCESSOR_ID :: "env \<Rightarrow> string \<Rightarrow> string" where
  "PROCESSOR_ID env uuid = env_or env ''OUTBOX_PROCESSOR_ID'' (''outbox-'' @ uuid)"

text \<open>\<open>processorInstanceId\<close> of a worker process\<close>

definition processor_instance :: "string \<Rightarrow> int \<Rightarrow> string \<Rightarrow> string" where
  "processor_instance hostname pid uuid = hostname @ ''-'' @ show_int pid @ ''-'' @ uuid"

section \<open>Starting\<close>

text \<open>
  A module is evaluated once, when it is first required. \<open>api.js\<close> requires \<open>app.js\<close>, which
  requires \<open>rateLimiter.js\<close> before \<open>connection.js\<close> (where the file of \<open>dotenv\<close> is read) and
  \<open>config.js\<close> after it. \<open>worker.js\<close> and \<open>outbox.js\<close> require \<open>config.js\<close> first and check the
  configuration before they require \<open>connection.js\<close>.
\<close>

record api_process =
  ap_loaded :: env
  ap_env :: env
  ap_config :: config

record worker_process =
  wk_env :: env
  wk_config :: config
  wk_connection :: queue_options
  wk_lease :: jsnum
  wk_heartbeat :: jsnum

record outbox_process =
  ox_env :: env
  ox_id :: string
  ox_stale_event_timeout :: jsnum
  ox_max_recoveries :: jsnum
  ox_connection :: queue_options
  ox_recovery_interval :: jsnum
  ox_stale_timeout :: jsnum

definition start_api :: "(env \<Rightarrow> env) \<Rightarrow> env \<Rightarrow> api_process result" where
  "start_api dotenv env =
     (let loaded = env; env' = dotenv env; cfg = config_of env' in
      and_then (validateApiKeyConfiguration env') (\<lambda>_.
      and_then (validateAdminApiKeyConfiguration env') (\<lambda>_.
      and_then (validateRuntimeConfiguration env') (\<lambda>_.
      Inr \<lparr>ap_loaded = loaded, ap_env = env', ap_config = cfg\<rparr>))))"

definition start_worker :: "(env \<Rightarrow> env) \<Rightarrow> env \<Rightarrow> worker_process result" where
  "start_worker dotenv env =
     (let cfg = config_of env in
      and_then (validateRuntimeConfiguration env) (\<lambda>_.
      let env' = dotenv env in
      Inr \<lparr>wk_env = env', wk_config = cfg, wk_connection = queue_connection env',
        wk_lease = PROCESSING_LEASE_MS env', wk_heartbeat = PROCESSING_HEARTBEAT_INTERVAL_MS env'\<rparr>))"

definition start_outbox :: "(env \<Rightarrow> env) \<Rightarrow> string \<Rightarrow> env \<Rightarrow> outbox_process result" where
  "start_outbox dotenv uuid env =
     and_then (validateRuntimeConfiguration env) (\<lambda>_.
     let env' = dotenv env in
     Inr \<lparr>ox_env = env', ox_id = PROCESSOR_ID env' uuid,
       ox_stale_event_timeout = DEFAULT_STALE_TIMEOUT_MS env', ox_max_recoveries = DEFAULT_MAX_RECOVERIES env',
       ox_connection = queue_connection env',
       ox_recovery_interval = DEFAULT_RECOVERY_INTERVAL_MS env',
       ox_stale_timeout = DEFAULT_PROCESSING_STALE_TIMEOUT_MS env'\<rparr>)"

section \<open>Closing\<close>

datatype resource = HttpServer | LimiterClient | JobWorker | JobQueue | DbPool

text \<open>
  Closing one after the other, each after the one before: what was closed and the exit code.
  The first that fails ends the process.
\<close>

primrec close_in_order :: "(resource \<Rightarrow> bool) \<Rightarrow> resource list \<Rightarrow> resource list \<times> int" where
  "close_in_order fails [] = ([], 0)"
| "close_in_order fails (r # rs) =
     (if fails r then ([], 1) else let (closed, code) = close_in_order fails rs in (r # closed, code))"

definition shutdown_api :: "(resource \<Rightarrow> bool) \<Rightarrow> redis_options option \<Rightarrow> resource list \<times> int" where
  "shutdown_api fails redisClient =
     close_in_order fails ([HttpServer] @ (if redisClient = None then [] else [LimiterClient]) @ [DbPool])"

definition shutdown_worker :: "(resource \<Rightarrow> bool) \<Rightarrow> resource list \<times> int" where
  "shutdown_worker fails = close_in_order fails [JobWorker, JobQueue, DbPool]"

definition shutdown_outbox :: "(resource \<Rightarrow> bool) \<Rightarrow> resource list \<times> int" where
  "shutdown_outbox fails = close_in_order fails [JobQueue, DbPool]"

text \<open>\<open>node db/migrate.js\<close>: the exit code and what the run leaves.\<close>

definition migrate_cli ::
  "(string \<Rightarrow> string) \<Rightarrow> (string \<Rightarrow> 'd \<Rightarrow> 'd result) \<Rightarrow> (resource \<Rightarrow> bool) \<Rightarrow> directory \<Rightarrow> 'd migrated \<Rightarrow>
    int \<times> 'd migrated" where
  "migrate_cli sha256 execute fails dir s =
     (case migrate sha256 execute dir s of
        (Inr _, s') \<Rightarrow> (snd (close_in_order fails [DbPool]), s')
      | (Inl _, s') \<Rightarrow> (1, s'))"

section \<open>Logging\<close>

text \<open>The object \<open>logEvent\<close> prints; details that are not given are an empty object.\<close>

definition log_object :: "int \<Rightarrow> string \<Rightarrow> string \<Rightarrow> jsval \<Rightarrow> jsval \<Rightarrow> jsval" where
  "log_object ms service event transactionId details =
     JObj [(''timestamp'', JStr (toISOString ms)), (''service'', JStr service), (''event'', JStr event),
       (''transactionId'', transactionId), (''details'', if details = JUndef then JObj [] else details)]"

definition logEvent :: "int \<Rightarrow> string \<Rightarrow> string \<Rightarrow> jsval \<Rightarrow> jsval \<Rightarrow> string" where
  "logEvent ms service event transactionId details =
     (case to_json (log_object ms service event transactionId details) of
        Some v \<Rightarrow> json_text v | None \<Rightarrow> ''undefined'')"

text \<open>The lines \<open>POST /pay\<close> logs for a body and for what it stores.\<close>

definition received_line :: "int \<Rightarrow> jsval \<Rightarrow> string result" where
  "received_line ms txn =
     and_then (maskSensitiveData txn)
       (\<lambda>m. Inr (logEvent ms ''api'' ''RAW_TRANSACTION_RECEIVED'' (JStr ''N/A'') m))"

definition stored_line :: "int \<Rightarrow> jsval \<Rightarrow> string result" where
  "stored_line ms fullTxn =
     and_then (maskSensitiveData fullTxn)
       (\<lambda>m. Inr (logEvent ms ''api'' ''TRANSACTION_RECEIVED'' (field fullTxn ''id'') m))"


section \<open>Facts\<close>

lemma start_api_Inr_iff:
  "start_api dotenv env = Inr a \<longleftrightarrow>
    a = \<lparr>ap_loaded = env, ap_env = dotenv env, ap_config = config_of (dotenv env)\<rparr> \<and>
    validateApiKeyConfiguration (dotenv env) = Inr () \<and> validateAdminApiKeyConfiguration (dotenv env) = Inr () \<and>
    validateRuntimeConfiguration (dotenv env) = Inr ()"
  by (auto simp: start_api_def and_then_Inr_iff Let_def)

lemma start_worker_Inr_iff:
  "start_worker dotenv env = Inr w \<longleftrightarrow> validateRuntimeConfiguration env = Inr () \<and>
    w = \<lparr>wk_env = dotenv env, wk_config = config_of env, wk_connection = queue_connection (dotenv env),
      wk_lease = PROCESSING_LEASE_MS (dotenv env), wk_heartbeat = PROCESSING_HEARTBEAT_INTERVAL_MS (dotenv env)\<rparr>"
  by (auto simp: start_worker_def and_then_Inr_iff Let_def)

lemma env_number_unset: "env name = None \<Longrightarrow> env_number env name d = Fin d"
  by (simp add: env_number_def)

text \<open>Exit code 0 exactly if all was closed, in order; else what stands before the first failure.\<close>

lemma close_in_order_eq:
  "close_in_order fails rs =
    (takeWhile (\<lambda>r. \<not> fails r) rs, if list_all (\<lambda>r. \<not> fails r) rs then 0 else 1)"
  by (induction rs) auto

lemma shutdown_complete:
  "snd (shutdown_worker fails) = 0 \<longleftrightarrow> fst (shutdown_worker fails) = [JobWorker, JobQueue, DbPool]"
  "snd (shutdown_outbox fails) = 0 \<longleftrightarrow> fst (shutdown_outbox fails) = [JobQueue, DbPool]"
  "snd (shutdown_api fails c) = 0 \<longleftrightarrow>
    fst (shutdown_api fails c) = HttpServer # (if c = None then [] else [LimiterClient]) @ [DbPool]"
  by (auto simp: shutdown_worker_def shutdown_outbox_def shutdown_api_def close_in_order_eq)

text \<open>A closed limiter makes a new client when it is asked again.\<close>

lemma limiter_client_life:
  "snd (closeRateLimiter False c) = None"
  "fst (getRedisClient env (snd (closeRateLimiter False c))) = createRedisClient env"
  "getRedisClient env (snd (getRedisClient env c)) = getRedisClient env c"
  by (auto simp: closeRateLimiter_def getRedisClient_def split: option.split)

text \<open>What the mask adds to a value without sensitive members.\<close>

lemma delete_field_defined: "delete_field k v = Inr w \<Longrightarrow> w \<noteq> JUndef"
  by (cases v) auto

lemma set_field_defined [simp]: "set_field k u v = JUndef \<longleftrightarrow> v = JUndef"
  by (cases v) auto

lemma mask_shape:
  assumes "maskSensitiveData v = Inr m"
  obtains "clean m" "m \<noteq> JUndef"
  | w t where "clean w" "w \<noteq> JUndef" "length t \<le> 4"
      "m = set_field ''cardNumber'' (JStr (''****'' @ t)) (set_field ''cardLast4'' (JStr t) w)"
proof -
  from assms obtain c last4 s1 s2 where last4: "cardLast4 c = Inr last4"
    and s1: "delete_field ''cardFingerprint'' (removeSensitiveFields v) = Inr s1"
    and s2: "delete_field ''card_fingerprint'' s1 = Inr s2"
    and m: "m = (case last4 of
             Some t \<Rightarrow> if t \<noteq> []
               then set_field ''cardNumber'' (JStr (''****'' @ t)) (set_field ''cardLast4'' (JStr t) s2)
               else s2
           | None \<Rightarrow> s2)"
    by (auto simp: maskSensitiveData_def and_then_Inr_iff Let_def)
  have "clean s2"
    using clean_delete_field [OF s2] clean_delete_field [OF s1] clean_removeSensitiveFields by blast
  moreover have "s2 \<noteq> JUndef" using s2 by (rule delete_field_defined)
  moreover have "length t \<le> 4" if "last4 = Some t" for t
    using last4 that by (auto simp: cardLast4_def and_then_Inr_iff last_chars_def split: if_splits)
  ultimately show thesis using that m by (cases last4) (auto split: if_splits)
qed


text \<open>Nothing sensitive at any depth, but for a card number of which only four digits are left.\<close>

definition starred :: "jsval \<Rightarrow> bool" where
  "starred v = (case v of JStr s \<Rightarrow> take 4 s = ''****'' \<and> length s \<le> 8 | _ \<Rightarrow> False)"

fun masked :: "jsval \<Rightarrow> bool" where
  "masked (JObj ps) = list_all (\<lambda>(k, v). if k = ''cardNumber'' then starred v else \<not> sensitive_key k \<and> clean v) ps"
| "masked v = clean v"

lemma clean_masked: "clean v \<Longrightarrow> masked v"
  by (cases v) (auto simp: list_all_iff sensitive_key_def)

lemma mask_masked:
  assumes "maskSensitiveData v = Inr m"
  shows "masked m" and "m \<noteq> JUndef"
proof -
  show "m \<noteq> JUndef" using assms by (cases rule: mask_shape) auto
  show "masked m" using assms
  proof (cases rule: mask_shape)
    case 1
    then show ?thesis by (simp add: clean_masked)
  next
    case (2 w t)
    show ?thesis
    proof (cases w)
      case (JObj ps)
      have "clean (set_field ''cardLast4'' (JStr t) w)"
        using 2(1) by (intro clean_set_field) (simp_all add: sensitive_key_def)
      moreover from JObj have "set_field ''cardLast4'' (JStr t) w = JObj (assign_prop ''cardLast4'' (JStr t) ps)" by simp
      moreover have "starred (JStr (''****'' @ t))" using 2(3) by (simp add: starred_def)
      ultimately show ?thesis
        using 2(4) set_assign_prop [of "''cardNumber''" "JStr (''****'' @ t)" "assign_prop ''cardLast4'' (JStr t) ps"]
        by (auto simp: list_all_iff sensitive_key_def)
    qed (use 2 in \<open>simp_all add: clean_masked\<close>)
  qed
qed

lemma masked_to_json:
  assumes "masked v" and "to_json v = Some w"
  shows "masked w"
proof (cases v)
  case (JObj ps)
  with assms(2) have w: "w = JObj (json_props ps)" by simp
  have "if k = ''cardNumber'' then starred y else \<not> sensitive_key k \<and> clean y" if "(k, y) \<in> set (json_props ps)" for k y
  proof -
    from that obtain x where x: "(k, x) \<in> set ps" "to_json x = Some y" by (auto simp: in_json_props)
    with assms(1) JObj have "if k = ''cardNumber'' then starred x else \<not> sensitive_key k \<and> clean x"
      by (auto simp: list_all_iff)
    with x(2) show ?thesis by (auto simp: clean_to_json starred_def split: jsval.splits if_splits)
  qed
  then show ?thesis by (auto simp: w list_all_iff)
qed (use assms clean_to_json [OF assms(2)] in \<open>auto intro!: clean_masked\<close>)

lemma log_line:
  assumes "masked m" and "m \<noteq> JUndef" and "clean tid"
  obtains head m' where "logEvent ms service event tid m = json_text (JObj (head @ [(''details'', m')]))"
    and "clean (JObj head)" and "masked m'" and "to_json m = Some m'"
proof -
  define head where "head = [(''timestamp'', JStr (toISOString ms)), (''service'', JStr service),
      (''event'', JStr event), (''transactionId'', tid)]"
  obtain m' where m': "to_json m = Some m'" using assms(2) by (cases m) auto
  with assms(1) have masked: "masked m'" by (rule masked_to_json)
  have "to_json (log_object ms service event tid m) = Some (JObj (json_props (head @ [(''details'', m)])))"
    using assms(2) by (simp only: log_object_def head_def if_False to_json_JObj append.simps)
  moreover have "json_props (head @ [(''details'', m)]) = json_props head @ [(''details'', m')]"
    using m' by (simp add: json_props_def)
  ultimately have "logEvent ms service event tid m = json_text (JObj (json_props head @ [(''details'', m')]))"
    by (simp add: logEvent_def)
  moreover have "clean (JObj head)" using assms(3) by (simp add: head_def sensitive_key_def)
  then have "clean (JObj (json_props head))" by (rule clean_to_json [OF to_json_JObj])
  ultimately show thesis using masked m' by (rule that)
qed

text \<open>The members of the logged details, for an object with the members \<open>ps\<close>.\<close>

definition logged :: "props \<Rightarrow> string \<Rightarrow> jsval option" where
  "logged ps k =
     (if digits_named ps \<noteq> [] \<and> k = ''cardLast4'' then Some (JStr (last_chars 4 (digits_named ps)))
      else if digits_named ps \<noteq> [] \<and> k = ''cardNumber'' then Some (JStr (''****'' @ last_chars 4 (digits_named ps)))
      else if sensitive_key k \<or> k \<in> {''cardFingerprint'', ''card_fingerprint'', ''__proto__''} then None
      else (case map_of ps k of Some v \<Rightarrow> to_json (removeSensitiveFields v) | None \<Rightarrow> None))"

text \<open>What is shown of a card number with the digits \<open>ds\<close>.\<close>

definition shows_card :: "string \<Rightarrow> jsval \<Rightarrow> bool" where
  "shows_card ds m \<longleftrightarrow>
     (if ds = [] then field m ''cardNumber'' = JUndef
      else field m ''cardLast4'' = JStr (last_chars 4 ds) \<and>
        field m ''cardNumber'' \<in> {JUndef, JStr (''****'' @ last_chars 4 ds)})"

lemma mask_logged:
  assumes "maskSensitiveData (JObj ps) = Inr m" and "distinct (map fst ps)" and "to_json m = Some m'"
  shows "\<exists>qs. m' = JObj qs \<and> (\<forall>k. map_of qs k = logged ps k)"
proof -
  define rs where "rs = assign_all (map (\<lambda>(k, v). (k, removeSensitiveFields v)) (filter (\<lambda>(k, v). \<not> sensitive_key k) ps))"
  have rest: "map_of rs k = (if k = ''__proto__'' \<or> \<not> \<not> sensitive_key k then None
      else map_option removeSensitiveFields (map_of ps k))" for k
    unfolding rs_def by (rule map_of_removed [OF assms(2)])
  have removed: "removeSensitiveFields (JObj ps) = JObj rs" by (simp add: rs_def)
  let ?ds = "delete_prop ''card_fingerprint'' (delete_prop ''cardFingerprint'' rs)"
  from assms(1) obtain c l where c: "card_number_of (JObj ps) = Inr c" and l: "cardLast4 c = Inr l"
    and m: "m = (case l of
             Some t \<Rightarrow> if t \<noteq> []
               then set_field ''cardNumber'' (JStr (''****'' @ t)) (set_field ''cardLast4'' (JStr t) (JObj ?ds))
               else JObj ?ds
           | None \<Rightarrow> JObj ?ds)"
    unfolding maskSensitiveData_def removed
    by (auto simp: and_then_Inr_iff Let_def simp del: removeSensitiveFields.simps)
  from l obtain ds where ds: "onlyDigits c = Inr ds" by (auto simp: cardLast4_def and_then_Inr_iff)
  have l': "l = (if digits_named ps = [] then None else Some (last_chars 4 (digits_named ps)))"
    using l ds onlyDigits_named [OF c ds] by (auto simp: cardLast4_def and_then_Inr_iff)
  have "distinct (map fst rs)" by (simp add: rs_def ordered_distinct ordered_assign_all)
  then have d: "distinct (map fst ?ds)" by (simp add: delete_prop_def distinct_fst_filter)
  define ms where "ms = (if digits_named ps = [] then ?ds
    else assign_prop ''cardNumber'' (JStr (''****'' @ last_chars 4 (digits_named ps)))
      (assign_prop ''cardLast4'' (JStr (last_chars 4 (digits_named ps))) ?ds))"
  have ms: "m = JObj ms" using m l' by (simp add: ms_def)
  have "distinct (map fst ms)" using d by (simp add: ms_def distinct_assign_prop)
  then have "map_of (json_props ms) k = logged ps k" for k
    by (simp add: map_of_json_props ms_def rest logged_def sensitive_key_def split: option.split)
  with assms(3) ms show ?thesis by auto
qed

lemma logged_shows: "\<exists>qs. m = JObj qs \<and> (\<forall>k. map_of qs k = logged ps k) \<Longrightarrow> shows_card (digits_named ps) m"
  by (auto simp: shows_card_def logged_def prop_of_def sensitive_key_def)

text \<open>What is left of the card of a body in the transaction made of it.\<close>

lemma checked_card:
  assumes "check_payment hmac sha256 env txnId ms client key txn = Inr (Inr fullTxn)"
    and "distinct (map fst (own_props txn))"
  obtains fs where "fullTxn = JObj fs" and "distinct (map fst fs)" and "digits_named fs = []"
    and "\<And>ps. txn = JObj ps \<Longrightarrow> digits_named ps \<noteq> [] \<Longrightarrow>
      map_of fs ''cardLast4'' = Some (JStr (last_chars 4 (digits_named ps)))"
proof -
  obtain hash v where v: "validateTransaction (config_of env) txn = Inr (Valid v)"
    and safe: "sanitizeTransactionForPersistence hmac env (full_transaction txnId client key hash v ms) = Inr fullTxn"
    using assms(1) by (rule check_payment_saved)
  obtain fs where fs: "fullTxn = JObj fs" "ordered_props fs" using safe by (rule full_saved_object)
  obtain gs where gs: "full_transaction txnId client key hash v ms = JObj gs" by (rule full_transaction_JObj)
  have "card_number_of fullTxn = Inr (named_card fs)"
    by (simp add: fs(1) card_number_of_def named_card_def)
  then have "named_card fs = JUndef" using clean_no_card check_payment_stable(3) [OF assms(1)] by blast
  then have none: "digits_named fs = []" by (simp add: digits_named_def)
  obtain amount where
    v': "v = JObj (spread [] (own_props txn @ [(''amount'', JNum amount), (''type'', field txn ''type'')]))"
    using v by (rule validated_props)
  have card: "digits_named gs = digits_named ps" if txn: "txn = JObj ps" for ps
  proof -
    have "prop_of (own_props v) k = prop_of ps k" if "k \<in> {''cardNumber'', ''card_number''}" for k
      using map_of_object_literal [of "ps @ [(''amount'', JNum amount), (''type'', field txn ''type'')]"] assms(2) that
      by (auto simp: v' txn prop_of_def object_literal_def map_of_rev_distinct)
    moreover have "prop_of gs k = prop_of (own_props v) k" if "k \<in> {''cardNumber'', ''card_number''}" for k
    proof -
      have "distinct (map fst (own_props v))" by (simp add: v' distinct_spread)
      with full_other_field [of k v txnId client key hash ms] that show ?thesis
        by (auto simp: gs reserved_keys_def server_keys_def)
    qed
    ultimately have "named_card gs = named_card ps" by (simp add: named_card_def)
    then show ?thesis by (simp add: digits_named_def)
  qed
  have "map_of fs ''cardLast4'' = Some (JStr (last_chars 4 (digits_named gs)))" if ds: "digits_named gs \<noteq> []"
  proof -
    let ?l = "if digits_named gs = [] then None else Some (last_chars 4 (digits_named gs))"
    obtain rs where rs: "removeSensitiveFields (JObj gs) = JObj rs" by simp
    obtain q1 where q1: "set_optional ''cardLast4'' ''card_last4'' ?l (JObj rs) = JObj q1"
      "map_of q1 ''cardLast4'' = Some (JStr (last_chars 4 (digits_named gs)))"
      using ds by (simp add: set_optional_def)
    from sanitize_digits(1) [OF safe [unfolded gs]] obtain f where
      "fullTxn = set_optional ''cardFingerprint'' ''card_fingerprint'' f (JObj q1)"
      unfolding rs q1(1) by blast
    moreover obtain q2 where q2: "set_optional ''cardFingerprint'' ''card_fingerprint'' f (JObj q1) = JObj q2"
      "\<forall>k. k \<noteq> ''cardFingerprint'' \<and> k \<noteq> ''card_fingerprint'' \<longrightarrow> map_of q2 k = map_of q1 k"
      using set_optional_JObj by blast
    moreover have "map_of q2 ''cardLast4'' = map_of q1 ''cardLast4''" using q2(2) by simp
    ultimately show ?thesis using fs(1) q1(2) by (simp only: jsval.inject)
  qed
  with card none fs show thesis by (intro that [of fs]) (auto simp: ordered_distinct)
qed

lemma clean_field: "clean v \<Longrightarrow> clean (field v k)"
  by (cases v) (auto simp: field_def prop_of_def list_all_iff dest!: map_of_SomeD split: option.splits)

text \<open>The checks at the start of a production process.\<close>

definition production_ready :: "env \<Rightarrow> bool" where
  "production_ready env \<longleftrightarrow>
     parseApiKeys env \<noteq> [] \<and> (parseAdminApiKeys env \<noteq> [] \<or> env ''ADMIN_ENDPOINTS_ENABLED'' = Some ''false'') \<and>
     env_set env ''DATABASE_URL'' \<and> env_set env ''CARD_FINGERPRINT_SECRET'' \<and>
     (env_set env ''REDIS_URL'' \<or> env_set env ''REDIS_HOST'')"

lemma production_checks:
  assumes "is_production env"
  shows "production_ready env \<longleftrightarrow> validateApiKeyConfiguration env = Inr () \<and>
    validateAdminApiKeyConfiguration env = Inr () \<and> validateRuntimeConfiguration env = Inr ()"
  using assms
  by (auto simp: production_ready_def validateApiKeyConfiguration_def validateAdminApiKeyConfiguration_def
      validateRuntimeConfiguration_iff Let_def)

definition production_env :: env where
  "production_env = (\<lambda>_. None)(''NODE_ENV'' \<mapsto> ''production'', ''DATABASE_URL'' \<mapsto> ''postgres://d'',
     ''CARD_FINGERPRINT_SECRET'' \<mapsto> ''s'', ''REDIS_URL'' \<mapsto> ''redis://r'', ''API_KEYS'' \<mapsto> ''a:b'',
     ''ADMIN_API_KEYS'' \<mapsto> ''admin'')"

lemma production_env_production: "is_production production_env"
  by (simp add: production_env_def is_production_def)

lemma production_env_admin: "parseAdminApiKeys production_env = [''admin'']"
  by code_simp

lemma production_env_ready: "production_ready production_env"
  by code_simp

section \<open>Properties\<close>

text \<open>C32: The API starts in production exactly if keys of clients, keys of administrators (unless the
  admin endpoints are declared off), the database, the fingerprint secret and an address of
  Redis are configured; then only keys of the environment open anything, the development keys
  are out of use, and the fingerprint of every card can be computed.\<close>

theorem production_start:
  assumes "is_production (dotenv env)"
  shows "case start_api dotenv env of
      Inr a \<Rightarrow> production_ready (dotenv env) \<and>
        getConfiguredApiCredentials (ap_env a) = parseApiCredentials (dotenv env) \<and>
        getConfiguredAdminApiKeys (ap_env a) = parseAdminApiKeys (dotenv env) \<and>
        (\<exists>secret. getCardFingerprintSecret (ap_env a) = Inr secret)
    | Inl e \<Rightarrow> \<not> production_ready (dotenv env)"
proof (cases "start_api dotenv env")
  case (Inr a)
  then have checks: "validateApiKeyConfiguration (dotenv env) = Inr ()"
    "validateAdminApiKeyConfiguration (dotenv env) = Inr ()" "validateRuntimeConfiguration (dotenv env) = Inr ()"
    and env: "ap_env a = dotenv env"
    by (simp_all add: start_api_Inr_iff)
  then have "production_ready (dotenv env)" using production_checks [OF assms] by blast
  then show ?thesis
    using Inr env assms validated_secret [OF checks(3)]
    by (auto simp: production_ready_def getConfiguredApiCredentials_def getConfiguredAdminApiKeys_def parseApiKeys_def)
next
  case (Inl e)
  have "\<not> production_ready (dotenv env)"
  proof
    assume "production_ready (dotenv env)"
    then have "\<exists>a. start_api dotenv env = Inr a" using production_checks [OF assms] start_api_Inr_iff by blast
    with Inl show False by simp
  qed
  with Inl show ?thesis by simp
qed

theorem production_start_witness:
  "\<exists>a. start_api (\<lambda>e. e) production_env = Inr a \<and> getConfiguredAdminApiKeys (ap_env a) = [''admin'']"
proof -
  have "is_production ((\<lambda>e. e) production_env)" by (simp add: production_env_def is_production_def)
  from production_start [where dotenv = "\<lambda>e. e", OF this] show ?thesis
    using production_env_ready production_env_admin by (cases "start_api (\<lambda>e. e) production_env") auto
qed

text \<open>A queue needs \<open>REDIS_HOST\<close>: a worker whose environment gives the address of Redis as
  \<open>REDIS_URL\<close> only passes its check, and then looks for its jobs on \<open>127.0.0.1\<close>, while the
  limiter of the same deployment uses the address given. The same holds for the outbox process.\<close>

lemma queue_ignores_url:
  assumes "start_worker dotenv env = Inr w" and "start_outbox dotenv uuid env = Inr x"
    and "env_text (dotenv env) ''REDIS_URL'' = Some url" and "\<not> env_set (dotenv env) ''REDIS_HOST''"
  shows "createRedisClient (dotenv env) = RedisUrl url \<and>
    qo_host (wk_connection w) = ''127.0.0.1'' \<and> qo_host (ox_connection x) = ''127.0.0.1''"
proof -
  have "env_or (dotenv env) ''REDIS_HOST'' d = d" for d
    using assms(4) by (auto simp: env_or_def env_text_def env_set_def split: option.splits list.splits)
  with assms(1-3) show ?thesis
    by (auto simp: start_worker_Inr_iff start_outbox_def and_then_Inr_iff Let_def queue_connection_def createRedisClient_def)
qed

text \<open>C33: The file of \<open>dotenv\<close> is read too late for two modules. A worker decides payments with the
  limits and balances of the environment it was started with, whatever the file says. If its
  limits and \<open>NODE_ENV\<close> are set in the file only, the limiter of the API does not use them, also
  when the rest of the process runs in production: a request is admitted as the limiter in memory
  says for the built-in limits of 20 requests per minute, and the counters in Redis stay unused.\<close>

theorem env_file_read_late:
  assumes "start_worker dotenv env = Inr w" and "start_worker dotenv' env = Inr w'"
    and "start_api dotenv env = Inr a" and "st_loaded S = ap_loaded a" and "st_env S = ap_env a"
    and "env ''RATE_LIMIT_MAX_REQUESTS'' = None" and "env ''RATE_LIMIT_WINDOW_MS'' = None" and "env ''NODE_ENV'' = None"
  shows "decide (wk_config w) payment = decide (wk_config w') payment \<and>
    (admitted S q s \<longleftrightarrow> enters S q \<and> fst (st_memory S (Fin 60000) (Fin 20) (rq_ip q) (rq_ms q) (sv_memory s))) \<and>
    sv_redis (snd (serve_request S q s)) = sv_redis s"
proof -
  have loaded: "st_loaded S = env" using assms(3,4) by (simp add: start_api_Inr_iff)
  have "wk_config w = wk_config w'" using assms(1,2) by (simp add: start_worker_Inr_iff)
  moreover have "sv_redis (snd (serve_request S q s)) = sv_redis s"
    using assms(8) by (simp add: serve_redis apiRateLimiter_def loaded is_production_def split: prod.splits)
  moreover have "fst (apiRateLimiter S q s) = None \<longleftrightarrow>
      fst (st_memory S (Fin 60000) (Fin 20) (rq_ip q) (rq_ms q) (sv_memory s))"
    using assms(6-8)
    by (simp add: apiRateLimiter_def loaded is_production_def MAX_REQUESTS_def WINDOW_MS_def env_number_unset
        split: prod.split)
  ultimately show ?thesis by (simp add: admitted_def)
qed

text \<open>The file asks for production and for a single request per window; the second request still passes
  a limiter that counts up to its maximum.\<close>

definition strict_file :: env where
  "strict_file = production_env(''RATE_LIMIT_MAX_REQUESTS'' \<mapsto> ''1'')"

definition counting_setting :: "env \<Rightarrow> env \<Rightarrow> nat setting" where
  "counting_setting loaded env = \<lparr>st_hmac = st_hmac sample_setting, st_sha256 = st_sha256 sample_setting,
     st_env = env, st_loaded = loaded, st_pg = sample_pg, st_unhandled = st_unhandled sample_setting,
     st_preflight = (204, JUndef), st_unmatched = (404, JStr ''Cannot GET''), st_arrange = (\<lambda>xs. xs),
     st_memory = (\<lambda>window max ip ms n. (Fin (of_nat (n + 1)) \<le> max, n + 1)),
     st_uptime = (\<lambda>t. t), st_pool = st_pool sample_setting\<rparr>"

definition counting_server :: "nat \<Rightarrow> nat server" where
  "counting_server n = \<lparr>sv_db = empty_db, sv_redis = (\<lambda>_. None), sv_memory = n,
     sv_metrics = sv_metrics sample_server\<rparr>"

theorem env_file_read_late_witness:
  "\<exists>a. start_api (\<lambda>e. strict_file) (\<lambda>_. None) = Inr a \<and> is_production (ap_env a) \<and>
    MAX_REQUESTS (ap_env a) = Fin 1 \<and>
    admitted (counting_setting (ap_loaded a) (ap_env a)) (sample_request ''GET'' Live ''ip'' 0) (counting_server 1)"
proof -
  have none: "validateRuntimeConfiguration (\<lambda>_. None) = Inr ()"
    by (simp add: validateRuntimeConfiguration_def is_production_def)
  then obtain w w' where workers: "start_worker (\<lambda>e. strict_file) (\<lambda>_. None) = Inr w"
      "start_worker (\<lambda>e. e) (\<lambda>_. None) = Inr w'"
    by (simp add: start_worker_Inr_iff)
  have prod: "is_production strict_file" by (simp add: strict_file_def production_env_def is_production_def)
  have "production_ready strict_file" by code_simp
  then obtain a where a: "start_api (\<lambda>e. strict_file) (\<lambda>_. None) = Inr a"
    using production_checks [OF prod] by (fastforce simp: start_api_Inr_iff)
  then have env: "ap_env a = strict_file" by (simp add: start_api_Inr_iff)
  let ?S = "counting_setting (ap_loaded a) (ap_env a)" and ?q = "sample_request ''GET'' Live ''ip'' 0"
  have set: "st_loaded ?S = ap_loaded a" "st_env ?S = ap_env a" by (simp_all add: counting_setting_def)
  have "enters ?S ?q" by (simp add: enters_def counting_setting_def sample_request_def isOriginAllowed_def)
  then have "admitted ?S ?q (counting_server 1)"
    using env_file_read_late [where q = ?q and s = "counting_server 1", OF workers a set refl refl refl]
    by (simp add: counting_setting_def counting_server_def)
  moreover have "MAX_REQUESTS strict_file = Fin 1" by code_simp
  ultimately show ?thesis using a env prod by auto
qed

text \<open>C29: What \<open>POST /pay\<close> logs of a body, and of the transaction it stores. The details hold no PIN and
  no card number at any depth. Of the card number a body names (in either spelling, in any form
  that has digits) exactly the last four digits are shown, as \<open>cardLast4\<close> and, in the line of the
  body itself, behind four stars as \<open>cardNumber\<close>. The other members of the object logged appear as
  they are, with their own sensitive members removed, and the fingerprints are left out. (What a body
  calls \<open>cardLast4\<close> itself, while it names no card number, is such another member.)\<close>

theorem payment_log_masked:
  assumes "distinct (map fst (own_props txn))"
    and "src = txn \<and> received_line ms txn = Inr line \<or>
      (check_payment hmac sha256 env txnId ms client key txn = Inr (Inr src) \<and> stored_line ms src = Inr line)"
  shows "\<exists>head m. line = json_text (JObj (head @ [(''details'', m)])) \<and> clean (JObj head) \<and> masked m \<and>
    (\<forall>ps. txn = JObj ps \<longrightarrow> shows_card (digits_named ps) m) \<and>
    (\<forall>ps. src = JObj ps \<longrightarrow> (\<exists>qs. m = JObj qs \<and> (\<forall>k. map_of qs k = logged ps k)))"
  using assms(2)
proof
  assume received: "src = txn \<and> received_line ms txn = Inr line"
  then obtain m where m: "maskSensitiveData txn = Inr m"
    and line: "line = logEvent ms ''api'' ''RAW_TRANSACTION_RECEIVED'' (JStr ''N/A'') m"
    by (auto simp: received_line_def and_then_Inr_iff)
  obtain head m' where log: "line = json_text (JObj (head @ [(''details'', m')]))" "clean (JObj head)" "masked m'"
    and m': "to_json m = Some m'"
    unfolding line by (rule log_line [OF mask_masked [OF m]]) auto
  have members: "\<exists>qs. m' = JObj qs \<and> (\<forall>k. map_of qs k = logged ps k)" if "txn = JObj ps" for ps
    using mask_logged [of ps m m'] m m' assms(1) that by simp
  have "shows_card (digits_named ps) m'" if "txn = JObj ps" for ps
    using members [OF that] logged_shows by blast
  with log members received show ?thesis by blast
next
  assume stored: "check_payment hmac sha256 env txnId ms client key txn = Inr (Inr src) \<and> stored_line ms src = Inr line"
  then obtain m where "clean src" and m: "maskSensitiveData src = Inr m"
    and line: "line = logEvent ms ''api'' ''TRANSACTION_RECEIVED'' (field src ''id'') m"
    by (auto simp: stored_line_def and_then_Inr_iff dest: check_payment_stable(3))
  obtain head m' where log: "line = json_text (JObj (head @ [(''details'', m')]))" "clean (JObj head)" "masked m'"
    and m': "to_json m = Some m'"
    unfolding line by (rule log_line [OF mask_masked [OF m] clean_field [OF \<open>clean src\<close>]]) auto
  obtain fs where src: "src = JObj fs" "distinct (map fst fs)" "digits_named fs = []"
    and last4: "\<And>ps. txn = JObj ps \<Longrightarrow> digits_named ps \<noteq> [] \<Longrightarrow>
      map_of fs ''cardLast4'' = Some (JStr (last_chars 4 (digits_named ps)))"
    using checked_card [of hmac sha256 env txnId ms client key txn src] stored assms(1) by blast
  obtain qs where qs: "m' = JObj qs" "\<And>k. map_of qs k = logged fs k"
    using mask_logged [of fs m m'] m m' src by auto
  have "shows_card (digits_named ps) m'" if "txn = JObj ps" for ps
    using last4 [OF that] qs src(3) by (auto simp: shows_card_def logged_def prop_of_def sensitive_key_def)
  with log qs src(1) show ?thesis by blast
qed

theorem payment_log_masked_witness:
  "\<exists>line head qs. received_line 0 (JObj [(''pin'', JStr ''1''), (''cardNumber'', JStr ''4000 1234 1234 1234'')]) = Inr line \<and>
    line = json_text (JObj (head @ [(''details'', JObj qs)])) \<and>
    map_of qs ''pin'' = None \<and> map_of qs ''cardLast4'' = Some (JStr ''1234'') \<and> map_of qs ''cardNumber'' = Some (JStr ''****1234'')"
proof -
  let ?ps = "[(''pin'', JStr ''1''), (''cardNumber'', JStr ''4000 1234 1234 1234'')]"
  have "case received_line 0 (JObj ?ps) of Inr line \<Rightarrow> True | Inl e \<Rightarrow> False" by code_simp
  then obtain line where line: "received_line 0 (JObj ?ps) = Inr line" by (auto split: sum.splits)
  have keys: "distinct (map fst (own_props (JObj ?ps)))" by simp
  from payment_log_masked [where txn = "JObj ?ps" and src = "JObj ?ps" and ms = 0, OF keys disjI1, OF conjI, OF refl line]
  obtain head qs where log: "line = json_text (JObj (head @ [(''details'', JObj qs)]))" and qs: "\<And>k. map_of qs k = logged ?ps k"
    by blast
  have "logged ?ps ''pin'' = None \<and> logged ?ps ''cardLast4'' = Some (JStr ''1234'') \<and>
      logged ?ps ''cardNumber'' = Some (JStr ''****1234'')"
    by code_simp
  with line log qs show ?thesis by (intro exI [of _ line] exI [of _ head] exI [of _ qs]) simp
qed

end
