(* ===== verification/Progress.thy ===== *)
theory Progress
  imports System
begin

text \<open>
  What the processes together can still reach: from every state they can get into, whatever has
  failed before and whoever has crashed, a transaction that is not final can be brought to its
  end by the recovery timer and one more delivery of its job.
\<close>

section \<open>Every row keeps a timeline the worker can extend\<close>

definition listed :: "txn_row \<Rightarrow> bool" where
  "listed r \<longleftrightarrow> (\<exists>ts. processing_timeline r = Some (JArr ts))"

definition timelines_listed :: "db \<Rightarrow> bool" where
  "timelines_listed db \<longleftrightarrow> (\<forall>r \<in> set (transactions db). listed r)"

lemma listed_rows:
  "listed r \<Longrightarrow> listed (set_processing w (Some (JArr timeline)) leaseMs now r)"
  "listed r \<Longrightarrow> listed (renew leaseMs now r)"
  "listed r \<Longrightarrow> listed (recovered_row now r)"
  "listed r \<Longrightarrow> u_timeline u \<in> {None, Some (JArr timeline)} \<Longrightarrow> listed (clear_processing (apply_updates u now r))"
  by (auto simp: listed_def set_processing_def renew_def recovered_row_def clear_processing_def
      apply_updates_def json_param_def coalesce_def)

lemma timelines_update:
  assumes "timelines_listed db" and "\<And>r. listed r \<Longrightarrow> listed (f r)"
  shows "timelines_listed (snd (update_transactions p f db))"
  using assms by (auto simp: timelines_listed_def update_transactions_def elim!: in_update_whereE)

lemma timelines_update_one:
  "timelines_listed db \<Longrightarrow> (\<And>r. listed r \<Longrightarrow> listed (f r)) \<Longrightarrow> timelines_listed (snd (update_one tid g f db))"
  using timelines_update by (simp add: update_one_def case_prod_beta)

lemma timelines_same: "transactions db' = transactions db \<Longrightarrow> timelines_listed db \<Longrightarrow> timelines_listed db'"
  by (simp add: timelines_listed_def)

lemma timelines_reset:
  "timelines_listed db \<Longrightarrow> timelines_listed (reset_transaction pg job status message now db)"
  by (auto simp: reset_transaction_def updateTransaction_def Let_def case_prod_beta listed_rows(4)
      intro!: timelines_update split: option.split)

lemma timelines_dead_letter:
  "timelines_listed db \<Longrightarrow> timelines_listed (snd (saveDeadLetterJob hmac env pg now job message db))"
  by (rule timelines_same) simp_all

lemma timelines_request:
  assumes "timelines_listed db" and "pg_laws (w_pg W)"
  shows "timelines_listed (request_db W txnId ms now hdr body db)"
proof (rule request_db_pay [of W txnId ms now hdr body db])
  fix client answer
  assume "pay (w_hmac W) (w_sha256 W) (w_env W) (w_pg W) txnId ms now client hdr body db =
      (answer, request_db W txnId ms now hdr body db)"
  then show ?thesis
  proof (cases rule: pay_cases)
    case refused
    with assms(1) show ?thesis by (simp add: same_tables_def timelines_listed_def)
  next
    case (accepted key fullTxn row payload)
    have "listed row" using accepted_row(5) [OF accepted(3,5) assms(2)] by (simp add: listed_def)
    with assms(1) accepted_tables(1) [OF accepted(9)] show ?thesis by (simp add: timelines_listed_def)
  qed
qed (use assms(1) in simp)

lemma timelines_step:
  assumes "step W l s s'" and "timelines_listed (store s)" and "pg_laws (w_pg W)"
  shows "timelines_listed (store s')"
  using step_effect [OF assms(1)]
proof cases
  case (finishes i r t u timeline w now)
  then show ?thesis using assms(2) by (simp add: as_update_one) (intro timelines_update_one, simp_all add: listed_rows)
qed (use assms(2,3) in \<open>simp_all add: timelines_request timelines_reset timelines_dead_letter as_update_one
    timelines_update_one timelines_update listed_rows recoverStaleProcessingTransactions_def
    timelines_same [OF event_frame_others(1) [OF event_frame_ops(1)]]
    timelines_same [OF event_frame_others(1) [OF event_frame_ops(2)]]
    timelines_same [OF event_frame_others(1) [OF event_frame_settled]]\<close>)

section \<open>Recovery frees what nobody finishes\<close>

text \<open>A moment at which the transaction's lease, if it has one, is over.\<close>

definition lease_over :: "txn_row \<Rightarrow> int" where
  "lease_over r = (case lease_expires_at r of Some t \<Rightarrow> t + 1 | None \<Rightarrow> 0)"

lemma recovery_frees:
  assumes "sys_inv s" and "timelines_listed (store s)"
    and "getTransaction tid (store s) = Some r" and "txn_status r \<in> {''ACCEPTED'', ''PROCESSING''}"
  obtains r' ts where "getTransaction tid (snd (runTransactionRecoveryOnce stale (lease_over r) (store s))) = Some r'"
    and "txn_status r' = ''ACCEPTED''" and "processing_timeline r' = Some (JArr ts)"
proof -
  have row: "r \<in> set (transactions (store s))"
    using assms(3) by (auto simp: getTransaction_def dest: find_row_SomeD)
  then have lease: "lease_columns r" using assms(1) by (simp add: sys_inv_def lease_inv_def)
  have list: "listed r" using row assms(2) by (simp add: timelines_listed_def)
  define r' where "r' = (if expired stale (lease_over r) r then recovered_row (lease_over r) r else r)"
  have "txn_status r' = ''ACCEPTED''"
  proof (cases "txn_status r = ''PROCESSING''")
    case True
    with lease have "expired stale (lease_over r) r"
      by (auto simp: lease_columns_def expired_def lease_over_def coalesce_def)
    then show ?thesis by (simp add: r'_def recovered_row_def clear_processing_def)
  qed (use assms(4) in \<open>simp add: r'_def expired_def\<close>)
  moreover have "listed r'" using list listed_rows(3) by (simp add: r'_def)
  then obtain ts where "processing_timeline r' = Some (JArr ts)" unfolding listed_def by blast
  moreover have "getTransaction tid (snd (runTransactionRecoveryOnce stale (lease_over r) (store s))) = Some r'"
    using assms(3) by (simp add: runTransactionRecoveryOnce_def recover_get r'_def)
  ultimately show thesis by (intro that)
qed

section \<open>Properties\<close>

text \<open>C12: No reachable state is a dead end for a payment. From every state the processes can get into
  together, after any faults, lost answers and crashes, a transaction that waits or is being
  processed (by a live worker or a dead one) can be finished: once its lease is over, the recovery
  timer and one fresh delivery of a job for it, whose processing does not fail, bring it to the
  decided status in five steps.\<close>

theorem completion_stays_possible:
  assumes "steps W ls s0 s" and "sys_inv s0" and "timelines_listed (store s0)" and "pg_laws (w_pg W)"
    and "getTransaction tid (store s) = Some r" and "txn_status r \<in> {''ACCEPTED'', ''PROCESSING''}"
    and "runs s i = None" and "job_names job tid"
    and "\<And>e. decide (config_of (w_env W)) (job_data job) \<noteq> Throw e"
  shows "\<exists>s' st. steps W [Recover (lease_over r), Deliver i w job, Read i ms, Take i now, Settle i (ms, ms) now] s s' \<and>
    finished_run_of s' tid i st \<and> st \<in> {''COMPLETED'', ''DECLINED''} \<and>
    (\<exists>row. getTransaction tid (store s') = Some row \<and> txn_status row = st \<and> lease_columns row)"
proof -
  let ?P = "\<lambda>s. sys_inv s \<and> timelines_listed (store s)"
  have inv: "sys_inv s" "timelines_listed (store s)"
    using steps_invariant [OF assms(1), of ?P] assms(2-4) sys_inv_step timelines_step by blast+
  let ?s1 = "s\<lparr>store := snd (runTransactionRecoveryOnce (w_stale W) (lease_over r) (store s))\<rparr>"
  have recover: "step W (Recover (lease_over r)) s ?s1" by (rule step.recover)
  obtain r' ts where r': "getTransaction tid (store ?s1) = Some r'" "txn_status r' = ''ACCEPTED''"
      "processing_timeline r' = Some (JArr ts)"
    using recovery_frees [OF inv assms(5,6), of "w_stale W"] by auto
  have "sys_inv ?s1" "runs ?s1 i = None" using sys_inv_step [OF recover inv(1) assms(4)] assms(7) by simp_all
  from delivery_completes [OF assms(4,8) this r' assms(9), of w ms now]
  show ?thesis using more_steps [OF recover] by blast
qed

text \<open>A worker takes the transaction and is never heard of again; another one finishes it.\<close>

theorem completion_stays_possible_witness:
  "\<exists>s t s' st. steps sample_world [Deliver 0 ''w'' (queued_sample (JNum (Fin 5))), Read 0 5, Take 0 6] sample_sys s \<and>
     steps sample_world [Recover t, Deliver 1 ''v'' (queued_sample (JNum (Fin 5))), Read 1 7, Take 1 8, Settle 1 (7, 7) 8] s s' \<and>
     finished_run_of s' ''t'' 1 st"
proof -
  let ?job = "queued_sample (JNum (Fin 5))"
  have names: "job_names ?job ''t''" by (rule queued_sample_names) simp_all
  have inv: "sys_inv sample_sys" "runs sample_sys 0 = None" using sample_sys_started by (simp_all add: started_def)
  obtain s where run: "steps sample_world [Deliver 0 ''w'' ?job, Read 0 5, Take 0 6] sample_sys s"
    and at: "holder (store s) ''t'' = Some ''w''"
    by (rule run_to_claim [OF sample_world_simps(3) names inv sample_sys_row sample_db_row(3,4) refl])
  obtain r where r: "getTransaction ''t'' (store s) = Some r" "txn_status r \<in> {''ACCEPTED'', ''PROCESSING''}"
    using at by (auto simp: holder_def split: option.splits if_splits)
  have new: "runs s 1 = None"
    by (rule unstarted_steps [OF run]) (simp_all add: sample_sys_def)
  have list: "timelines_listed (store sample_sys)"
    by (simp add: timelines_listed_def listed_def sample_sys_def sample_db_def) (simp add: sample_row_def)
  have "\<And>e. decide (config_of (w_env sample_world)) (job_data ?job) \<noteq> Throw e" by (simp add: sample_decisions)
  from completion_stays_possible [OF run inv(1) list sample_world_simps(3) r new names this]
  show ?thesis using run by blast
qed

end
