(* ===== verification/Reachable.thy ===== *)
theory Reachable
  imports System
begin

text \<open>
  What holds of the events and of the stored payloads in every state the processes can reach
  together: how often an event is taken back from a silent processor, and that no payload ever
  holds a PIN or a card number.
\<close>

section \<open>The bound on recoveries\<close>

text \<open>
  The marks of the outbox processor are not guarded: one that comes after an event has been
  given up reopens it. A run of the system, with the number of such late marks of one event.
\<close>

fun marks_event :: "int \<Rightarrow> label \<Rightarrow> bool" where
  "marks_event i (SettleEvent j h) \<longleftrightarrow> i = j"
| "marks_event i l \<longleftrightarrow> False"

definition event_given_up :: "int \<Rightarrow> db \<Rightarrow> bool" where
  "event_given_up i db \<longleftrightarrow> list_ex (\<lambda>e. ob_id e = i \<and> ob_status e = ''OUTBOX_FAILED'') (outbox_events db)"

inductive late_marks :: "world \<Rightarrow> int \<Rightarrow> label list \<Rightarrow> sys \<Rightarrow> sys \<Rightarrow> nat \<Rightarrow> bool" for W :: world and i :: int where
  no_mark: "late_marks W i [] s s 0"
| more_marks: "step W l s s1 \<Longrightarrow> late_marks W i ls s1 s2 k \<Longrightarrow>
    late_marks W i (l # ls) s s2 ((if marks_event i l \<and> event_given_up i (store s) then 1 else 0) + k)"

lemma late_marks_steps: "late_marks W i ls s s' k \<Longrightarrow> steps W ls s s'"
  by (induction rule: late_marks.induct) (auto intro: steps.intros)

text \<open>Every run has its number of late marks.\<close>

lemma steps_late_marks: "steps W ls s s' \<Longrightarrow> \<exists>k. late_marks W i ls s s' k"
  by (induction rule: steps.induct) (blast intro: late_marks.intros)+

text \<open>At most \<open>b\<close> recoveries, the last one only of an event that was given up then.\<close>

definition recovery_bound :: "int \<Rightarrow> outbox_row \<Rightarrow> bool" where
  "recovery_bound b e \<longleftrightarrow> ob_recovery_count e \<le> b \<and>
     (ob_status e \<noteq> ''OUTBOX_FAILED'' \<longrightarrow> ob_recovery_count e < b)"

definition bounded_at :: "int \<Rightarrow> int \<Rightarrow> db \<Rightarrow> bool" where
  "bounded_at i b db \<longleftrightarrow> (\<forall>e \<in> set (outbox_events db). ob_id e = i \<longrightarrow> recovery_bound b e)"

lemma bounded_update:
  assumes "bounded_at i b db" and "\<And>e. ob_id (f e) = ob_id e"
    and "\<And>e. e \<in> set (outbox_events db) \<Longrightarrow> ob_id e = i \<Longrightarrow> p e \<Longrightarrow> recovery_bound b e \<Longrightarrow> recovery_bound b' (f e)"
    and "b \<le> b'"
  shows "bounded_at i b' (update_outbox p f db)"
  using assms by (auto simp: bounded_at_def update_outbox_def recovery_bound_def elim!: in_update_whereE)

lemma bounded_recovers:
  "bounded_at i b db \<Longrightarrow> m \<le> b \<Longrightarrow> bounded_at i b (snd (recoverStaleOutboxEvents stale m ids now db))"
  by (auto simp: recoverStaleOutboxEvents_def Let_def stale_event_def take_back_def recovery_bound_def
      intro!: bounded_update [of i b])

text \<open>Only pending events are claimed.\<close>

lemma claimed_pending:
  assumes "unique_event_ids db" and "e \<in> set (outbox_events db)"
    and "d \<in> set (take limit (pending_events ids locked db))" and "ob_id e = ob_id d"
  shows "ob_status e = ''PENDING''"
proof -
  have "d \<in> set (outbox_events db)" "ob_status d = ''PENDING''"
    using set_take_subset assms(3) by (fastforce simp: set_pending_events)+
  with assms show ?thesis
    using distinct_key_unique [of ob_id "outbox_events db" e d] by (simp add: unique_event_ids_def)
qed

lemma bounded_claims:
  assumes "bounded_at i b db" and "unique_event_ids db"
  shows "bounded_at i b (snd (claimOutboxEvents limit p ids locked now db))"
  using assms(1) claimed_pending [OF assms(2)]
  by (auto simp: claimOutboxEvents_def Let_def recovery_bound_def claim_event_def intro!: bounded_update [of i b])

lemma bounded_marks:
  assumes "bounded_at i b db"
  shows "bounded_at i (b + (if i = j \<and> event_given_up i db then 1 else 0)) (update_outbox (\<lambda>r. ob_id r = j) (settled h) db)"
proof (cases "i = j \<and> event_given_up i db")
  case True
  then have "bounded_at i (b + 1) (update_outbox (\<lambda>r. ob_id r = j) (settled h) db)"
    using assms by (intro bounded_update [of i b]) (auto simp: recovery_bound_def settled_def)
  then show ?thesis by (simp only: if_P [OF True])
next
  case False
  then have "bounded_at i b (update_outbox (\<lambda>r. ob_id r = j) (settled h) db)"
    using assms
    by (intro bounded_update [of i b]) (auto simp: recovery_bound_def settled_def event_given_up_def list_ex_iff)
  then show ?thesis by (simp only: if_not_P [OF False] add_0_right)
qed

lemma bounded_request:
  assumes "bounded_at i b db" and "0 < b"
  shows "bounded_at i b (request_db W txnId ms now hdr body db)"
proof (rule request_db_pay [of W txnId ms now hdr body db])
  fix client answer
  assume "pay (w_hmac W) (w_sha256 W) (w_env W) (w_pg W) txnId ms now client hdr body db =
      (answer, request_db W txnId ms now hdr body db)"
  then show ?thesis
  proof (cases rule: pay_cases)
    case refused
    with assms(1) show ?thesis by (simp add: same_tables_def bounded_at_def)
  next
    case (accepted key fullTxn row payload)
    with assms show ?thesis
      by (auto simp: accepted(9) bounded_at_def recovery_bound_def outbox_insert_def Let_def)
  qed
qed (use assms(1) in simp)

lemma bounded_same: "outbox_events db' = outbox_events db \<Longrightarrow> bounded_at i b db \<Longrightarrow> bounded_at i b db'"
  by (simp add: bounded_at_def)

lemma bounded_step:
  assumes "step W l s s'" and "bounded_at i b (store s)" and "sys_inv s"
    and "w_max_recoveries W \<le> b" and "0 < b"
  shows "bounded_at i (b + (if marks_event i l \<and> event_given_up i (store s) then 1 else 0)) (store s')"
proof -
  have unique: "unique_event_ids (store s)"
    using assms(3) store_inv_event_ids by (simp add: sys_inv_def)
  show ?thesis
  proof (cases "\<exists>j h. l = SettleEvent j h")
    case True
    then obtain j h where l: "l = SettleEvent j h" by blast
    from assms(1) [unfolded l] show ?thesis
      by cases (use bounded_marks [OF assms(2), of j h] l in simp)
  next
    case False
    then have none: "\<not> marks_event i l" by (cases l) auto
    from step_effect [OF assms(1)] have "bounded_at i b (store s')"
    proof cases
      case (settles_event j h)
      with False show ?thesis by blast
    qed (use assms(2,4,5) in \<open>simp_all add: bounded_request bounded_recovers bounded_claims [OF _ unique]
        as_update_one bounded_same [OF update_one_events] bounded_same [OF frame_others(1) [OF frame_reset_transaction]]
        bounded_same [OF frame_others(1) [OF frame_lifecycle(4)]] bounded_same [OF saveDeadLetterJob_transactions(2)]\<close>)
    with none show ?thesis by simp
  qed
qed

section \<open>Stored payloads\<close>

lemma payloads_clean_request:
  assumes "payloads_clean db"
  shows "payloads_clean (request_db W txnId ms now hdr body db)"
proof (rule request_db_pay [of W txnId ms now hdr body db])
  fix client answer
  assume "pay (w_hmac W) (w_sha256 W) (w_env W) (w_pg W) txnId ms now client hdr body db =
      (answer, request_db W txnId ms now hdr body db)"
  then show ?thesis
  proof (cases rule: pay_cases)
    case refused
    with assms show ?thesis by (simp add: same_tables_def payloads_clean_def)
  next
    case (accepted key fullTxn row payload)
    have "clean payload" using clean_to_json [OF accepted(8)] check_payment_stable(3) [OF accepted(3)] .
    with assms show ?thesis
      by (auto simp: accepted(9) payloads_clean_def outbox_insert_def Let_def)
  qed
qed (use assms in simp)

lemma payloads_clean_events:
  assumes "event_frame db db'" and "payloads_clean db"
  shows "payloads_clean db'"
proof -
  have "map ob_payload (outbox_events db') = map ob_payload (outbox_events db)"
    using arg_cong [OF conjunct1 [OF assms(1) [unfolded event_frame_def]], of "map (\<lambda>t. snd (snd t))"]
    by (simp add: comp_def)
  from arg_cong [OF this, of set] have "ob_payload ` set (outbox_events db') = ob_payload ` set (outbox_events db)" by simp
  then have "\<forall>e \<in> set (outbox_events db'). clean (ob_payload e)"
    using assms(2) unfolding payloads_clean_def by (metis imageE imageI)
  then show ?thesis using assms(2) event_frame_others(3) [OF assms(1)] by (simp add: payloads_clean_def)
qed

lemma payloads_clean_lifecycle: "lifecycle_frame db db' \<Longrightarrow> payloads_clean db \<Longrightarrow> payloads_clean db'"
  by (simp add: payloads_clean_def frame_others)

lemma payloads_clean_step:
  assumes "step W l s s'" and "payloads_clean (store s)"
  shows "payloads_clean (store s')"
  using step_effect [OF assms(1)]
  by cases (use assms(2) in \<open>simp_all add: payloads_clean_request payloads_clean_dead_letter
      payloads_clean_lifecycle [OF frame_lifecycle(1)] payloads_clean_lifecycle [OF frame_lifecycle(2)]
      payloads_clean_lifecycle [OF frame_lifecycle(3)] payloads_clean_lifecycle [OF frame_lifecycle(4)]
      payloads_clean_lifecycle [OF frame_reset_transaction] payloads_clean_events [OF event_frame_ops(1)]
      payloads_clean_events [OF event_frame_ops(2)] payloads_clean_events [OF event_frame_settled]\<close>)

section \<open>Properties\<close>

text \<open>C19: Bounded recovery. In every state the processes can reach together, an event has been taken
  back from a silent processor at most the configured number of times, plus once for every time
  a late mark of a processor reopened it after it had been given up; and it has used up
  that number only if it is \<open>OUTBOX_FAILED\<close>. So without late marks the maximum is never exceeded.\<close>

theorem recoveries_bounded:
  assumes "late_marks W i ls s0 s k" and "sys_inv s0" and "pg_laws (w_pg W)" and "0 < w_max_recoveries W"
    and "\<And>e. e \<in> set (outbox_events (store s0)) \<Longrightarrow> ob_id e = i \<Longrightarrow> ob_recovery_count e = 0"
    and "e \<in> set (outbox_events (store s))" and "ob_id e = i"
  shows "ob_recovery_count e \<le> w_max_recoveries W + int k \<and>
    (ob_recovery_count e = w_max_recoveries W + int k \<longrightarrow> ob_status e = ''OUTBOX_FAILED'')"
proof -
  have "bounded_at i (b + int k) (store s)"
    if "bounded_at i b (store s0)" "w_max_recoveries W \<le> b" for b
    using assms(1,2) that
  proof (induction arbitrary: b rule: late_marks.induct)
    case (more_marks l s s1 ls s2 k)
    let ?n = "if marks_event i l \<and> event_given_up i (store s) then 1 else 0 :: int"
    have "bounded_at i (b + ?n) (store s1)"
      using bounded_step [OF more_marks(1,5,4,6)] assms(4) more_marks(6) by simp
    then have "bounded_at i (b + ?n + int k) (store s2)"
      by (rule more_marks.IH [OF sys_inv_step [OF more_marks(1,4) assms(3)]]) (use more_marks(6) in simp)
    moreover have "?n = int (if marks_event i l \<and> event_given_up i (store s) then 1 else 0)" by simp
    ultimately show ?case by (simp only: of_nat_add add.assoc)
  qed simp
  moreover have "bounded_at i (w_max_recoveries W) (store s0)"
    using assms(4,5) by (auto simp: bounded_at_def recovery_bound_def)
  ultimately have "recovery_bound (w_max_recoveries W + int k) e"
    using assms(6,7) by (auto simp: bounded_at_def)
  then show ?thesis by (auto simp: recovery_bound_def)
qed

lemma late_marks_step:
  "step W l s s1 \<Longrightarrow> n = (if marks_event i l \<and> event_given_up i (store s) then 1 else 0) \<Longrightarrow>
    late_marks W i ls s1 s2 k \<Longrightarrow> late_marks W i (l # ls) s s2 (n + k)"
  by (simp only: late_marks.more_marks)

text \<open>The bound is reached: with a maximum of one recovery, a late mark buys a second one.\<close>

definition strict_world :: world where
  "strict_world = sample_world\<lparr>w_max_recoveries := 1\<rparr>"

definition sent_late :: handover where
  "sent_late = (smooth 2000001)\<lparr>add_error := Some ''timeout''\<rparr>"

definition late_labels :: "label list" where
  "late_labels = [ClaimEvents 10 ''p'' (\<lambda>_. False) 0, RecoverEvents 2000000, SettleEvent 0 sent_late,
     ClaimEvents 10 ''p'' (\<lambda>_. False) 3000000, RecoverEvents 6000000]"

definition reopened_db :: db where
  "reopened_db =
     (let d0 = sample_outbox [sample_event 0 ''PENDING''];
          d1 = snd (claimOutboxEvents 10 ''p'' None (\<lambda>_. False) 0 d0);
          d2 = snd (recoverStaleOutboxEvents 1000 1 None 2000000 d1)
      in d2)"

definition exhausted_db :: db where
  "exhausted_db =
     (let d3 = update_outbox (\<lambda>r. ob_id r = 0) (settled sent_late) reopened_db;
          d4 = snd (claimOutboxEvents 10 ''p'' None (\<lambda>_. False) 3000000 d3)
      in snd (recoverStaleOutboxEvents 1000 1 None 6000000 d4))"

lemma late_run:
  assumes "store s = sample_outbox [sample_event 0 ''PENDING'']"
  shows "late_marks strict_world 0 late_labels s (s\<lparr>store := exhausted_db\<rparr>) 1"
proof -
  let ?d0 = "sample_outbox [sample_event 0 ''PENDING'']"
  let ?d1 = "snd (claimOutboxEvents 10 ''p'' None (\<lambda>_. False) 0 ?d0)"
  let ?d3 = "update_outbox (\<lambda>r. ob_id r = 0) (settled sent_late) reopened_db"
  let ?d4 = "snd (claimOutboxEvents 10 ''p'' None (\<lambda>_. False) 3000000 ?d3)"
  let ?S = "\<lambda>d. s\<lparr>store := d\<rparr>"
  have world: "w_event_stale strict_world = 1000" "w_max_recoveries strict_world = 1"
    by (simp_all add: strict_world_def sample_world_def)
  have step1: "step strict_world (ClaimEvents 10 ''p'' (\<lambda>_. False) 0) s (?S ?d1)"
    using step.claim_events [of strict_world 10 "''p''" "\<lambda>_. False" 0 s] by (simp add: assms)
  have step2: "step strict_world (RecoverEvents 2000000) (?S ?d1) (?S reopened_db)"
    using step.recover_events [of strict_world 2000000 "?S ?d1"] by (simp add: world reopened_db_def)
  have step3: "step strict_world (SettleEvent 0 sent_late) (?S reopened_db) (?S ?d3)"
    using step.settle_event [of strict_world 0 sent_late "?S reopened_db"] by simp
  have step4: "step strict_world (ClaimEvents 10 ''p'' (\<lambda>_. False) 3000000) (?S ?d3) (?S ?d4)"
    using step.claim_events [of strict_world 10 "''p''" "\<lambda>_. False" 3000000 "?S ?d3"] by simp
  have step5: "step strict_world (RecoverEvents 6000000) (?S ?d4) (?S exhausted_db)"
    using step.recover_events [of strict_world 6000000 "?S ?d4"] by (simp add: world exhausted_db_def Let_def)
  have reopened: "event_given_up 0 reopened_db" by code_simp
  from late_marks_step [OF step1 refl late_marks_step [OF step2 refl late_marks_step [OF step3 refl
      late_marks_step [OF step4 refl late_marks_step [OF step5 refl late_marks.no_mark]]]], of 0]
  show ?thesis by (simp add: late_labels_def reopened)
qed

theorem recoveries_bounded_witness:
  "\<exists>s0 e. late_marks strict_world 0 late_labels s0 (s0\<lparr>store := exhausted_db\<rparr>) 1 \<and>
     outbox_events exhausted_db = [e] \<and> ob_recovery_count e = 2 \<and> ob_status e = ''OUTBOX_FAILED'' \<and>
     ob_recovery_count e \<le> w_max_recoveries strict_world + 1"
proof -
  let ?s = "initial\<lparr>store := sample_outbox [sample_event 0 ''PENDING'']\<rparr>"
  have inv: "sys_inv ?s"
    by (simp add: sys_inv_def store_inv_def lease_inv_def txn_ids_def sample_outbox_def empty_db_def)
  have "map (\<lambda>e. (ob_id e, ob_recovery_count e, ob_status e)) (outbox_events exhausted_db) = [(0, 2, ''OUTBOX_FAILED'')]"
    by code_simp
  then obtain e where e: "outbox_events exhausted_db = [e]" "ob_id e = 0" "ob_recovery_count e = 2"
      "ob_status e = ''OUTBOX_FAILED''"
    by (auto simp: map_eq_Cons_conv)
  have run: "late_marks strict_world 0 late_labels ?s (?s\<lparr>store := exhausted_db\<rparr>) 1"
    using late_run [of ?s] by simp
  have world: "pg_laws (w_pg strict_world)" "0 < w_max_recoveries strict_world"
    by (simp_all add: strict_world_def sample_world_def sample_pg_laws)
  have start: "ob_recovery_count d = 0" if "d \<in> set (outbox_events (store ?s))" for d
    using that by (simp add: sample_outbox_def)
  have "ob_recovery_count e \<le> w_max_recoveries strict_world + 1"
    using recoveries_bounded [OF run inv world start, of e] e by simp
  with run e show ?thesis by blast
qed

text \<open>C26: In every state the processes can reach together, no event of the outbox, no job made from one
  and no dead letter holds a member named \<open>pin\<close>, \<open>cardNumber\<close> or \<open>card_number\<close> at any depth,
  whatever the bodies of the requests and the data of the jobs were.\<close>

theorem stored_payloads_clean:
  assumes "steps W ls s0 s" and "payloads_clean (store s0)"
  shows "(\<forall>e \<in> set (outbox_events (store s)). clean (ob_payload e) \<and> clean (job_data (queued_job e))) \<and>
    (\<forall>d \<in> set (dead_letter_jobs (store s)). clean (dl_payload d))"
proof -
  have "payloads_clean (store s)"
    using steps_invariant [OF assms(1), of "\<lambda>s. payloads_clean (store s)"] assms(2) payloads_clean_step by blast
  then show ?thesis by (simp add: payloads_clean_def queued_job_def)
qed

text \<open>A payment with PIN and card number, and a failed job that carries them.\<close>

definition card_body :: jsval where
  "card_body = JObj (own_props plain_body @ [(''pin'', JStr ''1234''), (''cardNumber'', JStr ''4000123412341234'')])"

definition card_job :: job where
  "card_job = \<lparr>job_id = ''u'', job_data = JObj [(''id'', JStr ''u''), (''pin'', JStr ''1234''), (''card_number'', JStr ''4000123412341234'')],
     job_queue = ''transaction-processing'', job_attemptsMade = 3, job_attempts = 3\<rparr>"

theorem stored_payloads_clean_witness:
  "\<exists>s e d. steps sample_world [Request ''t'' 0 0 paying_headers card_body, Deliver 0 ''w'' card_job, Fault 0 ''down'', Bury 0 9]
       initial s \<and>
     outbox_events (store s) = [e] \<and> clean (ob_payload e) \<and> dead_letter_jobs (store s) = [d] \<and> clean (dl_payload d)"
proof -
  let ?db1 = "request_db sample_world ''t'' 0 0 paying_headers card_body empty_db"
  let ?bury = "saveDeadLetterJob (\<lambda>secret digits. ''f'') sample_env sample_pg 9 card_job (error_message (\<lambda>_. ''error'') (DbError ''down''))"
  let ?db2 = "snd (?bury ?db1)"
  have "length (outbox_events ?db2) = 1 \<and> length (dead_letter_jobs ?db2) = 1" by code_simp
  then obtain e d where rows: "outbox_events ?db2 = [e]" "dead_letter_jobs ?db2 = [d]"
    by (auto simp: length_Suc_conv)
  let ?s1 = "initial\<lparr>store := ?db1\<rparr>"
  let ?r = "\<lparr>run_worker = ''w'', run_job = card_job, run_txn = None, run_phase = Reading,
       run_beat = \<lparr>timer_on = False, heartbeatRunning = False\<rparr>\<rparr>"
  let ?s2 = "with_run 0 ?r ?s1"
  let ?s3 = "with_run 0 (?r\<lparr>run_phase := Thrown (DbError ''down'')\<rparr>) ?s2"
  have pay: "step sample_world (Request ''t'' 0 0 paying_headers card_body) initial ?s1"
    using step.request [of sample_world "''t''" 0 0 paying_headers card_body initial] by (simp add: initial_def)
  have deliver: "step sample_world (Deliver 0 ''w'' card_job) ?s1 ?s2"
    by (rule step.deliver) (simp add: initial_def)
  have fault: "step sample_world (Fault 0 ''down'') ?s2 ?s3" by (rule step.fault) simp_all
  obtain s where bury: "step sample_world (Bury 0 9) ?s3 s" and s: "store s = ?db2"
  proof (rule that)
    show "step sample_world (Bury 0 9) ?s3 (with_run 0
        (?r\<lparr>run_phase := (case fst (?bury ?db1) of Inr _ \<Rightarrow> Lettered (DbError ''down'') | Inl _ \<Rightarrow> Reported)\<rparr>)
        (?s3\<lparr>store := ?db2\<rparr>))"
      using step.bury [of ?s3 0 "?r\<lparr>run_phase := Thrown (DbError ''down'')\<rparr>" "DbError ''down''" sample_world 9
          "fst (?bury ?db1)" ?db2]
      by (simp add: sample_world_def job_remaining_def card_job_def)
  qed simp
  note run = steps.more_steps [OF pay steps.more_steps [OF deliver steps.more_steps [OF fault
      steps.more_steps [OF bury steps.no_step]]]]
  have "payloads_clean (store initial)" by (simp add: payloads_clean_def initial_def empty_db_def)
  from stored_payloads_clean [OF run this] run rows show ?thesis by (auto simp: s)
qed

end
