(* ===== verification/Settlement.thy ===== *)
theory Settlement
  imports JsValue
begin

text \<open>
  The two parts of the first version of the program that are still in the repository:
  \<open>generateSettlement.js\<close>, which writes a fixed-width settlement file, and the in-memory
  queue of \<open>queue/queue.js\<close>.
\<close>

section \<open>The settlement file\<close>

record settled_txn =
  st_id :: string
  st_type :: string
  st_amount :: rat
  st_status :: string

definition settlement_transactions :: "settled_txn list" where
  "settlement_transactions =
     [\<lparr>st_id = ''TXN1001'', st_type = ''PURCHASE'', st_amount = 10025 / 100, st_status = ''APPROVED''\<rparr>,
      \<lparr>st_id = ''TXN1002'', st_type = ''WITHDRAWAL'', st_amount = 250, st_status = ''APPROVED''\<rparr>,
      \<lparr>st_id = ''TXN1003'', st_type = ''BALANCE'', st_amount = 0, st_status = ''SUCCESS''\<rparr>,
      \<lparr>st_id = ''TXN1004'', st_type = ''PURCHASE'', st_amount = 755 / 10, st_status = ''DECLINED''\<rparr>]"

definition padRight :: "string \<Rightarrow> nat \<Rightarrow> string" where
  "padRight value n = value @ replicate (n - length value) CHR '' ''"

definition padLeft :: "string \<Rightarrow> nat \<Rightarrow> string" where
  "padLeft value n = replicate (n - length value) CHR ''0'' @ value"

text \<open>\<open>String(Math.round(amount * 100))\<close> for an amount that is a double.\<close>

definition cents :: "rat \<Rightarrow> string" where
  "cents amount =
     (case to_double (amount * 100) of
        Fin x \<Rightarrow> num_to_string (Fin (of_int \<lfloor>x + 1 / 2\<rfloor>)) | n \<Rightarrow> num_to_string n)"

definition settlement_line :: "settled_txn \<Rightarrow> string" where
  "settlement_line t =
     padRight (st_id t) 12 @ padRight (st_type t) 12 @ padLeft (cents (st_amount t)) 10 @
     padRight (st_status t) 10"

definition settlement_file :: "settled_txn list \<Rightarrow> string" where
  "settlement_file ts = join [CHR 0x0A] (map settlement_line ts)"

lemma length_pads [simp]:
  "length (padRight s n) = max n (length s)" "length (padLeft s n) = max n (length s)"
  by (simp_all add: padRight_def padLeft_def)

text \<open>A reader of the fixed columns gets the fields back.\<close>

definition columns_of :: "string \<Rightarrow> string \<times> string \<times> string \<times> string" where
  "columns_of line =
     (take 12 line, take 12 (drop 12 line), take 10 (drop 24 line), drop 34 line)"

lemma columns_of_line:
  assumes "length (st_id t) \<le> 12" "length (st_type t) \<le> 12" "length (cents (st_amount t)) \<le> 10"
  shows "columns_of (settlement_line t) =
    (padRight (st_id t) 12, padRight (st_type t) 12, padLeft (cents (st_amount t)) 10, padRight (st_status t) 10)"
  using assms by (simp add: columns_of_def settlement_line_def)

section \<open>The in-memory queue\<close>

record legacy_queue =
  queue :: "jsval list"
  deadLetterQueue :: "jsval list"

text \<open>\<open>txn.id\<close> is read for the log line, so \<open>null\<close> cannot be queued.\<close>

definition addToQueue :: "jsval \<Rightarrow> legacy_queue \<Rightarrow> legacy_queue result" where
  "addToQueue txn q = and_then (js_get txn ''id'') (\<lambda>_. Inr (q\<lparr>queue := queue q @ [txn]\<rparr>))"

definition getNextTransaction :: "legacy_queue \<Rightarrow> jsval \<times> legacy_queue" where
  "getNextTransaction q =
     (case queue q of [] \<Rightarrow> (JUndef, q) | txn # rest \<Rightarrow> (txn, q\<lparr>queue := rest\<rparr>))"

definition addToDeadLetterQueue :: "jsval \<Rightarrow> legacy_queue \<Rightarrow> legacy_queue result" where
  "addToDeadLetterQueue txn q =
     and_then (js_get txn ''id'') (\<lambda>_. Inr (q\<lparr>deadLetterQueue := deadLetterQueue q @ [txn]\<rparr>))"

definition getDeadLetterQueue :: "legacy_queue \<Rightarrow> jsval list" where
  "getDeadLetterQueue q = deadLetterQueue q"

primrec drain :: "nat \<Rightarrow> legacy_queue \<Rightarrow> jsval list \<times> legacy_queue" where
  "drain 0 q = ([], q)"
| "drain (Suc n) q =
     (let (txn, q1) = getNextTransaction q; (txns, q2) = drain n q1 in (txn # txns, q2))"

primrec enqueue_all :: "jsval list \<Rightarrow> legacy_queue \<Rightarrow> legacy_queue result" where
  "enqueue_all [] q = Inr q"
| "enqueue_all (t # ts) q = and_then (addToQueue t q) (enqueue_all ts)"

lemma drain_queue: "drain (length (queue q)) q = (queue q, q\<lparr>queue := []\<rparr>)"
proof (induction "queue q" arbitrary: q)
  case Nil
  then show ?case by (cases q) (metis legacy_queue.update_convs(1) legacy_queue.select_convs(1) drain.simps(1) list.size(3))
next
  case (Cons t ts)
  then have "drain (length ts) (q\<lparr>queue := ts\<rparr>) = (ts, q\<lparr>queue := []\<rparr>)" by (metis legacy_queue.select_convs(1) legacy_queue.update_convs(1) legacy_queue.surjective)
  with Cons.hyps(2) [symmetric] show ?case by (simp add: getNextTransaction_def)
qed

lemma js_get_defined: "\<not> nullish t \<Longrightarrow> \<exists>v. js_get t k = Inr v"
  by (cases t) auto

lemma enqueue_all_appends:
  "\<forall>t \<in> set ts. \<not> nullish t \<Longrightarrow> enqueue_all ts q = Inr (q\<lparr>queue := queue q @ ts\<rparr>)"
proof (induction ts arbitrary: q)
  case Nil
  then show ?case by simp
next
  case (Cons t ts)
  then obtain v where "js_get t ''id'' = Inr v" using js_get_defined by fastforce
  with Cons show ?case by (simp add: addToQueue_def)
qed

section \<open>Properties\<close>

text \<open>The in-memory queue is first-in first-out: what is added to an empty queue is taken out
  once each, in the same order, and leaves it empty; the dead letters are not touched.\<close>

lemma legacy_queue_fifo:
  assumes "queue q = []" and "\<forall>t \<in> set ts. \<not> nullish t"
  shows "\<exists>q'. enqueue_all ts q = Inr q' \<and> drain (length ts) q' = (ts, q)"
proof -
  have "q\<lparr>queue := []\<rparr> = q" using assms(1) by (metis legacy_queue.surjective legacy_queue.update_convs(1) legacy_queue.select_convs(1))
  with drain_queue [of "q\<lparr>queue := ts\<rparr>"] assms enqueue_all_appends [of ts q] show ?thesis by simp
qed

text \<open>A line of the settlement file has exactly four columns of 12, 12, 10 and 10 characters
  from which a reader gets the padded fields back, provided the fields fit their columns.\<close>

lemma settlement_columns:
  assumes "length (st_id t) \<le> 12" "length (st_type t) \<le> 12" "length (cents (st_amount t)) \<le> 10"
    and "length (st_status t) \<le> 10"
  shows "length (settlement_line t) = 44 \<and> columns_of (settlement_line t) =
    (padRight (st_id t) 12, padRight (st_type t) 12, padLeft (cents (st_amount t)) 10, padRight (st_status t) 10)"
  using columns_of_line [OF assms(1-3)] assms by (simp add: settlement_line_def)

end
