(* ===== verification/Spec2Isabelle.thy ===== *)
theory Spec2Isabelle
  imports EndToEnd Process Progress Reachable Settlement
begin

text \<open>
  A verification of \<^bold>\<open>payment-sim\<close>, an asynchronous payment processing simulator in
  JavaScript: an HTTP API that accepts payments, an outbox processor that hands accepted
  payments to a job queue, workers that process them, and timers that take back what a
  crashed process left behind, all around one PostgreSQL database.

  \<^bold>\<open>How the program works.\<close> \<open>POST /pay\<close> (\<open>app.js\<close>) authenticates the client, hashes the body,
  validates it, asks the risk engine, removes the sensitive members and saves one row of
  \<open>transactions\<close> and one row of \<open>outbox_events\<close> in one database transaction; a unique index on
  the idempotency key makes retries safe. Every five seconds the outbox processor takes back
  stale events, claims pending ones with \<open>FOR UPDATE SKIP LOCKED\<close> and adds a job per event to
  the queue. A worker that gets a job reads the transaction, claims it by an update guarded
  by the status \<open>ACCEPTED\<close>, renews its lease from a timer while it works, decides, and stores
  the outcome by an update guarded by its own lease. Jobs that throw are retried by the queue,
  with a listener that puts the transaction back, and at last leave a dead letter. A timer puts
  transactions with a passed lease back to \<open>ACCEPTED\<close>.

  \<^bold>\<open>The theories, in the order of the code's layers.\<close>

  \<^item> \<open>Prelude\<close>: the result type (\<open>js_error + 'a\<close>: every throw is a value), table rows by key,
    updates with a guard and what they return; the collections of rules the components share.
  \<^item> \<open>JsNumber\<close>, \<open>NumberText\<close>, \<open>JsValue\<close>, \<open>JsonData\<close>, \<open>JsonParse\<close>, \<open>JsDate\<close>: what the source uses of
    the language. Numbers are
    the IEEE doubles (\<open>Fin\<close> of a rational, infinities, \<open>NaN\<close>) with the engine's conversions to and
    from text; objects are lists of members in the order of the engine (array-index keys first);
    \<open>JSON.stringify\<close> as a function from values to JSON values and their text; \<open>JSON.parse\<close>;
    \<open>Date.toISOString\<close>. \<open>NumberText\<close> proves that a double printed is read back as itself, and
    \<open>JsonParse\<close> that JSON data written is read back as itself.
  \<^item> \<open>SensitiveData\<close>, \<open>Redaction\<close> (\<open>utils/sensitiveData.js\<close>), \<open>RequestHash\<close> (\<open>utils/requestHash.js\<close>),
    \<open>Config\<close> (\<open>config/config.js\<close>), \<open>Validation\<close> (\<open>validation/validator.js\<close>, \<open>risk/riskEngine.js\<close>),
    \<open>Processing\<close> (\<open>processor/\<close>, \<open>broker/\<close>, \<open>systems/\<close>, and the decisions of
    \<open>processClaimedTransaction\<close>).
  \<^item> \<open>Tables\<close>: the rows of \<open>db/init.sql\<close> as records (the column \<open>card_number\<close>, which no statement
    writes, is left out and read as \<open>null\<close>), the state \<open>db\<close>, and the interface \<open>pg\<close> of the driver.
    \<open>Store\<close> and \<open>Lifecycle\<close> (\<open>store/store.js\<close>): saving with the outbox event and dead letters;
    the guarded updates of a transaction's life.
  \<^item> \<open>Outbox\<close> (\<open>outbox/outboxProcessor.js\<close>), \<open>Worker\<close> (\<open>jobs/\<close>), \<open>Scheduler\<close> (the timers of
    \<open>recovery/transactionRecovery.js\<close>, the outbox and the heartbeat).
  \<^item> \<open>Auth\<close> (\<open>middleware/apiKeyAuth.js\<close>, \<open>statusAuthorization.js\<close>, \<open>corsConfig.js\<close>), \<open>RateLimiter\<close>
    (\<open>middleware/rateLimiter.js\<close>), \<open>Api\<close> (\<open>app.js\<close>), \<open>Metrics\<close> (\<open>observability/metrics.js\<close>),
    \<open>Migrations\<close> (\<open>db/migrate.js\<close>), \<open>Settlement\<close> (\<open>generateSettlement.js\<close>, \<open>queue/queue.js\<close>).
  \<^item> \<open>Server\<close> (\<open>app.js\<close> as a whole): the middleware in its order, the routes, and a sequence of requests
    on one server. \<open>Process\<close> (\<open>api.js\<close>, \<open>worker.js\<close>, \<open>outbox.js\<close>, \<open>logger/logger.js\<close>,
    \<open>jobs/transactionQueue.js\<close>): when each process reads its environment, the checks before it
    starts, how it closes, and what it logs.
  \<^item> \<open>System\<close>: the processes together, as a step relation whose steps are single database
    statements of any process in any order; a statement may fail, or run and lose its answer. The
    listener of failed jobs takes its two statements, the dead letter and the update of the
    transaction, one at a time too (\<open>listener_steps\<close>: undisturbed they are \<open>on_failed\<close>).
    What steps do to the tables is summed up in the relation \<open>effect\<close>, over which the
    invariants are proved. \<open>Progress\<close>: what can still be reached from every state of it.
    \<open>Reachable\<close>: what holds of events and payloads in every state of it.
    \<open>EndToEnd\<close>: one payment from the request to its final row.

  \<^bold>\<open>Interfaces.\<close> Five contracts are locales, each interpreted on the model's definitions: the
  idempotent store of payments (\<open>Store\<close>), the lease of a transaction with claim and release
  (\<open>Lifecycle\<close>), the pool of pending events (\<open>Outbox\<close>), the guarded timer (\<open>Scheduler\<close>), and texts
  that are read back (\<open>Prelude\<close>; for numbers, JSON data and the keys of the counters). The lemmas
  about sequences of operations are proved once in the locale.

  \<^bold>\<open>What the lemmas show.\<close> Sensitive members never reach the tables, the queue, the logs or an
  answer, at any depth; the redaction of error texts hides every card number its pattern can see,
  and a proved example shows one it exposes. Saving is atomic and exactly once per idempotency key. Claims and
  leases exclude each other, outcomes are stored only by the holder of the lease, and over all
  interleavings a transaction is finished by at most one run and stays final; the exceptions,
  all through the listener of failed jobs and the unguarded marks of the outbox, are stated and
  proved too. An HTTP request writes only as an admitted payment, and without a key its answer
  depends on nothing that is stored; every request the counters see is counted once. The
  program as a whole refines a four-state life cycle, and no reachable state of it is a dead end:
  recovery and one more delivery finish any transaction that is not final. A validated payment is
  decided as a table over the request says, after all that is removed on the way. The request
  hash depends on the data of the body alone. The rate limiter passes exactly its maximum per
  window and at most twice that in any span of the window's length.

  \<^bold>\<open>Bounds.\<close> All functions are total. Loops of the code are recursions over the list they
  traverse; the one loop without such a list, the search for the shortest digits of a double,
  goes down to the place of the last digit a double has (1075 digits after the decimal point),
  where the exact value is always found; the parser of JSON takes twice the length of the text as
  fuel, which \<open>JsonParse\<close> proves enough. Times are integers: microseconds
  in the database, milliseconds in the processes and in Redis.

  \<^bold>\<open>Parameters.\<close> HMAC and SHA-256, random ids, clocks, the text of errors the engine or the
  driver raises, the driver's conversion of parameters and whether a row fits its columns
  (\<open>pg\<close>), locks held by other database sessions, faults and lost replies of a statement or of the
  queue, the limiter in memory (given the settings read when its module was loaded), and what other processes do between two statements of a run; \<open>dotenv\<close>, which route a request
  matches, the body the parser makes, and the answers Express gives itself.

  \<^bold>\<open>Not modelled.\<close> The frameworks (Express, helmet, the body parser, the in-memory rate
  limiter package, BullMQ, ioredis, pg), the creation of the pool (\<open>db/connection.js\<close>), the lines
  printed to \<open>console\<close> other than those of \<open>logEvent\<close> for a payment, and the SQL of the migration
  scripts (with the table of the log and the lock around a run): they are calls into libraries without
  decisions of their own. That \<open>PEXPIRE\<close> also refuses whole windows beyond 64 bits is left out.
  Code units above 255
  are not represented in strings; database sequences are modelled where the code depends on
  their order.
\<close>

end
